(* ===== verification/Prelude.thy ===== *)
theory Prelude
  imports Main "HOL-Library.Word" "HOL-Library.AList" "HOL-Library.Monad_Syntax"
begin

text \<open>
  Shared ground of the gateway development: Go byte slices as lists of 8-bit words, Go
  strings as lists of characters (a Go string is a byte string and an Isabelle character is
  one byte), checked indexing and slicing with an explicit panic, the big-endian codecs of
  \<^verbatim>\<open>encoding/binary\<close>, Go maps as association lists with distinct keys, and the invariant
  rule for step relations. The collections \<open>wire\<close> and \<open>dict_simps\<close> carry the component
  proofs.
\<close>

unbundle bit_operations_syntax

named_theorems wire
named_theorems dict_simps

section \<open>Panics\<close>

text \<open>
  A Go expression that may panic (an index or a slice out of range) has an option type: the
  value \<^term>\<open>None\<close> is the run-time panic. Error returns are values of their own types.
\<close>

declare Option.bind_cong [fundef_cong]

section \<open>Bytes and strings\<close>

type_synonym byte = "8 word"
type_synonym bytes = "byte list"

definition byte_of_char :: "char \<Rightarrow> byte" where
  "byte_of_char c = of_char c"

definition char_of_byte :: "byte \<Rightarrow> char" where
  "char_of_byte b = char_of (unat b)"

definition bytes_of_string :: "string \<Rightarrow> bytes" where
  "bytes_of_string s = map byte_of_char s"

definition string_of_bytes :: "bytes \<Rightarrow> string" where
  "string_of_bytes bs = map char_of_byte bs"

lemma unat_byte_less [simp]: "unat (b :: byte) < 256"
  using unsigned_less [of b] by simp

lemma unat_byte_of_char [simp]: "unat (byte_of_char c) = of_char c"
proof -
  have "byte_of_char c = word_of_nat (of_char c)"
    by (simp add: byte_of_char_def of_nat_of_char)
  then show ?thesis
    by (simp add: unat_of_nat)
qed

lemma char_of_byte_of_char [simp]: "char_of_byte (byte_of_char c) = c"
  by (simp add: char_of_byte_def)

lemma byte_of_char_of_byte [simp]: "byte_of_char (char_of_byte b) = b"
proof -
  have "unat (byte_of_char (char_of_byte b)) = unat b"
    by (simp add: char_of_byte_def)
  then show ?thesis by (simp only: word_unat_eq_iff)
qed

lemma string_of_bytes_of_string [simp]: "string_of_bytes (bytes_of_string s) = s"
  by (simp add: string_of_bytes_def bytes_of_string_def comp_def)

lemma bytes_of_string_of_bytes [simp]: "bytes_of_string (string_of_bytes bs) = bs"
  by (simp add: string_of_bytes_def bytes_of_string_def comp_def)

lemma length_bytes_of_string [simp]: "length (bytes_of_string s) = length s"
  by (simp add: bytes_of_string_def)

lemma length_string_of_bytes [simp]: "length (string_of_bytes bs) = length bs"
  by (simp add: string_of_bytes_def)

lemma bytes_of_string_append [simp]:
  "bytes_of_string (s @ t) = bytes_of_string s @ bytes_of_string t"
  by (simp add: bytes_of_string_def)

lemma string_of_bytes_append [simp]:
  "string_of_bytes (s @ t) = string_of_bytes s @ string_of_bytes t"
  by (simp add: string_of_bytes_def)

lemma bytes_of_string_Nil [simp]: "bytes_of_string [] = []"
  by (simp add: bytes_of_string_def)

lemma string_of_bytes_eq_Nil [simp]: "string_of_bytes bs = [] \<longleftrightarrow> bs = []"
  by (simp add: string_of_bytes_def)

lemma bytes_of_string_eq_Nil [simp]: "bytes_of_string s = [] \<longleftrightarrow> s = []"
  by (simp add: bytes_of_string_def)

section \<open>Indexing and slicing\<close>

definition idx :: "'a list \<Rightarrow> nat \<Rightarrow> 'a option" where
  "idx xs i = (if i < length xs then Some (xs ! i) else None)"

definition slice :: "'a list \<Rightarrow> nat \<Rightarrow> nat \<Rightarrow> 'a list option" where
  "slice xs lo hi =
     (if lo \<le> hi \<and> hi \<le> length xs then Some (take (hi - lo) (drop lo xs)) else None)"

lemma idx_Some [simp]: "i < length xs \<Longrightarrow> idx xs i = Some (xs ! i)"
  by (simp add: idx_def)

lemma slice_Some [simp]:
  "lo \<le> hi \<Longrightarrow> hi \<le> length xs \<Longrightarrow> slice xs lo hi = Some (take (hi - lo) (drop lo xs))"
  by (simp add: slice_def)

lemma idx_0 [simp]: "\<not> length xs < numeral k \<Longrightarrow> idx xs 0 = Some (xs ! 0)"
  by (cases xs) simp_all

lemma idx_append1: "i < length xs \<Longrightarrow> idx (xs @ ys) i = idx xs i"
  by (simp add: idx_def nth_append)

lemma slice_append1:
  "lo \<le> hi \<Longrightarrow> hi \<le> length xs \<Longrightarrow> slice (xs @ ys) lo hi = slice xs lo hi"
  by (simp add: slice_def)

lemma idx_at [wire]: "idx (pre @ x # rest) (length pre) = Some x"
  by (simp add: idx_def)

lemma slice_at [wire]:
  "slice (pre @ mid @ rest) (length pre) (length pre + length mid) = Some mid"
  by (simp add: slice_def)

section \<open>Big-endian integers\<close>

text \<open>
  \<^verbatim>\<open>int(a)<<8 | int(b)\<close>: two bytes read as a length, the idiom of every length field the
  gateway parses by hand; \<open>u24\<close> is the three-byte handshake length.
\<close>

definition u16 :: "byte \<Rightarrow> byte \<Rightarrow> nat" where
  "u16 a b = push_bit 8 (unat a) OR unat b"

definition u24 :: "byte \<Rightarrow> byte \<Rightarrow> byte \<Rightarrow> nat" where
  "u24 a b c = push_bit 16 (unat a) OR (push_bit 8 (unat b) OR unat c)"

lemma push_bit_or_nat: "m < 2 ^ k \<Longrightarrow> push_bit k n OR m = n * 2 ^ k + (m :: nat)"
proof -
  assume m: "m < 2 ^ k"
  have "push_bit k n AND m = 0"
  proof (rule bit_eqI)
    fix i
    have "\<not> (bit (push_bit k n) i \<and> bit m i)"
    proof
      assume b: "bit (push_bit k n) i \<and> bit m i"
      then have "k \<le> i" by (simp add: bit_push_bit_iff)
      with m have "m < 2 ^ i"
        by (meson less_le_trans one_le_numeral power_increasing)
      with b show False by (simp add: bit_iff_odd)
    qed
    then show "bit (push_bit k n AND m) i = bit 0 i" by (simp add: bit_and_iff)
  qed
  then have "push_bit k n + m = push_bit k n OR m"
    by (rule disjunctive_add_eq_or)
  then show ?thesis by (simp add: push_bit_eq_mult)
qed

lemma u16_eq [wire]: "u16 a b = unat a * 256 + unat b"
  using push_bit_or_nat [of "unat b" 8 "unat a"] by (simp add: u16_def)

lemma u24_eq [wire]: "u24 a b c = unat a * 65536 + unat b * 256 + unat c"
proof -
  have bc: "push_bit 8 (unat b) OR unat c = unat b * 256 + unat c"
    using push_bit_or_nat [of "unat c" 8 "unat b"] by simp
  have "unat b * 256 + unat c < 65536"
    using unat_byte_less [of b] unat_byte_less [of c] by linarith
  then have "unat b * 256 + unat c < 2 ^ 16" by simp
  from push_bit_or_nat [OF this, of "unat a"] bc show ?thesis
    by (simp add: u24_def)
qed

text \<open>\<open>be_bytes k n\<close> writes the low \<open>k\<close> bytes of \<open>n\<close>, most significant first.\<close>

primrec be_bytes :: "nat \<Rightarrow> nat \<Rightarrow> bytes" where
  "be_bytes 0 n = []"
| "be_bytes (Suc k) n = be_bytes k (n div 256) @ [word_of_nat n]"

definition be_nat :: "bytes \<Rightarrow> nat" where
  "be_nat bs = foldl (\<lambda>acc b. acc * 256 + unat b) 0 bs"

lemma length_be_bytes [simp]: "length (be_bytes k n) = k"
  by (induction k arbitrary: n) simp_all

lemma be_nat_Nil [simp]: "be_nat [] = 0"
  by (simp add: be_nat_def)

lemma be_nat_snoc [simp]: "be_nat (bs @ [b]) = be_nat bs * 256 + unat b"
  by (simp add: be_nat_def)

lemma unat_word_of_nat_byte: "unat (word_of_nat n :: byte) = n mod 256"
  by (simp add: unat_of_nat)

lemma be_nat_be_bytes: "be_nat (be_bytes k n) = n mod 256 ^ k"
proof (induction k arbitrary: n)
  case 0
  then show ?case by simp
next
  case (Suc k)
  have "n mod 256 ^ Suc k = (n div 256 mod 256 ^ k) * 256 + n mod 256"
    by (simp add: mod_mult2_eq mult.commute)
  with Suc show ?case by (simp add: unat_word_of_nat_byte)
qed

lemma be_nat_less: "be_nat bs < 256 ^ length bs"
proof (induction bs rule: rev_induct)
  case Nil
  then show ?case by simp
next
  case (snoc b bs)
  then have "be_nat bs * 256 + unat b < 256 ^ length bs * 256"
    using unat_byte_less [of b] by linarith
  then show ?case by (simp add: mult.commute)
qed

lemma be_bytes_be_nat: "be_bytes (length bs) (be_nat bs) = bs"
proof (induction bs rule: rev_induct)
  case Nil
  then show ?case by simp
next
  case (snoc b bs)
  have "(word_of_nat (be_nat bs * 256 + unat b) :: byte) = b"
  proof -
    have "unat (word_of_nat (be_nat bs * 256 + unat b) :: byte) = (be_nat bs * 256 + unat b) mod 256"
      by (rule unat_word_of_nat_byte)
    then have "unat (word_of_nat (be_nat bs * 256 + unat b) :: byte) = unat b"
      by simp
    then show ?thesis by (simp only: word_unat_eq_iff)
  qed
  with snoc show ?case by (simp add: div_plus_div_distrib_dvd_left)
qed

text \<open>\<^verbatim>\<open>binary.BigEndian\<close>: the three widths the gateway writes and reads.\<close>

definition PutUint16 :: "16 word \<Rightarrow> bytes" where
  "PutUint16 w = be_bytes 2 (unat w)"

definition Uint16 :: "bytes \<Rightarrow> 16 word" where
  "Uint16 bs = word_of_nat (be_nat (take 2 bs))"

definition PutUint32 :: "32 word \<Rightarrow> bytes" where
  "PutUint32 w = be_bytes 4 (unat w)"

definition Uint32 :: "bytes \<Rightarrow> 32 word" where
  "Uint32 bs = word_of_nat (be_nat (take 4 bs))"

definition PutUint64 :: "64 word \<Rightarrow> bytes" where
  "PutUint64 w = be_bytes 8 (unat w)"

definition Uint64 :: "bytes \<Rightarrow> 64 word" where
  "Uint64 bs = word_of_nat (be_nat (take 8 bs))"

text \<open>
  The contract of a fixed-width codec, and what its clients use: a field is read back from
  the front of a longer buffer, and distinct values have distinct encodings.
\<close>

locale fixed_codec =
  fixes put :: "'w \<Rightarrow> bytes" and get :: "bytes \<Rightarrow> 'w" and width :: nat
  assumes put_length: "length (put w) = width"
    and get_put: "get (put w) = w"
    and get_prefix: "get (take width bs) = get bs"
begin

lemma get_put_append: "get (put w @ rest) = w"
proof -
  have "take width (put w @ rest) = put w"
    by (simp add: put_length)
  then show ?thesis
    using get_prefix [of "put w @ rest"] by (simp add: get_put)
qed

lemma put_inject: "put v = put w \<longleftrightarrow> v = w"
  by (metis get_put)

lemma drop_put: "drop width (put w @ rest) = rest"
  by (simp add: put_length)

end

lemma word_of_nat_unat_mod:
  fixes w :: "'a :: len word"
  assumes "m = 2 ^ LENGTH('a)"
  shows "word_of_nat (unat w mod m) = w"
  using unsigned_less [of w] assms by simp

interpretation be16: fixed_codec PutUint16 Uint16 2
  by unfold_locales
    (simp_all add: PutUint16_def Uint16_def be_nat_be_bytes word_of_nat_unat_mod)

interpretation be32: fixed_codec PutUint32 Uint32 4
  by unfold_locales
    (simp_all add: PutUint32_def Uint32_def be_nat_be_bytes word_of_nat_unat_mod)

interpretation be64: fixed_codec PutUint64 Uint64 8
  by unfold_locales
    (simp_all add: PutUint64_def Uint64_def be_nat_be_bytes word_of_nat_unat_mod)

lemmas be_codec [simp] =
  be16.put_length be16.get_put_append be16.get_put
  be32.put_length be32.get_put_append be32.get_put
  be64.put_length be64.get_put_append be64.get_put

section \<open>Go maps\<close>

text \<open>
  A Go map is an association list with distinct keys, so that \<^verbatim>\<open>len(m)\<close> and \<^verbatim>\<open>range m\<close> compute.
  Go's iteration order is unspecified; the list's order is one of the possible ones, and
  every property about an iteration is stated on the set of what it visits.
\<close>

type_synonym ('k, 'v) dict = "('k \<times> 'v) list"

definition dict_get :: "('k, 'v) dict \<Rightarrow> 'k \<Rightarrow> 'v option" where
  "dict_get d k = map_of d k"

definition dict_set :: "('k, 'v) dict \<Rightarrow> 'k \<Rightarrow> 'v \<Rightarrow> ('k, 'v) dict" where
  "dict_set d k v = AList.update k v d"

definition dict_del :: "('k, 'v) dict \<Rightarrow> 'k \<Rightarrow> ('k, 'v) dict" where
  "dict_del d k = AList.delete k d"

definition dict_drop :: "('k \<Rightarrow> bool) \<Rightarrow> ('k, 'v) dict \<Rightarrow> ('k, 'v) dict" where
  "dict_drop P d = filter (\<lambda>kv. \<not> P (fst kv)) d"

definition dict_ok :: "('k, 'v) dict \<Rightarrow> bool" where
  "dict_ok d = distinct (map fst d)"

text \<open>The laws every user of a Go map relies on.\<close>

locale go_map =
  fixes get :: "'m \<Rightarrow> 'k \<Rightarrow> 'v option"
    and put :: "'m \<Rightarrow> 'k \<Rightarrow> 'v \<Rightarrow> 'm"
    and del :: "'m \<Rightarrow> 'k \<Rightarrow> 'm"
    and ok :: "'m \<Rightarrow> bool"
  assumes get_put: "get (put m k v) j = (if j = k then Some v else get m j)"
    and get_del: "get (del m k) j = (if j = k then None else get m j)"
    and ok_put: "ok m \<Longrightarrow> ok (put m k v)"
    and ok_del: "ok m \<Longrightarrow> ok (del m k)"
begin

lemma get_fold_put:
  "get (fold (\<lambda>x m. put m (f x) (g x)) xs m) k =
     (case find (\<lambda>x. f x = k) (rev xs) of None \<Rightarrow> get m k | Some x \<Rightarrow> Some (g x))"
proof (induction xs arbitrary: m)
  case Nil
  then show ?case by simp
next
  case (Cons x xs)
  have "find (\<lambda>x. f x = k) (rev xs @ [x]) =
      (case find (\<lambda>x. f x = k) (rev xs) of
         None \<Rightarrow> (if f x = k then Some x else None) | Some y \<Rightarrow> Some y)" for xs
    by (induction xs rule: rev_induct) simp_all
  then show ?case
    by (auto simp: Cons get_put split: option.splits)
qed

lemma ok_fold_put: "ok m \<Longrightarrow> ok (fold (\<lambda>x m. put m (f x) (g x)) xs m)"
  by (induction xs arbitrary: m) (auto intro: ok_put)

end

interpretation gomap: go_map dict_get dict_set dict_del dict_ok
  by unfold_locales
    (simp_all add: dict_get_def dict_set_def dict_del_def dict_ok_def
      AList.update_conv AList.delete_conv AList.distinct_update AList.distinct_delete)

lemmas dict_laws [simp] = gomap.get_put gomap.get_del gomap.ok_put gomap.ok_del

lemma dict_get_Nil [simp]: "dict_get [] k = None"
  by (simp add: dict_get_def)

lemma dict_del_Nil [simp]: "dict_del [] k = []"
  by (simp add: dict_del_def)

lemma dict_ok_Nil [simp]: "dict_ok []"
  by (simp add: dict_ok_def)

lemma dict_get_in: "dict_get d k = Some v \<Longrightarrow> (k, v) \<in> set d"
  by (simp add: dict_get_def map_of_SomeD)

lemma dict_get_iff: "dict_ok d \<Longrightarrow> dict_get d k = Some v \<longleftrightarrow> (k, v) \<in> set d"
  by (simp add: dict_get_def dict_ok_def)

lemma dict_get_None_iff: "dict_get d k = None \<longleftrightarrow> k \<notin> fst ` set d"
  by (simp add: dict_get_def map_of_eq_None_iff)

lemma dict_get_drop [simp]: "dict_get (dict_drop P d) k = (if P k then None else dict_get d k)"
  by (induction d) (auto simp: dict_drop_def dict_get_def)

lemma dict_ok_drop [simp]: "dict_ok d \<Longrightarrow> dict_ok (dict_drop P d)"
  by (simp add: dict_ok_def dict_drop_def distinct_map_filter)

lemma dict_set_neq_Nil [simp]: "dict_set d k v \<noteq> []"
  by (simp add: dict_set_def)

lemma length_dict_set_new: "dict_get d k = None \<Longrightarrow> length (dict_set d k v) = Suc (length d)"
  by (induction d) (auto simp: dict_set_def dict_get_def split: if_splits)

lemma length_dict_set_old: "dict_get d k \<noteq> None \<Longrightarrow> length (dict_set d k v) = length d"
  by (induction d) (auto simp: dict_set_def dict_get_def split: if_splits)

lemma length_dict_del:
  "dict_ok d \<Longrightarrow> length (dict_del d k) = (if dict_get d k = None then length d else length d - 1)"
proof (induction d)
  case Nil
  then show ?case by (simp add: dict_del_def)
next
  case (Cons p d)
  show ?case
  proof (cases "fst p = k")
    case True
    with Cons.prems have "k \<notin> fst ` set d"
      by (auto simp: dict_ok_def)
    with True show ?thesis
      by (simp add: dict_del_def dict_get_def)
  next
    case False
    with Cons have "length (dict_del d k) = (if dict_get d k = None then length d else length d - 1)"
      by (simp add: dict_ok_def)
    moreover have "dict_get d k \<noteq> None \<Longrightarrow> 0 < length d"
      by (cases d) auto
    ultimately show ?thesis
      using False by (auto simp: dict_del_def dict_get_def)
  qed
qed

section \<open>Step relations\<close>

inductive reach :: "('s \<Rightarrow> bool) \<Rightarrow> ('s \<Rightarrow> 's \<Rightarrow> bool) \<Rightarrow> 's \<Rightarrow> bool"
  for init :: "'s \<Rightarrow> bool" and step :: "'s \<Rightarrow> 's \<Rightarrow> bool" where
  reach_init: "init s \<Longrightarrow> reach init step s"
| reach_step: "reach init step s \<Longrightarrow> step s t \<Longrightarrow> reach init step t"

text \<open>An inductive invariant of a step relation holds in every reachable state.\<close>

locale safety =
  fixes init :: "'s \<Rightarrow> bool" and step :: "'s \<Rightarrow> 's \<Rightarrow> bool" and inv :: "'s \<Rightarrow> bool"
  assumes init_inv: "init s \<Longrightarrow> inv s"
    and step_inv: "inv s \<Longrightarrow> step s t \<Longrightarrow> inv t"
begin

lemma reach_inv: "reach init step s \<Longrightarrow> inv s"
  by (induction rule: reach.induct) (auto intro: init_inv step_inv)

end

end
