(* ===== verification/Go_Unicode.thy ===== *)
theory Go_Unicode
  imports Prelude
begin

text \<open>
  Go's \<^verbatim>\<open>unicode/utf8\<close> decoding and \<^verbatim>\<open>strings.ToLower\<close>, on every byte string and not only on
  ASCII: bytes for ASCII strings, otherwise a UTF-8 decode, \<^verbatim>\<open>unicode.ToLower\<close> per rune and a
  re-encode, in which an invalid byte becomes U+FFFD. The main result is that lower-casing is
  idempotent, which the route table and the quarantine tracker rest on.
\<close>

section \<open>UTF-8\<close>

text \<open>
  \<^verbatim>\<open>utf8.DecodeRuneInString\<close> on the byte values of a non-empty string: the rune and its width;
  an invalid or truncated sequence is U+FFFD of width 1.
\<close>

definition RuneError :: nat where
  "RuneError = 0xFFFD"

fun cont :: "nat \<Rightarrow> bool" where
  "cont b = (0x80 \<le> b \<and> b \<le> 0xBF)"

definition rune2 :: "nat \<Rightarrow> nat \<Rightarrow> nat" where
  "rune2 b0 b1 = b0 mod 32 * 64 + b1 mod 64"

definition rune3 :: "nat \<Rightarrow> nat \<Rightarrow> nat \<Rightarrow> nat" where
  "rune3 b0 b1 b2 = b0 mod 16 * 4096 + b1 mod 64 * 64 + b2 mod 64"

definition rune4 :: "nat \<Rightarrow> nat \<Rightarrow> nat \<Rightarrow> nat \<Rightarrow> nat" where
  "rune4 b0 b1 b2 b3 = b0 mod 8 * 262144 + b1 mod 64 * 4096 + b2 mod 64 * 64 + b3 mod 64"

fun DecodeRune :: "nat list \<Rightarrow> nat \<times> nat" where
  "DecodeRune [] = (RuneError, 0)"
| "DecodeRune (b0 # bs) =
     (if b0 < 0x80 then (b0, 1)
      else if 0xC2 \<le> b0 \<and> b0 \<le> 0xDF then
        (case bs of
           b1 # _ \<Rightarrow> if cont b1 then (rune2 b0 b1, 2) else (RuneError, 1)
         | _ \<Rightarrow> (RuneError, 1))
      else if 0xE0 \<le> b0 \<and> b0 \<le> 0xEF then
        (case bs of
           b1 # b2 # _ \<Rightarrow>
             if (if b0 = 0xE0 then 0xA0 else 0x80) \<le> b1 \<and> b1 \<le> (if b0 = 0xED then 0x9F else 0xBF)
                \<and> cont b2
             then (rune3 b0 b1 b2, 3) else (RuneError, 1)
         | _ \<Rightarrow> (RuneError, 1))
      else if 0xF0 \<le> b0 \<and> b0 \<le> 0xF4 then
        (case bs of
           b1 # b2 # b3 # _ \<Rightarrow>
             if (if b0 = 0xF0 then 0x90 else 0x80) \<le> b1 \<and> b1 \<le> (if b0 = 0xF4 then 0x8F else 0xBF)
                \<and> cont b2 \<and> cont b3
             then (rune4 b0 b1 b2 b3, 4) else (RuneError, 1)
         | _ \<Rightarrow> (RuneError, 1))
      else (RuneError, 1))"

declare DecodeRune.simps(2) [simp del]

lemma DecodeRune_width: "(r, w) = DecodeRune bs \<Longrightarrow> bs \<noteq> [] \<Longrightarrow> 0 < w"
  by (cases bs) (auto simp: DecodeRune.simps split: list.splits if_splits)

function runes :: "nat list \<Rightarrow> nat list" where
  "runes bs =
     (if bs = [] then [] else (case DecodeRune bs of (r, w) \<Rightarrow> r # runes (drop w bs)))"
  by pat_completeness auto
termination
  by (relation "measure length") (auto dest: DecodeRune_width)

declare runes.simps [simp del]

definition EncodeRune :: "nat \<Rightarrow> nat list" where
  "EncodeRune r =
     (if r < 0x80 then [r]
      else if r < 0x800 then [0xC0 + r div 64, 0x80 + r mod 64]
      else if r < 0x10000 then [0xE0 + r div 4096, 0x80 + r div 64 mod 64, 0x80 + r mod 64]
      else [0xF0 + r div 262144, 0x80 + r div 4096 mod 64, 0x80 + r div 64 mod 64, 0x80 + r mod 64])"

definition valid_rune :: "nat \<Rightarrow> bool" where
  "valid_rune r = (r < 0xD800 \<or> (0xDFFF < r \<and> r < 0x110000))"

lemma mod_offset: "k * m \<le> b \<Longrightarrow> b < k * m + m \<Longrightarrow> b mod m = b - k * (m :: nat)"
proof -
  assume "k * m \<le> b" and "b < k * m + m"
  then obtain c where "b = c + m * k" and "c < m"
    by (metis add_less_cancel_left le_Suc_ex add.commute mult.commute)
  then show ?thesis by simp
qed

lemma cont_byte [simp]: "(128 + n mod 64) mod 64 = n mod (64 :: nat)" "n mod (64 :: nat) \<le> 63"
proof -
  have "n mod 64 < 64" by simp
  then show "(128 + n mod 64) mod 64 = n mod (64 :: nat)" "n mod (64 :: nat) \<le> 63"
    using mod_offset [of 2 64 "128 + n mod 64"] by linarith+
qed

lemma split64: "n div (64 * k) * (64 * k) + n div k mod 64 * k + n mod k = (n :: nat)"
proof -
  have "n div (64 * k) = n div k div 64" by (simp add: div_mult2_eq mult.commute)
  then have "n div (64 * k) * (64 * k) + n div k mod 64 * k = (n div k div 64 * 64 + n div k mod 64) * k"
    by (simp only: distrib_right mult.assoc)
  also have "\<dots> = n div k * k" by (simp only: div_mult_mod_eq)
  finally show ?thesis by simp
qed

lemma DecodeRune_EncodeRune:
  assumes "valid_rune r"
  shows "DecodeRune (EncodeRune r @ rest) = (r, length (EncodeRune r))"
proof -
  consider "r < 0x80" | "0x80 \<le> r" "r < 0x800" | "0x800 \<le> r" "r < 0x10000" | "0x10000 \<le> r"
    by linarith
  then show ?thesis
  proof cases
    case 1
    then show ?thesis by (simp add: EncodeRune_def DecodeRune.simps)
  next
    case 2
    then have d: "2 \<le> r div 64" "r div 64 < 32" by auto
    then have "(192 + r div 64) mod 32 = r div 64"
      using mod_offset [of 6 32 "192 + r div 64"] by simp
    with 2 d show ?thesis by (simp add: EncodeRune_def DecodeRune.simps rune2_def)
  next
    case 3
    then have d: "r div 4096 < 16" by auto
    have lo: "r div 4096 = 0 \<Longrightarrow> 32 \<le> r div 64 mod 64" using 3 by auto
    have hi: "r div 4096 = 13 \<Longrightarrow> r div 64 mod 64 < 32"
    proof -
      assume q: "r div 4096 = 13"
      then have "r < 0xD800" using assms by (auto simp: valid_rune_def)
      then have "r div 64 < 864" by auto
      moreover have "r div 64 div 64 = 13" using q by (simp add: div_mult2_eq [symmetric])
      ultimately show ?thesis using mult_div_mod_eq [of 64 "r div 64"] by linarith
    qed
    have eq: "r div 4096 * 4096 + r div 64 mod 64 * 64 + r mod 64 = r"
      using split64 [of r 64] by simp
    have "(224 + r div 4096) mod 16 = r div 4096"
      using d mod_offset [of 14 16 "224 + r div 4096"] by simp
    with 3 d lo hi eq show ?thesis
      by (auto simp add: EncodeRune_def DecodeRune.simps rune3_def)
  next
    case 4
    with assms have r: "r < 0x110000" by (simp add: valid_rune_def)
    then have d: "r div 262144 < 5" by auto
    have lo: "r div 262144 = 0 \<Longrightarrow> 16 \<le> r div 4096 mod 64" using 4 by auto
    have hi: "r div 262144 = 4 \<Longrightarrow> r div 4096 mod 64 < 16"
    proof -
      assume q: "r div 262144 = 4"
      have "r div 4096 < 272" using r by auto
      moreover have "r div 4096 div 64 = 4" using q by (simp add: div_mult2_eq [symmetric])
      ultimately show ?thesis using mult_div_mod_eq [of 64 "r div 4096"] by linarith
    qed
    have eq: "r div 262144 * 262144 + r div 4096 mod 64 * 4096 + r div 64 mod 64 * 64 + r mod 64 = r"
    proof -
      have "r div 4096 * 4096 + r div 64 mod 64 * 64 + r mod 64 = r"
        using split64 [of r 64] by simp
      moreover have "r div 262144 * 262144 + r div 4096 mod 64 * 4096 + r mod 4096 = r"
        using split64 [of r 4096] by simp
      moreover have "r div 4096 * 4096 + r mod 4096 = r" by (rule div_mult_mod_eq)
      ultimately show ?thesis by linarith
    qed
    have "(240 + r div 262144) mod 8 = r div 262144"
      using d mod_offset [of 30 8 "240 + r div 262144"] by simp
    with 4 d lo hi eq show ?thesis
      by (auto simp add: EncodeRune_def DecodeRune.simps rune4_def)
  qed
qed

lemma EncodeRune_neq_Nil [simp]: "EncodeRune r \<noteq> []"
  by (simp add: EncodeRune_def)

lemma runes_EncodeRune:
  "list_all valid_rune rs \<Longrightarrow> runes (concat (map EncodeRune rs)) = rs"
proof (induction rs)
  case Nil
  then show ?case by (simp add: runes.simps)
next
  case (Cons r rs)
  then show ?case
    by (simp add: runes.simps [of "EncodeRune r @ concat (map EncodeRune rs)"] DecodeRune_EncodeRune)
qed

lemma valid_rune2: "valid_rune (rune2 b0 b1)"
proof -
  have "b0 mod 32 < 32" "b1 mod 64 < 64" by simp_all
  then have "rune2 b0 b1 < 0xD800" unfolding rune2_def by linarith
  then show ?thesis by (simp add: valid_rune_def)
qed

lemma valid_rune3:
  assumes "0xE0 \<le> b0" "b0 \<le> 0xEF" "b0 = 0xED \<Longrightarrow> 0x80 \<le> b1 \<and> b1 \<le> 0x9F"
  shows "valid_rune (rune3 b0 b1 b2)"
proof -
  have m: "b0 mod 16 < 16" "b1 mod 64 < 64" "b2 mod 64 < 64" by simp_all
  consider "b0 mod 16 < 13" | "b0 mod 16 = 13" | "14 \<le> b0 mod 16" by linarith
  then show ?thesis
  proof cases
    case 1
    with m have "rune3 b0 b1 b2 < 0xD800" unfolding rune3_def by linarith
    then show ?thesis by (simp add: valid_rune_def)
  next
    case 2
    with assms(1,2) have "b0 = 0xED" using mod_offset [of 14 16 b0] by simp
    with assms(3) have "b1 mod 64 < 32" using mod_offset [of 2 64 b1] by auto
    with 2 m have "rune3 b0 b1 b2 < 0xD800" unfolding rune3_def by linarith
    then show ?thesis by (simp add: valid_rune_def)
  next
    case 3
    with m have "0xDFFF < rune3 b0 b1 b2" "rune3 b0 b1 b2 < 0x110000"
      unfolding rune3_def by linarith+
    then show ?thesis by (simp add: valid_rune_def)
  qed
qed

lemma valid_rune4:
  assumes "0xF0 \<le> b0" "b0 \<le> 0xF4" "b0 = 0xF0 \<Longrightarrow> 0x90 \<le> b1 \<and> b1 \<le> 0xBF"
    "b0 = 0xF4 \<Longrightarrow> 0x80 \<le> b1 \<and> b1 \<le> 0x8F"
  shows "valid_rune (rune4 b0 b1 b2 b3)"
proof -
  have m: "b1 mod 64 < 64" "b2 mod 64 < 64" "b3 mod 64 < 64" by simp_all
  have b0: "b0 mod 8 = b0 - 0xF0" using assms(1,2) mod_offset [of 30 8 b0] by simp
  consider "b0 = 0xF0" | "b0 = 0xF4" | "0xF0 < b0" "b0 < 0xF4" using assms by linarith
  then have "0xDFFF < rune4 b0 b1 b2 b3 \<and> rune4 b0 b1 b2 b3 < 0x110000"
  proof cases
    case 1
    with assms(3) have "16 \<le> b1 mod 64" using mod_offset [of 2 64 b1] by auto
    with 1 m b0 show ?thesis unfolding rune4_def by auto
  next
    case 2
    with assms(4) have "b1 mod 64 < 16" using mod_offset [of 2 64 b1] by auto
    with 2 m b0 show ?thesis unfolding rune4_def by auto
  next
    case 3
    then have "1 \<le> b0 mod 8" "b0 mod 8 < 4" using b0 by linarith+
    with m show ?thesis unfolding rune4_def by auto
  qed
  then show ?thesis by (simp add: valid_rune_def)
qed

lemma valid_DecodeRune: "(r, w) = DecodeRune bs \<Longrightarrow> valid_rune r"
proof (cases bs)
  case Nil
  assume "(r, w) = DecodeRune bs"
  with Nil show ?thesis by (simp add: RuneError_def valid_rune_def)
next
  case (Cons b0 cs)
  assume d: "(r, w) = DecodeRune bs"
  have e: "valid_rune RuneError" by (simp add: RuneError_def valid_rune_def)
  have z: "b0 < 0x80 \<Longrightarrow> valid_rune b0" by (simp add: valid_rune_def)
  from d e z show ?thesis unfolding Cons DecodeRune.simps cont.simps
    by (auto split: list.splits if_split_asm intro!: valid_rune2 valid_rune3 valid_rune4)
qed

lemma valid_runes: "list_all valid_rune (runes bs)"
proof (induction bs rule: runes.induct)
  case (1 bs)
  show ?case
  proof (cases "bs = []")
    case False
    obtain r w where rw: "(r, w) = DecodeRune bs" by (metis surj_pair)
    with 1 [OF False rw] valid_DecodeRune [OF rw] False show ?thesis
      by (simp add: runes.simps [of bs] flip: rw)
  qed (simp add: runes.simps)
qed

lemma runes_ascii: "list_all (\<lambda>b. b < 0x80) bs \<Longrightarrow> runes bs = bs"
proof (induction bs)
  case Nil
  then show ?case by (simp add: runes.simps)
next
  case (Cons b bs)
  then show ?case by (simp add: runes.simps [of "b # bs"] DecodeRune.simps)
qed

lemma EncodeRune_byte: "valid_rune r \<Longrightarrow> b \<in> set (EncodeRune r) \<Longrightarrow> b < 256"
  by (auto simp: EncodeRune_def valid_rune_def split: if_splits)

section \<open>Lower case\<close>

text \<open>
  \<^verbatim>\<open>unicode.ToLower\<close>: ASCII letters by offset, other runes by the simple lower-case mapping of
  the Unicode character database, as ranges \<open>(first, last, stride, offset)\<close>.
\<close>

definition CaseRanges :: "(int \<times> int \<times> int \<times> int) list" where
  "CaseRanges = [
    (192, 214, 1, 32), (216, 222, 1, 32), (256, 302, 2, 1), (304, 304, 1, -199),
    (306, 310, 2, 1), (313, 327, 2, 1), (330, 374, 2, 1), (376, 376, 1, -121),
    (377, 381, 2, 1), (385, 385, 1, 210), (386, 388, 2, 1), (390, 390, 1, 206),
    (391, 391, 1, 1), (393, 394, 1, 205), (395, 395, 1, 1), (398, 398, 1, 79),
    (399, 399, 1, 202), (400, 400, 1, 203), (401, 401, 1, 1), (403, 403, 1, 205),
    (404, 404, 1, 207), (406, 406, 1, 211), (407, 407, 1, 209), (408, 408, 1, 1),
    (412, 412, 1, 211), (413, 413, 1, 213), (415, 415, 1, 214), (416, 420, 2, 1),
    (422, 422, 1, 218), (423, 423, 1, 1), (425, 425, 1, 218), (428, 428, 1, 1),
    (430, 430, 1, 218), (431, 431, 1, 1), (433, 434, 1, 217), (435, 437, 2, 1),
    (439, 439, 1, 219), (440, 440, 1, 1), (444, 444, 1, 1), (452, 452, 1, 2), (453, 453, 1, 1),
    (455, 455, 1, 2), (456, 456, 1, 1), (458, 458, 1, 2), (459, 475, 2, 1), (478, 494, 2, 1),
    (497, 497, 1, 2), (498, 500, 2, 1), (502, 502, 1, -97), (503, 503, 1, -56),
    (504, 542, 2, 1), (544, 544, 1, -130), (546, 562, 2, 1), (570, 570, 1, 10795),
    (571, 571, 1, 1), (573, 573, 1, -163), (574, 574, 1, 10792), (577, 577, 1, 1),
    (579, 579, 1, -195), (580, 580, 1, 69), (581, 581, 1, 71), (582, 590, 2, 1),
    (880, 882, 2, 1), (886, 886, 1, 1), (895, 895, 1, 116), (902, 902, 1, 38),
    (904, 906, 1, 37), (908, 908, 1, 64), (910, 911, 1, 63), (913, 929, 1, 32),
    (931, 939, 1, 32), (975, 975, 1, 8), (984, 1006, 2, 1), (1012, 1012, 1, -60),
    (1015, 1015, 1, 1), (1017, 1017, 1, -7), (1018, 1018, 1, 1), (1021, 1023, 1, -130),
    (1024, 1039, 1, 80), (1040, 1071, 1, 32), (1120, 1152, 2, 1), (1162, 1214, 2, 1),
    (1216, 1216, 1, 15), (1217, 1229, 2, 1), (1232, 1326, 2, 1), (1329, 1366, 1, 48),
    (4256, 4293, 1, 7264), (4295, 4295, 1, 7264), (4301, 4301, 1, 7264),
    (5024, 5103, 1, 38864), (5104, 5109, 1, 8), (7312, 7354, 1, -3008), (7357, 7359, 1, -3008),
    (7680, 7828, 2, 1), (7838, 7838, 1, -7615), (7840, 7934, 2, 1), (7944, 7951, 1, -8),
    (7960, 7965, 1, -8), (7976, 7983, 1, -8), (7992, 7999, 1, -8), (8008, 8013, 1, -8),
    (8025, 8031, 2, -8), (8040, 8047, 1, -8), (8072, 8079, 1, -8), (8088, 8095, 1, -8),
    (8104, 8111, 1, -8), (8120, 8121, 1, -8), (8122, 8123, 1, -74), (8124, 8124, 1, -9),
    (8136, 8139, 1, -86), (8140, 8140, 1, -9), (8152, 8153, 1, -8), (8154, 8155, 1, -100),
    (8168, 8169, 1, -8), (8170, 8171, 1, -112), (8172, 8172, 1, -7), (8184, 8185, 1, -128),
    (8186, 8187, 1, -126), (8188, 8188, 1, -9), (8486, 8486, 1, -7517), (8490, 8490, 1, -8383),
    (8491, 8491, 1, -8262), (8498, 8498, 1, 28), (8544, 8559, 1, 16), (8579, 8579, 1, 1),
    (9398, 9423, 1, 26), (11264, 11311, 1, 48), (11360, 11360, 1, 1),
    (11362, 11362, 1, -10743), (11363, 11363, 1, -3814), (11364, 11364, 1, -10727),
    (11367, 11371, 2, 1), (11373, 11373, 1, -10780), (11374, 11374, 1, -10749),
    (11375, 11375, 1, -10783), (11376, 11376, 1, -10782), (11378, 11378, 1, 1),
    (11381, 11381, 1, 1), (11390, 11391, 1, -10815), (11392, 11490, 2, 1),
    (11499, 11501, 2, 1), (11506, 11506, 1, 1), (42560, 42604, 2, 1), (42624, 42650, 2, 1),
    (42786, 42798, 2, 1), (42802, 42862, 2, 1), (42873, 42875, 2, 1),
    (42877, 42877, 1, -35332), (42878, 42886, 2, 1), (42891, 42891, 1, 1),
    (42893, 42893, 1, -42280), (42896, 42898, 2, 1), (42902, 42920, 2, 1),
    (42922, 42922, 1, -42308), (42923, 42923, 1, -42319), (42924, 42924, 1, -42315),
    (42925, 42925, 1, -42305), (42926, 42926, 1, -42308), (42928, 42928, 1, -42258),
    (42929, 42929, 1, -42282), (42930, 42930, 1, -42261), (42931, 42931, 1, 928),
    (42932, 42946, 2, 1), (42948, 42948, 1, -48), (42949, 42949, 1, -42307),
    (42950, 42950, 1, -35384), (42951, 42953, 2, 1), (42960, 42960, 1, 1),
    (42966, 42968, 2, 1), (42997, 42997, 1, 1), (65313, 65338, 1, 32), (66560, 66599, 1, 40),
    (66736, 66771, 1, 40), (66928, 66938, 1, 39), (66940, 66954, 1, 39), (66956, 66962, 1, 39),
    (66964, 66965, 1, 39), (68736, 68786, 1, 64), (71840, 71871, 1, 32), (93760, 93791, 1, 32),
    (125184, 125217, 1, 34)]"

definition case_range :: "int \<Rightarrow> (int \<times> int \<times> int \<times> int) option" where
  "case_range r = find (\<lambda>(lo, hi, st, d). lo \<le> r \<and> r \<le> hi \<and> (r - lo) mod st = 0) CaseRanges"

definition lower_rune :: "nat \<Rightarrow> nat" where
  "lower_rune r =
     (if r < 0x80 then (if 65 \<le> r \<and> r \<le> 90 then r + 32 else r)
      else (case case_range (int r) of None \<Rightarrow> r | Some (_, _, _, d) \<Rightarrow> nat (int r + d)))"

text \<open>
  No rune produced by the mapping is mapped again: every target range is apart from every
  source range. The check sweeps the targets, sorted, over the (already sorted) sources, so
  that the kernel evaluates a few hundred comparisons and not all pairs.
\<close>

fun target_lo :: "int \<times> int \<times> int \<times> int \<Rightarrow> int" where
  "target_lo (lo, hi, st, d) = lo + d"

fun target_hi :: "int \<times> int \<times> int \<times> int \<Rightarrow> int" where
  "target_hi (lo, hi, st, d) = hi + d"

fun parity_apart :: "int \<times> int \<times> int \<times> int \<Rightarrow> int \<times> int \<times> int \<times> int \<Rightarrow> bool" where
  "parity_apart (lo, hi, st, d) (lo', hi', st', d') =
     ((lo = hi \<or> st = 2) \<and> st' = 2 \<and> (lo + d - lo') mod 2 = 1)"

definition ranges_apart :: "int \<times> int \<times> int \<times> int \<Rightarrow> int \<times> int \<times> int \<times> int \<Rightarrow> bool" where
  "ranges_apart e f \<longleftrightarrow> target_hi e < fst f \<or> fst (snd f) < target_lo e \<or> parity_apart e f"

fun sweep :: "(int \<times> int \<times> int \<times> int) list \<Rightarrow> (int \<times> int \<times> int \<times> int) list \<Rightarrow> bool" where
  "sweep [] fs = True"
| "sweep (t # ts) fs =
     (let fs' = dropWhile (\<lambda>f. fst (snd f) < target_lo t) fs
      in list_all (parity_apart t) (takeWhile (\<lambda>f. fst f \<le> target_hi t) fs') \<and> sweep ts fs')"

lemma takeWhile_sorted_notin:
  "sorted (map f xs) \<Longrightarrow> x \<in> set xs \<Longrightarrow> x \<notin> set (takeWhile (\<lambda>y. f y \<le> b) xs) \<Longrightarrow> b < f x"
  by (induction xs) (auto split: if_splits)

lemma sorted_map_dropWhile: "sorted (map f xs) \<Longrightarrow> sorted (map f (dropWhile P xs))"
  by (induction xs) auto

lemma sweep_apart:
  assumes "sweep ts fs" "sorted (map target_lo ts)" "sorted (map fst fs)"
    "t \<in> set ts" "f \<in> set fs"
  shows "ranges_apart t f"
  using assms
proof (induction ts fs rule: sweep.induct)
  case (2 u ts fs)
  define fs' where "fs' = dropWhile (\<lambda>f. fst (snd f) < target_lo u) fs"
  have srt: "sorted (map fst fs')"
    unfolding fs'_def using "2.prems"(3) by (rule sorted_map_dropWhile)
  show ?case
  proof (cases "f \<in> set fs'")
    case False
    with "2.prems"(5) have "fst (snd f) < target_lo u"
      unfolding fs'_def by (metis (mono_tags, lifting) UnE set_append set_takeWhileD takeWhile_dropWhile_id)
    moreover have "target_lo u \<le> target_lo t"
      using "2.prems"(2,4) by auto
    ultimately show ?thesis by (simp add: ranges_apart_def)
  next
    case True
    show ?thesis
    proof (cases "t = u")
      case True
      have "f \<notin> set (takeWhile (\<lambda>f. fst f \<le> target_hi u) fs') \<Longrightarrow> target_hi u < fst f"
        using takeWhile_sorted_notin [OF srt \<open>f \<in> set fs'\<close>] by blast
      with "2.prems"(1) True show ?thesis
        by (auto simp: ranges_apart_def list_all_iff fs'_def [symmetric] Let_def)
    next
      case False
      with "2.prems" True srt "2.IH" [OF fs'_def] show ?thesis
        by (auto simp: fs'_def [symmetric] Let_def)
    qed
  qed
qed simp

lemma case_ranges_sweep: "sweep (sort_key target_lo CaseRanges) CaseRanges"
  by code_simp

lemma case_ranges_sorted: "sorted (map fst CaseRanges)"
  by code_simp

lemma case_ranges_bounds:
  "list_all (\<lambda>(lo, hi, st, d). 128 \<le> lo \<and> lo \<le> hi \<and> 0 < st \<and> 0 \<le> lo + d \<and> hi + d < 0x20000
      \<and> (hi + d < 0xD800 \<or> 0xDFFF < lo + d)
      \<and> (hi + d < 65 \<or> 90 < lo + d)) CaseRanges"
  by (simp add: CaseRanges_def)

lemma find_SomeD: "find P xs = Some x \<Longrightarrow> x \<in> set xs \<and> P x"
  by (auto simp: find_Some_iff)

lemma case_range_Some:
  assumes "case_range r = Some (lo, hi, st, d)"
  shows "(lo, hi, st, d) \<in> set CaseRanges" "lo \<le> r" "r \<le> hi" "(r - lo) mod st = 0"
  using find_SomeD [OF assms [unfolded case_range_def]] by auto

lemma parity_apart_neq:
  assumes "lo \<le> r" "r \<le> hi" "(r - lo) mod st = 0" and "(r + d - lo') mod st' = 0"
  shows "\<not> parity_apart (lo, hi, st, d) (lo', hi', st', d')"
proof
  assume p: "parity_apart (lo, hi, st, d) (lo', hi', st', d')"
  then have "(lo + d - lo') mod 2 = 1" by simp
  then have odd: "odd (lo + d - lo')" by (simp only: odd_iff_mod_2_eq_one)
  from p assms have "even (r - lo)" "even (r + d - lo')" by auto
  then have "even ((r + d - lo') - (r - lo))" by (rule dvd_diff [rotated])
  moreover have "(r + d - lo') - (r - lo) = lo + d - lo'" by simp
  ultimately have "even (lo + d - lo')" by (simp only:)
  with odd show False by blast
qed

lemma case_range_target:
  assumes "case_range r = Some (lo, hi, st, d)"
  shows "case_range (r + d) = None"
proof (rule ccontr)
  note e = case_range_Some [OF assms]
  assume "case_range (r + d) \<noteq> None"
  then obtain lo' hi' st' d' where f: "case_range (r + d) = Some (lo', hi', st', d')"
    by (metis not_None_eq surj_pair)
  note f = case_range_Some [OF f]
  have "ranges_apart (lo, hi, st, d) (lo', hi', st', d')"
    by (rule sweep_apart [OF case_ranges_sweep _ case_ranges_sorted])
      (use e(1) f(1) in simp_all)
  with e f parity_apart_neq [OF e(2-4) f(4)] show False
    by (auto simp: ranges_apart_def)
qed

lemma case_range_rune:
  assumes "case_range r = Some (lo, hi, st, d)"
  shows "128 \<le> r" "0 \<le> r + d" "r + d < 0x20000" "r + d < 0xD800 \<or> 0xDFFF < r + d"
    "r + d < 65 \<or> 90 < r + d"
  using case_range_Some [OF assms] case_ranges_bounds
  by (force simp: list_all_iff)+

lemma lower_rune_idem: "lower_rune (lower_rune r) = lower_rune r"
proof (cases "128 \<le> r \<and> case_range (int r) \<noteq> None")
  case True
  then obtain lo hi st d where c: "case_range (int r) = Some (lo, hi, st, d)"
    by (metis not_None_eq surj_pair)
  have t: "lower_rune r = nat (int r + d)"
    using True c by (simp add: lower_rune_def)
  show ?thesis
    unfolding t using case_range_target [OF c] case_range_rune [OF c]
    by (auto simp: lower_rune_def)
next
  case False
  then have l: "lower_rune r = (if r < 128 \<and> 65 \<le> r \<and> r \<le> 90 then r + 32 else r)"
    by (auto simp: lower_rune_def split: option.split)
  with False show ?thesis
    by (cases "65 \<le> r \<and> r \<le> 90") (auto simp: lower_rune_def)
qed

lemma lower_rune_valid: "valid_rune r \<Longrightarrow> valid_rune (lower_rune r)"
  by (auto simp: lower_rune_def valid_rune_def split: option.split dest: case_range_rune)

text \<open>\<^verbatim>\<open>strings.ToLower\<close>.\<close>

definition is_ascii :: "string \<Rightarrow> bool" where
  "is_ascii s = list_all (\<lambda>c. of_char c < (0x80 :: nat)) s"

definition lower_char :: "char \<Rightarrow> char" where
  "lower_char c =
     (let n = of_char c :: nat in if 65 \<le> n \<and> n \<le> 90 then char_of (n + 32) else c)"

definition ToLower_utf8 :: "string \<Rightarrow> string" where
  "ToLower_utf8 s = map char_of (concat (map (\<lambda>r. EncodeRune (lower_rune r)) (runes (map of_char s))))"

definition ToLower :: "string \<Rightarrow> string" where
  "ToLower s = (if is_ascii s then map lower_char s else ToLower_utf8 s)"

lemma runes_is_ascii: "is_ascii s \<Longrightarrow> runes (map of_char s) = map of_char s"
  by (rule runes_ascii) (auto simp: is_ascii_def list_all_iff)

lemma lower_char_rune:
  "of_char c < (0x80 :: nat) \<Longrightarrow> EncodeRune (lower_rune (of_char c)) = [of_char (lower_char c)]"
  by (simp add: lower_rune_def lower_char_def EncodeRune_def Let_def)

lemma ToLower_eq_utf8: "ToLower s = ToLower_utf8 s"
proof (cases "is_ascii s")
  case True
  then have "map (\<lambda>r. EncodeRune (lower_rune r)) (map of_char s) = map (\<lambda>c. [of_char (lower_char c) :: nat]) s"
    by (auto simp: is_ascii_def list_all_iff lower_char_rune)
  then have "ToLower_utf8 s = map char_of (concat (map (\<lambda>c. [of_char (lower_char c) :: nat]) s))"
    by (simp only: ToLower_utf8_def runes_is_ascii [OF True])
  also have "\<dots> = map lower_char s" by (induction s) simp_all
  finally show ?thesis using True by (simp add: ToLower_def)
qed (simp add: ToLower_def)

theorem ToLower_idem [simp]: "ToLower (ToLower s) = ToLower s"
proof -
  let ?rs = "runes (map of_char s)"
  have v: "list_all valid_rune (map lower_rune ?rs)"
    using valid_runes [of "map of_char s"] by (auto simp: list_all_iff lower_rune_valid)
  then have b: "\<forall>n \<in> set (concat (map EncodeRune (map lower_rune ?rs))). n < 256"
    by (auto simp: list_all_iff dest: EncodeRune_byte)
  have "map of_char (ToLower s) = concat (map EncodeRune (map lower_rune ?rs))"
    unfolding ToLower_eq_utf8 ToLower_utf8_def map_map comp_def
    by (rule map_idI) (use b in \<open>auto simp: comp_def\<close>)
  then have "runes (map of_char (ToLower s)) = map lower_rune ?rs"
    by (simp only: runes_EncodeRune [OF v])
  then have "ToLower_utf8 (ToLower s) = ToLower_utf8 s"
    by (simp add: ToLower_utf8_def comp_def lower_rune_idem)
  then show ?thesis by (simp only: ToLower_eq_utf8)
qed

end
