(* ===== verification/Sni.thy ===== *)
theory Sni
  imports Go_Strings
begin

text \<open>
  Package \<^verbatim>\<open>internal/sni\<close>: extraction of the server name and of the ALPN list from a raw TLS
  ClientHello. Every index and slice expression of the source is checked, so a value
  \<^term>\<open>None\<close> of a parser is a run-time panic; the theorems show that there is none, that the
  parser recovers what a well-formed ClientHello encodes, and that its result does not depend
  on how many bytes follow the record.
\<close>

section \<open>The parser\<close>

datatype sni_error = ErrNotTLS | ErrNotClientHello | ErrNoSNI | ErrTruncated | ErrEmptySNI

text \<open>The loop of \<open>parseALPNExtension\<close>: position, end, names so far.\<close>

function alpn_loop :: "bytes \<Rightarrow> nat \<Rightarrow> nat \<Rightarrow> string list \<Rightarrow> string list option" where
  "alpn_loop data pos end out =
     (if pos < end then
        (if pos + 1 > end then Some out
         else do {
           b \<leftarrow> idx data pos;
           let nLen = unat b;
           let p = pos + 1;
           if p + nLen > end then Some out
           else do {
             s \<leftarrow> slice data p (p + nLen);
             alpn_loop data (p + nLen) end (out @ [string_of_bytes s])
           }
         })
      else Some out)"
  by pat_completeness auto
termination
  by (relation "measure (\<lambda>(data, pos, end, out). end - pos)") auto

declare alpn_loop.simps [simp del]

definition parseALPNExtension :: "bytes \<Rightarrow> string list option" where
  "parseALPNExtension data =
     (if length data < 2 then Some []
      else do {
        b0 \<leftarrow> idx data 0;
        b1 \<leftarrow> idx data 1;
        let listLen = u16 b0 b1;
        if 2 + listLen > length data then Some []
        else alpn_loop data 2 (2 + listLen) []
      })"

definition HasALPN :: "string list \<Rightarrow> string \<Rightarrow> bool" where
  "HasALPN alpns proto = list_ex (\<lambda>p. p = proto) alpns"

text \<open>The loop of \<open>parseSNIExtension\<close>: the first entry of type host\_name decides.\<close>

function sni_loop :: "bytes \<Rightarrow> nat \<Rightarrow> nat \<Rightarrow> (sni_error + string) option" where
  "sni_loop data pos listEnd =
     (if pos + 3 \<le> listEnd then do {
        nameType \<leftarrow> idx data pos;
        l0 \<leftarrow> idx data (pos + 1);
        l1 \<leftarrow> idx data (pos + 2);
        let nameLen = u16 l0 l1;
        let p = pos + 3;
        if p + nameLen > listEnd then Some (Inl ErrTruncated)
        else if nameType = 0 then do {
          s \<leftarrow> slice data p (p + nameLen);
          Some (if s = [] then Inl ErrEmptySNI else Inr (string_of_bytes s))
        }
        else sni_loop data (p + nameLen) listEnd
      }
      else Some (Inl ErrNoSNI))"
  by pat_completeness auto
termination
  by (relation "measure (\<lambda>(data, pos, end). end - pos)") auto

declare sni_loop.simps [simp del]

definition parseSNIExtension :: "bytes \<Rightarrow> (sni_error + string) option" where
  "parseSNIExtension data =
     (if length data < 2 then Some (Inl ErrTruncated)
      else do {
        b0 \<leftarrow> idx data 0;
        b1 \<leftarrow> idx data 1;
        let listLen = u16 b0 b1;
        if length data < 2 + listLen then Some (Inl ErrTruncated)
        else sni_loop data 2 (2 + listLen)
      })"

text \<open>
  \<open>ParseClientHello\<close> returns the host name, the ALPN list and the error. The extension loop
  keeps the last valid server name and the last ALPN list.
\<close>

type_synonym hello_result = "string \<times> string list \<times> sni_error option"

function ext_loop :: "bytes \<Rightarrow> nat \<Rightarrow> nat \<Rightarrow> string \<Rightarrow> string list \<Rightarrow> hello_result option" where
  "ext_loop data pos end hostname alpns =
     (if pos + 4 \<le> end then do {
        t0 \<leftarrow> idx data pos;
        t1 \<leftarrow> idx data (pos + 1);
        let extType = u16 t0 t1;
        l0 \<leftarrow> idx data (pos + 2);
        l1 \<leftarrow> idx data (pos + 3);
        let extDataLen = u16 l0 l1;
        let p = pos + 4;
        if p + extDataLen > end then Some ([], [], Some ErrTruncated)
        else do {
          body \<leftarrow> slice data p (p + extDataLen);
          if extType = 0 then do {
            r \<leftarrow> parseSNIExtension body;
            ext_loop data (p + extDataLen) end
              (case r of Inl _ \<Rightarrow> hostname | Inr h \<Rightarrow> h) alpns
          }
          else if extType = 16 then do {
            a \<leftarrow> parseALPNExtension body;
            ext_loop data (p + extDataLen) end hostname a
          }
          else ext_loop data (p + extDataLen) end hostname alpns
        }
      }
      else if hostname = [] then Some ([], alpns, Some ErrNoSNI)
      else Some (hostname, alpns, None))"
  by pat_completeness auto
termination
  by (relation "measure (\<lambda>(data, pos, end, h, a). end - pos)") auto

declare ext_loop.simps [simp del]

definition hello_body :: "bytes \<Rightarrow> hello_result option" where
  "hello_body data =
     (let trunc = Some ([], [], Some ErrTruncated) in
      if length data < 34 then trunc
      else if 34 \<ge> length data then trunc
      else do {
        sidLen \<leftarrow> idx data 34;
        let pos = 34 + 1 + unat sidLen;
        if pos + 2 > length data then trunc
        else do {
          c0 \<leftarrow> idx data pos;
          c1 \<leftarrow> idx data (pos + 1);
          let pos = pos + 2 + u16 c0 c1;
          if pos \<ge> length data then trunc
          else do {
            cmLen \<leftarrow> idx data pos;
            let pos = pos + 1 + unat cmLen;
            if pos + 2 > length data then Some ([], [], Some ErrNoSNI)
            else do {
              e0 \<leftarrow> idx data pos;
              e1 \<leftarrow> idx data (pos + 1);
              let pos = pos + 2;
              let end = pos + u16 e0 e1;
              if end > length data then trunc
              else ext_loop data pos end [] []
            }
          }
        }
      })"

definition ParseClientHello :: "bytes \<Rightarrow> hello_result option" where
  "ParseClientHello buf =
     (let trunc = Some ([], [], Some ErrTruncated) in
      if length buf < 5 then trunc
      else do {
        b0 \<leftarrow> idx buf 0;
        if b0 \<noteq> 0x16 then Some ([], [], Some ErrNotTLS)
        else do {
          b3 \<leftarrow> idx buf 3;
          b4 \<leftarrow> idx buf 4;
          let recordLen = u16 b3 b4;
          if length buf < 5 + recordLen then trunc
          else do {
            data \<leftarrow> slice buf 5 (5 + recordLen);
            if length data < 4 then trunc
            else do {
              d0 \<leftarrow> idx data 0;
              if d0 \<noteq> 0x01 then Some ([], [], Some ErrNotClientHello)
              else do {
                d1 \<leftarrow> idx data 1;
                d2 \<leftarrow> idx data 2;
                d3 \<leftarrow> idx data 3;
                let hsLen = u24 d1 d2 d3;
                if length data < 4 + hsLen then trunc
                else do {
                  body \<leftarrow> slice data 4 (4 + hsLen);
                  hello_body body
                }
              }
            }
          }
        }
      })"

definition Parse :: "bytes \<Rightarrow> (string \<times> sni_error option) option" where
  "Parse buf = do {
     (host, alpns, err) \<leftarrow> ParseClientHello buf;
     Some (host, err)
   }"

section \<open>No input panics\<close>

lemma alpn_loop_total: "end \<le> length data \<Longrightarrow> \<exists>r. alpn_loop data pos end out = Some r"
proof (induction data pos "end" out rule: alpn_loop.induct)
  case (1 data pos "end" out)
  show ?case
  proof (cases "pos < end")
    case True
    with 1 show ?thesis
      by (subst alpn_loop.simps) (auto simp: Let_def)
  next
    case False
    then show ?thesis by (subst alpn_loop.simps) simp
  qed
qed

lemma parseALPNExtension_total: "\<exists>r. parseALPNExtension data = Some r"
  using alpn_loop_total by (auto simp: parseALPNExtension_def Let_def)

lemma sni_loop_total: "listEnd \<le> length data \<Longrightarrow> \<exists>r. sni_loop data pos listEnd = Some r"
proof (induction data pos listEnd rule: sni_loop.induct)
  case (1 data pos listEnd)
  show ?case
  proof (cases "pos + 3 \<le> listEnd")
    case True
    with 1 show ?thesis
      by (subst sni_loop.simps) (auto simp: Let_def)
  next
    case False
    then show ?thesis by (subst sni_loop.simps) simp
  qed
qed

lemma parseSNIExtension_total: "\<exists>r. parseSNIExtension data = Some r"
  using sni_loop_total by (auto simp: parseSNIExtension_def Let_def)

lemma ext_loop_total: "end \<le> length data \<Longrightarrow> \<exists>r. ext_loop data pos end h a = Some r"
proof (induction data pos "end" h a rule: ext_loop.induct)
  case (1 data pos "end" h a)
  show ?case
  proof (cases "pos + 4 \<le> end")
    case True
    define t where "t = u16 (data ! pos) (data ! (pos + 1))"
    define l where "l = u16 (data ! (pos + 2)) (data ! (pos + 3))"
    obtain r where "parseSNIExtension (take l (drop (pos + 4) data)) = Some r"
      using parseSNIExtension_total by blast
    moreover obtain a' where "parseALPNExtension (take l (drop (pos + 4) data)) = Some a'"
      using parseALPNExtension_total by blast
    ultimately show ?thesis
      using True 1 by (subst ext_loop.simps) (auto simp: Let_def t_def l_def)
  next
    case False
    then show ?thesis by (subst ext_loop.simps) simp
  qed
qed

lemma hello_body_total: "\<exists>r. hello_body data = Some r"
  using ext_loop_total by (auto simp: hello_body_def Let_def)

lemma ParseClientHello_total: "\<exists>r. ParseClientHello buf = Some r"
  using hello_body_total by (auto simp: ParseClientHello_def Let_def)

section \<open>The wire format\<close>

text \<open>
  An independent description of the ClientHello (RFC 8446, RFC 6066, RFC 7301): a structure and
  its encoder, with length-prefixed vectors.
\<close>

definition vec8 :: "bytes \<Rightarrow> bytes" where
  "vec8 bs = word_of_nat (length bs) # bs"

definition vec16 :: "bytes \<Rightarrow> bytes" where
  "vec16 bs = be_bytes 2 (length bs) @ bs"

definition encode_ext :: "nat \<times> bytes \<Rightarrow> bytes" where
  "encode_ext e = be_bytes 2 (fst e) @ vec16 (snd e)"

record client_hello =
  ch_fixed :: bytes
  ch_session :: bytes
  ch_ciphers :: bytes
  ch_compress :: bytes
  ch_exts :: "(nat \<times> bytes) list"

definition encode_body :: "client_hello \<Rightarrow> bytes" where
  "encode_body h =
     ch_fixed h @ vec8 (ch_session h) @ vec16 (ch_ciphers h) @ vec8 (ch_compress h)
       @ vec16 (concat (map encode_ext (ch_exts h)))"

definition encode_handshake :: "client_hello \<Rightarrow> bytes" where
  "encode_handshake h = 1 # be_bytes 3 (length (encode_body h)) @ encode_body h"

definition encode_record :: "client_hello \<Rightarrow> bytes" where
  "encode_record h = [0x16, 0x03, 0x01] @ vec16 (encode_handshake h)"

definition wf_ext :: "nat \<times> bytes \<Rightarrow> bool" where
  "wf_ext e = (fst e < 65536 \<and> length (snd e) < 65536)"

definition wf_hello :: "client_hello \<Rightarrow> bool" where
  "wf_hello h =
     (length (ch_fixed h) = 34 \<and> length (ch_session h) < 256 \<and> length (ch_ciphers h) < 65536
      \<and> length (ch_compress h) < 256 \<and> list_all wf_ext (ch_exts h)
      \<and> length (concat (map encode_ext (ch_exts h))) < 65536
      \<and> length (encode_handshake h) < 65536)"

definition encode_sni :: "(byte \<times> bytes) list \<Rightarrow> bytes" where
  "encode_sni names = vec16 (concat (map (\<lambda>(t, n). t # vec16 n) names))"

definition encode_alpn :: "string list \<Rightarrow> bytes" where
  "encode_alpn protos = vec16 (concat (map (\<lambda>p. vec8 (bytes_of_string p)) protos))"

lemma be_bytes_2: "be_bytes 2 n = [word_of_nat (n div 256), word_of_nat n]"
  by (simp add: numeral_2_eq_2)

lemma be_bytes_3: "be_bytes 3 n = [word_of_nat (n div 256 div 256), word_of_nat (n div 256), word_of_nat n]"
  by (simp add: numeral_3_eq_3)

lemma u16_be: "n < 65536 \<Longrightarrow> u16 (word_of_nat (n div 256)) (word_of_nat n) = n"
  by (simp add: u16_eq unat_word_of_nat_byte)

lemma u24_be:
  assumes "n < 16777216"
  shows "u24 (word_of_nat (n div 256 div 256)) (word_of_nat (n div 256)) (word_of_nat n) = n"
proof -
  have "n div 256 div 256 mod 256 = n div 256 div 256"
    using assms by (simp add: div_mult2_eq [symmetric])
  moreover have "n div 256 div 256 * 256 + n div 256 mod 256 = n div 256"
    by (rule div_mult_mod_eq)
  moreover have "n div 256 * 256 + n mod 256 = n"
    by (rule div_mult_mod_eq)
  ultimately show ?thesis
    unfolding u24_eq unat_word_of_nat_byte by linarith
qed

lemma unat_vec8: "n < 256 \<Longrightarrow> unat (word_of_nat n :: byte) = n"
  by (simp add: unat_word_of_nat_byte)

section \<open>Parsing what was encoded\<close>

text \<open>
  One step of each loop on a buffer split at the current position; the length bytes are
  variables with their value, so that no step depends on how a length is written.
\<close>

lemma alpn_loop_step:
  assumes "unat w = length b"
    and "length pre + 1 + length b \<le> end"
  shows "alpn_loop (pre @ w # b @ rest) (length pre) end out =
     alpn_loop ((pre @ w # b) @ rest) (length (pre @ w # b)) end (out @ [string_of_bytes b])"
  using assms by (subst alpn_loop.simps) (simp add: Let_def)

lemma alpn_loop_encode:
  assumes "list_all (\<lambda>p. length p < 256) protos"
  shows "alpn_loop (pre @ concat (map (\<lambda>p. vec8 (bytes_of_string p)) protos)) (length pre)
     (length pre + length (concat (map (\<lambda>p. vec8 (bytes_of_string p)) protos))) out = Some (out @ protos)"
  using assms
proof (induction protos arbitrary: pre out)
  case Nil
  then show ?case by (subst alpn_loop.simps) simp
next
  case (Cons p ps)
  let ?w = "word_of_nat (length p) :: byte" and ?b = "bytes_of_string p"
  let ?r = "concat (map (\<lambda>p. vec8 (bytes_of_string p)) ps)"
  from Cons.prems have len: "unat ?w = length ?b"
    by (simp add: unat_vec8)
  have "alpn_loop (pre @ ?w # ?b @ ?r) (length pre) (length pre + (1 + length ?b + length ?r)) out =
     alpn_loop ((pre @ ?w # ?b) @ ?r) (length (pre @ ?w # ?b))
       (length pre + (1 + length ?b + length ?r)) (out @ [string_of_bytes ?b])"
    by (rule alpn_loop_step [OF len]) simp
  also have "\<dots> = Some (out @ p # ps)"
    using Cons.IH [of "pre @ ?w # ?b" "out @ [p]"] Cons.prems by (simp add: add.assoc)
  finally show ?case by (simp add: vec8_def)
qed

lemma parseALPN_vec16:
  "length c < 65536 \<Longrightarrow> parseALPNExtension (vec16 c) = alpn_loop (vec16 c) 2 (2 + length c) []"
  by (simp add: parseALPNExtension_def vec16_def be_bytes_2 u16_be Let_def)

lemma parseSNI_vec16:
  "length c < 65536 \<Longrightarrow> parseSNIExtension (vec16 c) = sni_loop (vec16 c) 2 (2 + length c)"
  by (simp add: parseSNIExtension_def vec16_def be_bytes_2 u16_be Let_def)

lemma parseALPN_encode:
  assumes "list_all (\<lambda>p. length p < 256) protos"
    and "length (concat (map (\<lambda>p. vec8 (bytes_of_string p)) protos)) < 65536"
  shows "parseALPNExtension (encode_alpn protos) = Some protos"
proof -
  let ?c = "concat (map (\<lambda>p. vec8 (bytes_of_string p)) protos)"
  have "alpn_loop (vec16 ?c) 2 (2 + length ?c) [] = Some protos"
    using alpn_loop_encode [OF assms(1), of "be_bytes 2 (length ?c)" "[]"] by (simp add: vec16_def)
  with parseALPN_vec16 [OF assms(2)] show ?thesis
    by (simp only: encode_alpn_def)
qed

lemma sni_loop_host:
  assumes "u16 l0 l1 = length name" and "name \<noteq> []" and "length pre + 3 + length name \<le> end"
  shows "sni_loop (pre @ 0 # l0 # l1 # name @ rest) (length pre) end = Some (Inr (string_of_bytes name))"
  using assms by (subst sni_loop.simps) (simp add: Let_def nth_append)

lemma parseSNI_encode:
  assumes "name \<noteq> []" and "length name < 65536"
    and "length (concat (map (\<lambda>(t, n). t # vec16 n) ((0, name) # others))) < 65536"
  shows "parseSNIExtension (encode_sni ((0, name) # others)) = Some (Inr (string_of_bytes name))"
proof -
  let ?r = "concat (map (\<lambda>(t, n). t # vec16 n) others)"
  define c where "c = concat (map (\<lambda>(t, n). t # vec16 n) ((0, name) # others))"
  have c: "c = 0 # word_of_nat (length name div 256) # word_of_nat (length name) # name @ ?r"
    by (simp add: c_def vec16_def be_bytes_2)
  have "length c < 65536" using assms(3) by (simp only: c_def)
  note loop = parseSNI_vec16 [OF this]
  have "sni_loop (be_bytes 2 (length c) @ 0 # word_of_nat (length name div 256) #
      word_of_nat (length name) # name @ ?r) (length (be_bytes 2 (length c))) (2 + length c) =
      Some (Inr (string_of_bytes name))"
    by (rule sni_loop_host [OF u16_be [OF assms(2)] assms(1)]) (simp add: c)
  then have "sni_loop (vec16 c) 2 (2 + length c) = Some (Inr (string_of_bytes name))"
    by (simp only: vec16_def [of c] c [symmetric] length_be_bytes)
  with loop show ?thesis
    by (simp only: encode_sni_def c_def)
qed

text \<open>What an extension list means: the last valid server name and the last ALPN list.\<close>

fun exts_meaning :: "(nat \<times> bytes) list \<Rightarrow> string \<Rightarrow> string list \<Rightarrow> string \<times> string list" where
  "exts_meaning [] h a = (h, a)"
| "exts_meaning ((t, b) # es) h a =
     exts_meaning es
       (if t = 0 then (case parseSNIExtension b of Some (Inr n) \<Rightarrow> n | _ \<Rightarrow> h) else h)
       (if t = 16 then (case parseALPNExtension b of Some ps \<Rightarrow> ps | None \<Rightarrow> []) else a)"

definition hello_outcome :: "string \<times> string list \<Rightarrow> hello_result" where
  "hello_outcome ha = (case ha of (h, a) \<Rightarrow> if h = [] then ([], a, Some ErrNoSNI) else (h, a, None))"

definition hello_meaning :: "client_hello \<Rightarrow> hello_result" where
  "hello_meaning ch = hello_outcome (exts_meaning (ch_exts ch) [] [])"

lemma ext_loop_step:
  assumes "u16 t0 t1 = t" and "u16 l0 l1 = length b" and "length pre + 4 + length b \<le> end"
    and "parseSNIExtension b = Some r" and "parseALPNExtension b = Some ps"
  shows "ext_loop (pre @ t0 # t1 # l0 # l1 # b @ rest) (length pre) end h a =
     ext_loop (pre @ t0 # t1 # l0 # l1 # b @ rest) (length pre + 4 + length b) end
       (if t = 0 then (case r of Inl _ \<Rightarrow> h | Inr n \<Rightarrow> n) else h) (if t = 16 then ps else a)"
  using assms by (subst ext_loop.simps) (simp add: Let_def nth_append add.assoc split: sum.split)

lemma ext_loop_encode:
  assumes "list_all wf_ext es"
  shows "ext_loop (pre @ concat (map encode_ext es)) (length pre)
     (length pre + length (concat (map encode_ext es))) h a = Some (hello_outcome (exts_meaning es h a))"
  using assms
proof (induction es arbitrary: pre h a)
  case Nil
  then show ?case by (subst ext_loop.simps) (simp add: hello_outcome_def)
next
  case (Cons e es)
  obtain t b where e: "e = (t, b)" by (cases e)
  with Cons.prems have t: "t < 65536" and b: "length b < 65536" and es: "list_all wf_ext es"
    by (simp_all add: wf_ext_def [of "(t, b)"])
  obtain r where r: "parseSNIExtension b = Some r" using parseSNIExtension_total by blast
  obtain ps where ps: "parseALPNExtension b = Some ps" using parseALPNExtension_total by blast
  let ?r = "concat (map encode_ext es)"
  obtain t0 t1 l0 l1 where x: "encode_ext e = t0 # t1 # l0 # l1 # b"
    and tt: "u16 t0 t1 = t" and ll: "u16 l0 l1 = length b"
    using u16_be [OF t] u16_be [OF b] by (simp add: e encode_ext_def vec16_def be_bytes_2)
  define h' where "h' = (if t = 0 then (case r of Inl _ \<Rightarrow> h | Inr n \<Rightarrow> n) else h)"
  define a' where "a' = (if t = 16 then ps else a)"
  define pre' where "pre' = pre @ t0 # t1 # l0 # l1 # b"
  have len: "length pre + 4 + length b = length pre'" by (simp add: pre'_def)
  have buf: "pre @ t0 # t1 # l0 # l1 # b @ ?r = pre' @ ?r" by (simp add: pre'_def)
  have "length pre + length (concat (map encode_ext (e # es))) = length pre' + length ?r"
    by (simp add: x pre'_def)
  moreover have "pre @ concat (map encode_ext (e # es)) = pre' @ ?r"
    by (simp add: x pre'_def)
  moreover have "ext_loop (pre' @ ?r) (length pre) (length pre' + length ?r) h a =
      ext_loop (pre' @ ?r) (length pre') (length pre' + length ?r) h' a'"
    unfolding buf [symmetric] len [symmetric] h'_def a'_def
    by (rule ext_loop_step [OF tt ll _ r ps]) simp
  moreover have "exts_meaning (e # es) h a = exts_meaning es h' a'"
    by (simp add: e r ps h'_def a'_def split: sum.split)
  ultimately show ?case
    using Cons.IH [OF es, of pre' h' a'] by (simp only:)
qed

lemma hello_body_split:
  assumes "length f = 34" and "unat s = length sess" and "u16 c0 c1 = length ciph"
    and "unat m = length cs" and "u16 e0 e1 = length x"
  shows "hello_body (f @ s # sess @ c0 # c1 # ciph @ m # cs @ e0 # e1 # x) =
     ext_loop ((f @ s # sess @ c0 # c1 # ciph @ m # cs @ [e0, e1]) @ x)
       (length (f @ s # sess @ c0 # c1 # ciph @ m # cs @ [e0, e1]))
       (length (f @ s # sess @ c0 # c1 # ciph @ m # cs @ [e0, e1]) + length x) [] []"
proof -
  define D where "D = f @ s # sess @ c0 # c1 # ciph @ m # cs @ e0 # e1 # x"
  have len: "length D = 34 + 1 + length sess + 2 + length ciph + 1 + length cs + 2 + length x"
    using assms(1) by (simp add: D_def)
  have D: "D ! 34 = s" "D ! (35 + length sess) = c0" "D ! (36 + length sess) = c1"
    "D ! (37 + length sess + length ciph) = m"
    "D ! (38 + length sess + length ciph + length cs) = e0"
    "D ! (39 + length sess + length ciph + length cs) = e1"
    using assms(1) by (simp_all add: D_def nth_append)
  have "hello_body D = ext_loop D (40 + length sess + length ciph + length cs)
      (40 + length sess + length ciph + length cs + length x) [] []"
    using len D assms by (simp add: hello_body_def Let_def ac_simps)
  moreover have "f @ s # sess @ c0 # c1 # ciph @ m # cs @ e0 # e1 # x =
      (f @ s # sess @ c0 # c1 # ciph @ m # cs @ [e0, e1]) @ x"
    by simp
  moreover have "length (f @ s # sess @ c0 # c1 # ciph @ m # cs @ [e0, e1]) =
      40 + length sess + length ciph + length cs"
    using assms(1) by simp
  ultimately show ?thesis
    by (simp only: D_def)
qed

lemma hello_body_encode:
  assumes "wf_hello h"
  shows "hello_body (encode_body h) = Some (hello_meaning h)"
proof -
  let ?x = "concat (map encode_ext (ch_exts h))"
  from assms have wf: "length (ch_fixed h) = 34" "length (ch_session h) < 256"
    "length (ch_ciphers h) < 65536" "length (ch_compress h) < 256" "length ?x < 65536"
    "list_all wf_ext (ch_exts h)"
    by (simp_all add: wf_hello_def)
  show ?thesis
    unfolding encode_body_def vec16_def vec8_def be_bytes_2 append_Cons append_Nil
      hello_body_split [OF wf(1) unat_vec8 [OF wf(2)] u16_be [OF wf(3)] unat_vec8 [OF wf(4)]
        u16_be [OF wf(5)]]
      ext_loop_encode [OF wf(6)] hello_meaning_def ..
qed

lemma ParseClientHello_split:
  assumes "u16 l0 l1 = length d" and "d = 1 # h0 # h1 # h2 # b" and "u24 h0 h1 h2 = length b"
  shows "ParseClientHello (0x16 # v0 # v1 # l0 # l1 # d @ rest) = hello_body b"
  using assms by (simp add: ParseClientHello_def Let_def eval_nat_numeral)

lemma ParseClientHello_record:
  assumes "wf_hello h"
  shows "ParseClientHello (encode_record h @ rest) = Some (hello_meaning h)"
proof -
  define b where "b = encode_body h"
  define d where "d = encode_handshake h"
  have d: "d = 1 # word_of_nat (length b div 256 div 256) # word_of_nat (length b div 256)
      # word_of_nat (length b) # b"
    by (simp add: d_def b_def encode_handshake_def be_bytes_3)
  from assms have l: "length d < 65536" by (simp add: wf_hello_def d_def)
  then have "length b < 16777216" by (simp add: d)
  from ParseClientHello_split [OF u16_be [OF l] d u24_be [OF this]] hello_body_encode [OF assms]
  show ?thesis
    by (simp add: encode_record_def vec16_def be_bytes_2 d_def b_def)
qed

section \<open>Reading in pieces\<close>

text \<open>
  The record is complete when its five header bytes and the announced length are there; a
  buffer that does not start a TLS handshake record is complete at five bytes.
\<close>

definition record_complete :: "bytes \<Rightarrow> bool" where
  "record_complete buf =
     (5 \<le> length buf \<and> (buf ! 0 \<noteq> 0x16 \<or> 5 + u16 (buf ! 3) (buf ! 4) \<le> length buf))"

lemma ParseClientHello_incomplete:
  "\<not> record_complete buf \<Longrightarrow> ParseClientHello buf = Some ([], [], Some ErrTruncated)"
  by (auto simp: record_complete_def ParseClientHello_def Let_def not_le)

lemma ParseClientHello_extend:
  assumes "record_complete buf"
  shows "ParseClientHello (buf @ more') = ParseClientHello buf"
proof -
  have "idx (buf @ more') k = Some (buf ! k)" "idx buf k = Some (buf ! k)" if "k < 5" for k
    using assms that by (simp_all add: record_complete_def idx_def nth_append)
  then have "idx (buf @ more') 0 = Some (buf ! 0)" "idx buf 0 = Some (buf ! 0)"
    "idx (buf @ more') 3 = Some (buf ! 3)" "idx buf 3 = Some (buf ! 3)"
    "idx (buf @ more') 4 = Some (buf ! 4)" "idx buf 4 = Some (buf ! 4)"
    by simp_all
  with assms show ?thesis
    by (auto simp: record_complete_def ParseClientHello_def Let_def slice_append1)
qed

lemma record_complete_mono: "record_complete buf \<Longrightarrow> record_complete (buf @ more')"
  by (auto simp: record_complete_def nth_append)

lemma record_complete_encode_iff:
  assumes "wf_hello h"
  shows "record_complete (take n (encode_record h)) \<longleftrightarrow> length (encode_record h) \<le> n"
proof -
  define d where "d = encode_handshake h"
  define w where "w = [0x16, 0x03, 0x01, word_of_nat (length d div 256), word_of_nat (length d)] @ d"
  have w: "encode_record h = w"
    by (simp add: encode_record_def vec16_def be_bytes_2 d_def w_def)
  from assms have "length d < 65536" by (simp add: wf_hello_def d_def)
  then have "u16 (w ! 3) (w ! 4) = length d" "w ! 0 = 0x16" "length w = 5 + length d"
    using u16_be [of "length d"] by (simp_all add: w_def)
  then show ?thesis
    by (cases "5 \<le> n") (auto simp: record_complete_def w)
qed

section \<open>The extension list\<close>

lemma exts_meaning_no_sni: "0 \<notin> fst ` set es \<Longrightarrow> fst (exts_meaning es h a) = h"
  by (induction es h a rule: exts_meaning.induct) auto

lemma exts_meaning_no_alpn: "16 \<notin> fst ` set es \<Longrightarrow> snd (exts_meaning es h a) = a"
  by (induction es h a rule: exts_meaning.induct) auto

lemma exts_meaning_sni:
  assumes "distinct (map fst es)" and "(0, b) \<in> set es" and "parseSNIExtension b = Some (Inr n)"
  shows "fst (exts_meaning es h a) = n"
  using assms
  by (induction es h a rule: exts_meaning.induct) (auto simp: exts_meaning_no_sni)

lemma exts_meaning_alpn:
  assumes "distinct (map fst es)" and "(16, b) \<in> set es" and "parseALPNExtension b = Some ps"
  shows "snd (exts_meaning es h a) = ps"
  using assms
  by (induction es h a rule: exts_meaning.induct) (auto simp: exts_meaning_no_alpn)

lemma length_vec16: "length (vec16 c) = 2 + length c"
  by (simp add: vec16_def)

lemma parseSNI_encode_ext:
  assumes "wf_ext (t, encode_sni ((0, name) # others))" and "name \<noteq> []"
  shows "parseSNIExtension (encode_sni ((0, name) # others)) = Some (Inr (string_of_bytes name))"
proof (rule parseSNI_encode)
  let ?c = "concat (map (\<lambda>(t, n). t # vec16 n) ((0, name) # others))"
  from assms(1) show l: "length ?c < 65536"
    by (simp add: wf_ext_def encode_sni_def length_vec16)
  have "length name \<le> length ?c" by (simp add: length_vec16)
  with l show "length name < 65536" by linarith
qed (rule assms(2))

lemma parseALPN_encode_ext:
  assumes "wf_ext (t, encode_alpn protos)" and "list_all (\<lambda>p. length p < 256) protos"
  shows "parseALPNExtension (encode_alpn protos) = Some protos"
  using assms by (intro parseALPN_encode) (simp_all add: wf_ext_def encode_alpn_def length_vec16)

section \<open>Properties\<close>

text \<open>
  C7. No byte sequence makes the ClientHello parser panic: every index and every slice it
  takes is in range, and it always returns, with a result or with one of its errors.
\<close>

theorem ParseClientHello_no_panic: "ParseClientHello buf \<noteq> None \<and> Parse buf \<noteq> None"
  using ParseClientHello_total [of buf] by (auto simp: Parse_def)

text \<open>
  C6. Round trip: from a well-formed ClientHello whose extension list has a server name
  and an ALPN list (each type once, in any place, among any other extensions), the parser
  returns exactly that name and that list, whatever follows the record.
\<close>

theorem ParseClientHello_roundtrip:
  assumes "wf_hello h"
    and "distinct (map fst (ch_exts h))"
    and "(0, encode_sni ((0, bytes_of_string name) # others)) \<in> set (ch_exts h)"
    and "(16, encode_alpn protos) \<in> set (ch_exts h)"
    and "name \<noteq> []"
    and "list_all (\<lambda>p. length p < 256) protos"
  shows "ParseClientHello (encode_record h @ rest) = Some (name, protos, None)"
proof -
  from assms(1) have wf: "list_all wf_ext (ch_exts h)" by (simp add: wf_hello_def)
  with assms(3,4) have sni: "wf_ext (0, encode_sni ((0, bytes_of_string name) # others))"
    and alpn: "wf_ext (16, encode_alpn protos)"
    by (auto simp: list_all_iff)
  have "fst (exts_meaning (ch_exts h) [] []) = name"
    using exts_meaning_sni [OF assms(2,3) parseSNI_encode_ext [OF sni]] assms(5) by simp
  moreover have "snd (exts_meaning (ch_exts h) [] []) = protos"
    by (rule exts_meaning_alpn [OF assms(2,4) parseALPN_encode_ext [OF alpn assms(6)]])
  ultimately show ?thesis
    using assms(5) by (simp add: ParseClientHello_record [OF assms(1)] hello_meaning_def
        hello_outcome_def split_beta)
qed

definition sample_hello :: client_hello where
  "sample_hello = \<lparr>ch_fixed = replicate 34 7, ch_session = [1, 2], ch_ciphers = [0x13, 1],
     ch_compress = [0],
     ch_exts = [(10, [0, 2, 0, 29]), (0, encode_sni [(0, bytes_of_string ''a.b'')]),
       (16, encode_alpn [''h2'', ''http/1.1''])]\<rparr>"

lemmas encoders = encode_record_def encode_handshake_def encode_body_def encode_ext_def
  encode_sni_def encode_alpn_def vec16_def vec8_def

lemma sample_hello_wf: "wf_hello sample_hello"
  by (simp add: wf_hello_def wf_ext_def sample_hello_def encoders)

theorem ParseClientHello_roundtrip_witness:
  "ParseClientHello (encode_record sample_hello @ [9]) = Some (''a.b'', [''h2'', ''http/1.1''], None)"
  by (rule ParseClientHello_roundtrip [OF sample_hello_wf, where others = "[]"])
    (simp_all add: sample_hello_def)

text \<open>
  While the TCP stream has delivered only a proper prefix of a well-formed ClientHello
  record, the parser says \<open>ErrTruncated\<close>, the one error on which the caller reads on; once
  the record is complete, its answer never changes with what arrives after it.
\<close>

theorem ParseClientHello_prefix:
  assumes "wf_hello h"
  shows "ParseClientHello (take n (encode_record h)) =
     (if n < length (encode_record h) then Some ([], [], Some ErrTruncated)
      else Some (hello_meaning h))"
proof (cases "n < length (encode_record h)")
  case True
  with record_complete_encode_iff [OF assms, of n]
  show ?thesis by (simp add: ParseClientHello_incomplete)
next
  case False
  then show ?thesis using ParseClientHello_record [OF assms, of "[]"] by simp
qed

theorem ParseClientHello_prefix_witness:
  "ParseClientHello (take 20 (encode_record sample_hello)) = Some ([], [], Some ErrTruncated)"
proof -
  have "20 < length (encode_record sample_hello)"
    by (simp add: sample_hello_def encoders)
  then show ?thesis
    using ParseClientHello_prefix [OF sample_hello_wf, of 20] by simp
qed

end
