(* ===== verification/Go_Sha256.thy ===== *)
theory Go_Sha256
  imports Go_Strings
begin

text \<open>
  \<^verbatim>\<open>crypto/sha256\<close> (FIPS 180-4), as \<open>ComputeVersion\<close> uses it: padding, the message schedule, the
  compression function on 32-bit words and the hexadecimal digest that \<^verbatim>\<open>%x\<close> prints.
\<close>

type_synonym u32 = "32 word"

text \<open>
  The constants, from their definition in the standard: the first 32 bits of the fractional
  parts of the cube roots of the first 64 primes and of the square roots of the first eight.
  \<open>iroot k n\<close> is the integer part of the \<open>k\<close>-th root, found bit by bit.
\<close>

definition iroot :: "nat \<Rightarrow> int \<Rightarrow> int" where
  "iroot k n = fold (\<lambda>b x. if (x + 2 ^ b) ^ k \<le> n then x + 2 ^ b else x) (rev [0 ..< 40]) 0"

definition frac_root :: "nat \<Rightarrow> int \<Rightarrow> u32" where
  "frac_root k p = word_of_int (iroot k (p * 2 ^ (32 * k)))"

definition is_prime :: "int \<Rightarrow> bool" where
  "is_prime p = list_all (\<lambda>d. p mod d \<noteq> 0) [2 .. p - 1]"

definition sha_k :: "u32 list" where
  "sha_k = map (frac_root 3) (filter is_prime [2 .. 311])"

definition sha_init :: "u32 list" where
  "sha_init = map (frac_root 2) [2, 3, 5, 7, 11, 13, 17, 19]"

definition rotr :: "nat \<Rightarrow> u32 \<Rightarrow> u32" where
  "rotr n w = (drop_bit n w OR push_bit (32 - n) w)"

text \<open>One schedule step: the window holds the last sixteen words, oldest first.\<close>

fun sha_schedule :: "nat \<Rightarrow> u32 list \<Rightarrow> u32 list" where
  "sha_schedule 0 win = []"
| "sha_schedule (Suc n) win =
     (let w15 = win ! 1; w2 = win ! 14;
          s0 = rotr 7 w15 XOR rotr 18 w15 XOR drop_bit 3 w15;
          s1 = rotr 17 w2 XOR rotr 19 w2 XOR drop_bit 10 w2;
          w = win ! 0 + s0 + win ! 9 + s1
      in w # sha_schedule n (tl win @ [w]))"

definition sha_round :: "u32 \<times> u32 \<Rightarrow> u32 list \<Rightarrow> u32 list" where
  "sha_round kw st = (case st of [a, b, c, d, e, f, g, h] \<Rightarrow>
     let s1 = rotr 6 e XOR rotr 11 e XOR rotr 25 e;
         ch = (e AND f) XOR (NOT e AND g);
         t1 = h + s1 + ch + fst kw + snd kw;
         s0 = rotr 2 a XOR rotr 13 a XOR rotr 22 a;
         maj = (a AND b) XOR (a AND c) XOR (b AND c);
         t2 = s0 + maj
     in [t1 + t2, a, b, c, d + t1, e, f, g]
   | _ \<Rightarrow> st)"

fun chunks_of :: "nat \<Rightarrow> 'a list \<Rightarrow> 'a list list" where
  "chunks_of k xs = (if k = 0 \<or> xs = [] then [] else take k xs # chunks_of k (drop k xs))"

declare chunks_of.simps [simp del]

definition sha_block :: "bytes \<Rightarrow> u32 list \<Rightarrow> u32 list" where
  "sha_block blk st =
     (let w = map Uint32 (chunks_of 4 blk);
          ws = w @ sha_schedule 48 w
      in map2 (+) st (fold sha_round (zip sha_k ws) st))"

definition sha_pad :: "bytes \<Rightarrow> bytes" where
  "sha_pad msg =
     (let l = length msg
      in msg @ 0x80 # replicate ((119 - l mod 64) mod 64) 0 @ PutUint64 (word_of_nat (8 * l)))"

definition sha256 :: "bytes \<Rightarrow> bytes" where
  "sha256 msg = concat (map PutUint32 (fold sha_block (chunks_of 64 (sha_pad msg)) sha_init))"

definition hex_byte :: "byte \<Rightarrow> string" where
  "hex_byte b = [digit_char (unat b div 16), digit_char (unat b mod 16)]"

definition hex_string :: "bytes \<Rightarrow> string" where
  "hex_string bs = concat (map hex_byte bs)"

text \<open>The lengths that make the definitions meaningful: whole blocks, a 32-byte digest.\<close>

lemma sha_pad_blocks: "length (sha_pad msg) mod 64 = 0"
proof -
  define l r where "l = length msg" and "r = l mod 64"
  have "r < 64" by (simp add: r_def)
  have "(119 - r) mod 64 = (if r \<le> 55 then 55 - r else 119 - r)"
  proof (cases "r \<le> 55")
    case True
    then have "119 - r = 64 + (55 - r)" by simp
    then have "(119 - r) mod 64 = (55 - r) mod 64" by (simp only: mod_add_self1)
    with True show ?thesis by simp
  next
    case False
    then have "119 - r < 64" by simp
    with False show ?thesis by simp
  qed
  with \<open>r < 64\<close> have "r + 9 + (119 - r) mod 64 = (if r \<le> 55 then 64 else 128)"
    by simp
  then have "(r + 9 + (119 - r) mod 64) mod 64 = 0"
    by simp
  then have "(l + (9 + (119 - r) mod 64)) mod 64 = 0"
    by (simp only: r_def mod_add_left_eq add.assoc)
  moreover have "length (sha_pad msg) = l + (9 + (119 - r) mod 64)"
    by (simp add: sha_pad_def Let_def l_def r_def)
  ultimately show ?thesis by simp
qed

lemma length_sha_round [simp]: "length (sha_round kw st) = length st"
  by (auto simp: sha_round_def Let_def split: list.split)

lemma length_fold_sha_round [simp]: "length (fold sha_round kws st) = length st"
  by (induction kws arbitrary: st) simp_all

lemma length_sha_block [simp]: "length (sha_block blk st) = length st"
  by (simp add: sha_block_def Let_def)

lemma length_fold_sha_block [simp]: "length (fold sha_block bs st) = length st"
  by (induction bs arbitrary: st) simp_all

lemma length_concat_put32: "length (concat (map PutUint32 ws)) = 4 * length ws"
  by (induction ws) simp_all

lemma length_sha256: "length (sha256 msg) = 32"
  by (simp add: sha256_def length_concat_put32 sha_init_def)

lemma length_hex_string: "length (hex_string bs) = 2 * length bs"
  by (induction bs) (simp_all add: hex_string_def hex_byte_def)

end
