(* ===== verification/Route_Table.thy ===== *)
theory Route_Table
  imports Go_Sha256 "HOL-Library.Char_ord" "HOL-Library.List_Lexorder" "HOL-Library.Multiset"
begin

text \<open>
  Package \<^verbatim>\<open>internal/routetable\<close>: the routing table that maps a lower-cased server name to a
  route, its atomic replacement by \<open>Update\<close> and the two notifications an update makes, the
  sorted snapshot and the content version. An update returns the calls of the two hooks as a
  list, in the order the source makes them.
\<close>

section \<open>Routes\<close>

record Route =
  SNI :: string
  Upstream :: string
  AttestationPolicy :: string
  State :: string
  Canonical :: string
  Mode :: string
  ProxyProtocol :: bool

definition ModeDirect :: string where
  "ModeDirect = ''direct''"

definition ModeDirectPending :: string where
  "ModeDirectPending = ''direct-pending''"

definition StateQuarantined :: string where
  "StateQuarantined = ''quarantined''"

definition IsDirect :: "Route \<Rightarrow> bool" where
  "IsDirect r = (Mode r = ModeDirect)"

definition IsDirectPending :: "Route \<Rightarrow> bool" where
  "IsDirectPending r = (Mode r = ModeDirectPending)"

definition IsAlias :: "Route \<Rightarrow> bool" where
  "IsAlias r = (Canonical r \<noteq> [] \<and> Canonical r \<noteq> SNI r)"

definition UpstreamName :: "Route \<Rightarrow> string" where
  "UpstreamName r = (if IsAlias r then Canonical r else SNI r)"

definition Quarantined :: "Route \<Rightarrow> bool" where
  "Quarantined r = (State r = StateQuarantined)"

section \<open>The table\<close>

text \<open>
  The hook pointers: \<^term>\<open>None\<close> when no function was stored, else whether the stored function
  is non-nil. What a hook does is its owner's business; the table only decides the calls.
\<close>

record Table =
  t_routes :: "(string, Route) dict"
  t_version :: string
  t_count :: nat
  t_quarantined :: nat
  t_onQuarantine :: "bool option"
  t_onRetired :: "bool option"

datatype hook_call = CallQuarantine string | CallRetired Route

definition New :: Table where
  "New = \<lparr>t_routes = [], t_version = [], t_count = 0, t_quarantined = 0,
     t_onQuarantine = None, t_onRetired = None\<rparr>"

definition OnQuarantine :: "Table \<Rightarrow> bool \<Rightarrow> Table" where
  "OnQuarantine t fn = t\<lparr>t_onQuarantine := Some fn\<rparr>"

definition OnRetired :: "Table \<Rightarrow> bool \<Rightarrow> Table" where
  "OnRetired t fn = t\<lparr>t_onRetired := Some fn\<rparr>"

definition Lookup :: "Table \<Rightarrow> string \<Rightarrow> Route option" where
  "Lookup t sni = dict_get (t_routes t) (ToLower sni)"

definition LookupUpstream :: "Table \<Rightarrow> string \<Rightarrow> string option" where
  "LookupUpstream t sni = (case Lookup t sni of None \<Rightarrow> None | Some r \<Rightarrow> Some (Upstream r))"

text \<open>The loop of \<open>Update\<close> over the feed: the new map and the number of quarantined entries.\<close>

definition load_route :: "Route \<Rightarrow> (string, Route) dict \<times> nat \<Rightarrow> (string, Route) dict \<times> nat" where
  "load_route r mq = (case mq of (m, q) \<Rightarrow>
     (dict_set m (ToLower (SNI r)) r, if Quarantined r then q + 1 else q))"

definition load_routes :: "Route list \<Rightarrow> (string, Route) dict \<times> nat" where
  "load_routes rs = fold load_route rs ([], 0)"

definition newly_quarantined ::
  "(string, Route) dict \<Rightarrow> (string, Route) dict \<Rightarrow> hook_call list" where
  "newly_quarantined prev m =
     concat (map (\<lambda>(host, r).
       if \<not> Quarantined r then []
       else case dict_get prev host of
              Some old \<Rightarrow> if \<not> Quarantined old then [CallQuarantine host] else []
            | None \<Rightarrow> []) m)"

definition retires :: "Route \<Rightarrow> Route option \<Rightarrow> bool" where
  "retires old cur = (case cur of None \<Rightarrow> True | Some c \<Rightarrow>
     Upstream c \<noteq> Upstream old \<or> UpstreamName c \<noteq> UpstreamName old \<or> Mode c \<noteq> Mode old
       \<or> ProxyProtocol c \<noteq> ProxyProtocol old)"

definition newly_retired ::
  "(string, Route) dict \<Rightarrow> (string, Route) dict \<Rightarrow> hook_call list" where
  "newly_retired prev m =
     concat (map (\<lambda>(host, old). if retires old (dict_get m host) then [CallRetired old] else []) prev)"

text \<open>\<open>Update\<close>: the new table, whether it changed, and the hook calls after the swap.\<close>

definition Update :: "Table \<Rightarrow> Route list \<Rightarrow> string \<Rightarrow> Table \<times> bool \<times> hook_call list" where
  "Update t rs v =
     (if t_version t = v \<and> v \<noteq> [] then (t, False, [])
      else (case load_routes rs of (m, quarantined) \<Rightarrow>
        let prev = t_routes t;
            t' = t\<lparr>t_routes := m, t_version := v, t_count := length rs,
                   t_quarantined := quarantined\<rparr>;
            qcalls = (if t_onQuarantine t = Some True \<and> quarantined > 0
                      then newly_quarantined prev m else []);
            rcalls = (if t_onRetired t = Some True then newly_retired prev m else [])
        in (t', True, qcalls @ rcalls)))"

text \<open>
  \<^verbatim>\<open>sort.Slice\<close> by the server name: some list with the same elements in ascending order. The
  source's algorithm is not stable; what is proved below about sorted lists holds of any
  such list.
\<close>

definition Snapshot :: "Table \<Rightarrow> Route list" where
  "Snapshot t = sort_key SNI (map snd (t_routes t))"

definition Version :: "Table \<Rightarrow> string" where
  "Version t = t_version t"

definition Count :: "Table \<Rightarrow> nat" where
  "Count t = t_count t"

definition QuarantinedCount :: "Table \<Rightarrow> nat" where
  "QuarantinedCount t = t_quarantined t"

definition version_entry :: "Route \<Rightarrow> string" where
  "version_entry r =
     SNI r @ [CHR 0x00] @ Upstream r @ [CHR 0x00] @ AttestationPolicy r
       @ (if State r \<noteq> [] then CHR 0x00 # State r else []) @ [CHR 0x0A]"

definition ComputeVersion :: "Route list \<Rightarrow> string" where
  "ComputeVersion rs =
     ''sha256:'' @ hex_string (sha256 (bytes_of_string (concat (map version_entry (sort_key SNI rs)))))"

section \<open>Sorting by name\<close>

text \<open>
  The contract of a sort by key, and what its callers use: with distinct keys the result is
  determined, so neither the algorithm nor Go's map iteration order shows in it.
\<close>

locale key_sort =
  fixes srt :: "'a list \<Rightarrow> 'a list" and key :: "'a \<Rightarrow> 'b :: linorder"
  assumes mset_srt: "mset (srt xs) = mset xs"
    and sorted_srt: "sorted (map key (srt xs))"
begin

lemma set_srt: "set (srt xs) = set xs"
  by (metis mset_srt set_mset_mset)

lemma srt_unique:
  assumes "mset ys = mset xs" and "sorted (map key ys)" and "distinct (map key xs)"
  shows "ys = srt xs"
proof -
  have set_eq: "set ys = set xs" "set (srt xs) = set xs"
    using assms(1) set_srt by (metis set_mset_mset)+
  have "distinct (map key ys)" "distinct (map key (srt xs))"
    using assms(1,3) mset_srt [of xs] by (metis mset_eq_imp_distinct_iff mset_map)+
  moreover have "set (map key ys) = set (map key (srt xs))"
    using set_eq by simp
  ultimately have "map key ys = map key (srt xs)"
    using assms(2) sorted_srt sorted_distinct_set_unique by blast
  moreover have "inj_on key (set ys \<union> set (srt xs))"
    using assms(3) set_eq by (simp add: distinct_map)
  ultimately show ?thesis
    by (simp add: inj_on_map_eq_map)
qed

lemma srt_perm:
  "mset xs = mset ys \<Longrightarrow> distinct (map key xs) \<Longrightarrow> srt xs = srt ys"
  by (metis mset_eq_imp_distinct_iff mset_map mset_srt sorted_srt srt_unique)

end

interpretation by_sni: key_sort "sort_key SNI" SNI
  by unfold_locales simp_all

section \<open>The loaded map\<close>

lemma load_routes_eq:
  "load_routes rs = (fold (\<lambda>r m. dict_set m (ToLower (SNI r)) r) rs [], length (filter Quarantined rs))"
proof -
  have "fold load_route rs (m, q) =
      (fold (\<lambda>r m. dict_set m (ToLower (SNI r)) r) rs m, q + length (filter Quarantined rs))" for m q
    by (induction rs arbitrary: m q) (simp_all add: load_route_def)
  then show ?thesis by (simp add: load_routes_def)
qed

definition last_route :: "Route list \<Rightarrow> string \<Rightarrow> Route option" where
  "last_route rs sni = find (\<lambda>r. ToLower (SNI r) = ToLower sni) (rev rs)"

lemma dict_get_load:
  "dict_get (fst (load_routes rs)) k = find (\<lambda>r. ToLower (SNI r) = k) (rev rs)"
  by (simp add: load_routes_eq gomap.get_fold_put split: option.split)

lemma dict_ok_load: "dict_ok (fst (load_routes rs))"
  by (simp add: load_routes_eq gomap.ok_fold_put)

lemma load_key: "dict_get (fst (load_routes rs)) k = Some r \<Longrightarrow> k = ToLower (SNI r) \<and> r \<in> set rs"
  by (auto simp: dict_get_load dest!: find_SomeD)

section \<open>The table invariant\<close>

text \<open>
  Keys are distinct and are the lower-cased names of their routes, there are at least as many
  feed entries as keys, and a table that counts no quarantined entry has no quarantined route.
\<close>

definition table_ok :: "Table \<Rightarrow> bool" where
  "table_ok t =
     (dict_ok (t_routes t) \<and> list_all (\<lambda>(k, r). k = ToLower (SNI r)) (t_routes t)
      \<and> length (t_routes t) \<le> t_count t \<and> t_quarantined t \<le> t_count t
      \<and> length (filter (\<lambda>(k, r). Quarantined r) (t_routes t)) \<le> t_quarantined t)"

lemma length_filter_dict_set:
  "length (filter (\<lambda>(k, r). P r) (dict_set d k v)) \<le>
     length (filter (\<lambda>(k, r). P r) d) + (if P v then 1 else 0)"
  by (induction d) (auto simp: dict_set_def)

lemma length_dict_set_le: "length (dict_set d k v) \<le> Suc (length d)"
  by (cases "dict_get d k") (simp_all add: length_dict_set_new length_dict_set_old)

lemma load_length_le: "length (fst (load_routes rs)) \<le> length rs"
proof -
  have "length (fold (\<lambda>r m. dict_set m (ToLower (SNI r)) r) rs m) \<le> length m + length rs" for m
  proof (induction rs arbitrary: m)
    case (Cons r rs)
    show ?case
      using Cons [of "dict_set m (ToLower (SNI r)) r"] length_dict_set_le [of m "ToLower (SNI r)" r]
      by simp
  qed simp
  from this [of "[]"] show ?thesis by (simp add: load_routes_eq)
qed

lemma load_quarantined_le:
  "length (filter (\<lambda>(k, r). Quarantined r) (fst (load_routes rs))) \<le> length (filter Quarantined rs)"
proof -
  let ?q = "\<lambda>m. length (filter (\<lambda>(k, r). Quarantined r) m)"
  have "?q (fold (\<lambda>r m. dict_set m (ToLower (SNI r)) r) rs m) \<le> ?q m + length (filter Quarantined rs)"
    for m :: "(string, Route) dict"
  proof (induction rs arbitrary: m)
    case (Cons r rs)
    show ?case
      using Cons [of "dict_set m (ToLower (SNI r)) r"]
        length_filter_dict_set [of Quarantined m "ToLower (SNI r)" r]
      by (auto split: if_splits)
  qed simp
  from this [of "[]"] show ?thesis by (simp add: load_routes_eq)
qed

lemma table_ok_New: "table_ok New"
  by (simp add: table_ok_def New_def)

lemma table_ok_hooks [simp]:
  "table_ok (OnQuarantine t fn) = table_ok t" "table_ok (OnRetired t fn) = table_ok t"
  by (simp_all add: table_ok_def OnQuarantine_def OnRetired_def)

lemma Update_stale: "t_version t = v \<Longrightarrow> v \<noteq> [] \<Longrightarrow> Update t rs v = (t, False, [])"
  by (simp add: Update_def)

lemma Update_fresh:
  assumes "t_version t \<noteq> v \<or> v = []"
  shows "fst (Update t rs v) = t\<lparr>t_routes := fst (load_routes rs), t_version := v,
      t_count := length rs, t_quarantined := length (filter Quarantined rs)\<rparr>"
    and "fst (snd (Update t rs v))"
    and "snd (snd (Update t rs v)) =
      (if t_onQuarantine t = Some True \<and> length (filter Quarantined rs) > 0
       then newly_quarantined (t_routes t) (fst (load_routes rs)) else [])
      @ (if t_onRetired t = Some True then newly_retired (t_routes t) (fst (load_routes rs)) else [])"
  using assms by (auto simp: Update_def load_routes_eq Let_def)

lemma table_ok_Update:
  assumes "table_ok t"
  shows "table_ok (fst (Update t rs v))"
proof (cases "t_version t = v \<and> v \<noteq> []")
  case True
  with assms show ?thesis by (simp add: Update_stale)
next
  case False
  have "list_all (\<lambda>(k, r). k = ToLower (SNI r)) (fst (load_routes rs))"
    using load_key dict_ok_load by (fastforce simp: list_all_iff dict_get_iff [symmetric])
  with False show ?thesis
    by (simp add: Update_fresh table_ok_def dict_ok_load load_length_le load_quarantined_le
        length_filter_le)
qed

lemma Update_keeps_hooks [simp]:
  "t_onQuarantine (fst (Update t rs v)) = t_onQuarantine t"
  "t_onRetired (fst (Update t rs v)) = t_onRetired t"
  by (auto simp: Update_def Let_def split: prod.split)

lemma Lookup_Update:
  "Lookup (fst (Update t rs v)) sni =
     (if t_version t = v \<and> v \<noteq> [] then Lookup t sni else last_route rs sni)"
  by (cases "t_version t = v \<and> v \<noteq> []")
    (auto simp: Update_stale Update_fresh Lookup_def dict_get_load last_route_def)

lemma Lookup_ToLower [simp]: "Lookup t (ToLower sni) = Lookup t sni"
  by (simp add: Lookup_def)

lemma table_key:
  "table_ok t \<Longrightarrow> dict_get (t_routes t) k = Some r \<Longrightarrow> k = ToLower (SNI r)"
  by (auto simp: table_ok_def list_all_iff dest: dict_get_in)

lemma table_key_lower: "table_ok t \<Longrightarrow> dict_get (t_routes t) k = Some r \<Longrightarrow> ToLower k = k"
  using table_key by fastforce

section \<open>The notifications\<close>

lemma set_newly_quarantined:
  assumes "dict_ok m"
  shows "CallQuarantine h \<in> set (newly_quarantined prev m) \<longleftrightarrow>
     (\<exists>r old. dict_get m h = Some r \<and> Quarantined r \<and> dict_get prev h = Some old \<and> \<not> Quarantined old)"
    and "CallRetired r' \<notin> set (newly_quarantined prev m)"
  using assms
  by (force simp: newly_quarantined_def dict_get_iff split: option.splits if_splits)+

lemma set_newly_retired:
  assumes "dict_ok prev"
  shows "CallRetired old \<in> set (newly_retired prev m) \<longleftrightarrow>
     (\<exists>h. dict_get prev h = Some old \<and> retires old (dict_get m h))"
    and "CallQuarantine h \<notin> set (newly_retired prev m)"
  using assms by (force simp: newly_retired_def dict_get_iff split: if_splits)+

lemma distinct_newly_quarantined:
  assumes "dict_ok m"
  shows "distinct (newly_quarantined prev m)"
  using assms
proof (induction m)
  case Nil
  then show ?case by (simp add: newly_quarantined_def)
next
  case (Cons p m)
  obtain h r where p: "p = (h, r)" by (cases p)
  with Cons.prems have m: "dict_ok m" and "h \<notin> fst ` set m" by (auto simp: dict_ok_def)
  then have "CallQuarantine h \<notin> set (newly_quarantined prev m)"
    using set_newly_quarantined(1) [OF m] by (metis dict_get_None_iff option.distinct(1))
  moreover have "newly_quarantined prev (p # m) =
      newly_quarantined prev [p] @ newly_quarantined prev m"
    by (simp add: newly_quarantined_def)
  moreover have "newly_quarantined prev [p] = [] \<or> newly_quarantined prev [p] = [CallQuarantine h]"
    by (auto simp: newly_quarantined_def p split: option.split)
  ultimately show ?case using Cons.IH [OF m] by auto
qed

lemma distinct_values:
  assumes "table_ok t"
  shows "distinct (map SNI (map snd (t_routes t)))"
proof -
  have "map fst (t_routes t) = map ToLower (map SNI (map snd (t_routes t)))"
    using assms by (auto simp: table_ok_def list_all_iff)
  moreover have "distinct (map fst (t_routes t))"
    using assms by (simp add: table_ok_def dict_ok_def)
  ultimately show ?thesis by (metis distinct_map)
qed

lemma set_Snapshot:
  assumes "table_ok t"
  shows "r \<in> set (Snapshot t) \<longleftrightarrow> Lookup t (SNI r) = Some r"
proof -
  have "r \<in> set (Snapshot t) \<longleftrightarrow> (\<exists>k. dict_get (t_routes t) k = Some r)"
    using assms by (force simp: Snapshot_def table_ok_def dict_get_iff)
  with table_key [OF assms] show ?thesis
    by (metis Lookup_def)
qed

lemma newly_quarantined_guard:
  "length (filter Quarantined rs) = 0 \<Longrightarrow> newly_quarantined prev (fst (load_routes rs)) = []"
  using load_key [of rs] dict_ok_load [of rs]
  by (fastforce simp: newly_quarantined_def dict_get_iff filter_empty_conv)

lemma quarantine_call_iff:
  assumes "table_ok t" and "t_onQuarantine t = Some True"
  shows "CallQuarantine h \<in> set (snd (snd (Update t rs v))) \<longleftrightarrow>
      ToLower h = h \<and> (\<exists>old r. Lookup t h = Some old \<and> \<not> Quarantined old
        \<and> Lookup (fst (Update t rs v)) h = Some r \<and> Quarantined r)"
proof (cases "t_version t = v \<and> v \<noteq> []")
  case True
  then show ?thesis by (auto simp: Update_stale)
next
  case False
  let ?q = "newly_quarantined (t_routes t) (fst (load_routes rs))"
  have "CallQuarantine h \<in> set (snd (snd (Update t rs v))) \<longleftrightarrow> CallQuarantine h \<in> set ?q"
    using False assms newly_quarantined_guard [of rs "t_routes t"]
    by (auto simp: Update_fresh(3) set_newly_retired table_ok_def)
  also have "\<dots> \<longleftrightarrow> ToLower h = h \<and> (\<exists>old r. Lookup t h = Some old \<and> \<not> Quarantined old
      \<and> Lookup (fst (Update t rs v)) h = Some r \<and> Quarantined r)"
    using False table_key_lower [OF assms(1)]
    by (auto simp: set_newly_quarantined(1) [OF dict_ok_load] Update_fresh(1) Lookup_def)
  finally show ?thesis .
qed

lemma quarantine_call_once:
  assumes "table_ok t"
  shows "count (mset (snd (snd (Update t rs v)))) (CallQuarantine h) \<le> 1"
proof -
  let ?m = "fst (load_routes rs)"
  have "count (mset (newly_quarantined (t_routes t) ?m)) (CallQuarantine h) \<le> 1"
    using distinct_newly_quarantined [OF dict_ok_load, of "t_routes t" rs]
    by (simp add: distinct_count_atmost_1)
  moreover have "count (mset (newly_retired (t_routes t) ?m)) (CallQuarantine h) = 0"
    using assms by (simp add: set_newly_retired table_ok_def count_eq_zero_iff)
  ultimately show ?thesis
    by (cases "t_version t = v \<and> v \<noteq> []") (auto simp: Update_stale Update_fresh(3) simp del: count_mset_0_iff)
qed

lemma retired_call_iff:
  assumes "table_ok t" and "t_onRetired t = Some True"
  shows "CallRetired old \<in> set (snd (snd (Update t rs v))) \<longleftrightarrow>
     fst (snd (Update t rs v)) \<and> Lookup t (SNI old) = Some old
       \<and> retires old (Lookup (fst (Update t rs v)) (SNI old))"
proof (cases "t_version t = v \<and> v \<noteq> []")
  case True
  then show ?thesis by (simp add: Update_stale)
next
  case False
  have ok: "dict_ok (t_routes t)" using assms(1) by (simp add: table_ok_def)
  have key: "dict_get (t_routes t) k = Some old \<Longrightarrow> k = ToLower (SNI old)" for k
    by (rule table_key [OF assms(1)])
  have "CallRetired old \<in> set (snd (snd (Update t rs v))) \<longleftrightarrow>
      CallRetired old \<in> set (newly_retired (t_routes t) (fst (load_routes rs)))"
    using False assms(2) by (auto simp: Update_fresh(3) set_newly_quarantined(2) [OF dict_ok_load])
  with False key show ?thesis
    by (auto simp: set_newly_retired(1) [OF ok] Update_fresh Lookup_def)
qed

lemma sort_key_map: "(\<And>x. f (g x) = f x) \<Longrightarrow> sort_key f (map g xs) = map g (sort_key f xs)"
proof -
  assume k: "\<And>x. f (g x) = f x"
  have "insort_key f (g x) (map g ys) = map g (insort_key f x ys)" for x ys
    by (induction ys) (simp_all add: k)
  then show ?thesis by (induction xs) simp_all
qed

definition apply_feeds :: "(Route list \<times> string) list \<Rightarrow> Table \<Rightarrow> Table" where
  "apply_feeds feeds t = fold (\<lambda>(rs, v) t. fst (Update t rs v)) feeds t"

lemma table_ok_apply_feeds: "table_ok t \<Longrightarrow> table_ok (apply_feeds feeds t)"
  unfolding apply_feeds_def by (induction feeds arbitrary: t) (auto intro: table_ok_Update)

section \<open>Properties\<close>

text \<open>
  C15. Every table that a sequence of feeds produces from the empty table satisfies the table
  invariant: one entry per lower-cased host, stored under the lower-cased name of its own
  route, with the counters bounding the entries.
\<close>

theorem table_invariant:
  "table_ok (apply_feeds feeds (OnRetired (OnQuarantine New q) r))"
  by (rule table_ok_apply_feeds) (simp add: table_ok_New)

text \<open>
  Lookup after an update: when the version is new (or empty) the last feed entry whose
  name agrees up to case decides and nothing of the previous table is left; when the version
  is the current one nothing changes and no hook is called.
\<close>

theorem Lookup_after_Update:
  "Lookup (fst (Update t rs v)) sni =
     (if t_version t = v \<and> v \<noteq> [] then Lookup t sni
      else find (\<lambda>r. ToLower (SNI r) = ToLower sni) (rev rs))
   \<and> fst (snd (Update t rs v)) = (\<not> (t_version t = v \<and> v \<noteq> []))
   \<and> (t_version t = v \<and> v \<noteq> [] \<longleftrightarrow> Update t rs v = (t, False, []))"
  by (cases "t_version t = v \<and> v \<noteq> []")
    (auto simp: Update_stale Update_fresh(2) Lookup_Update last_route_def dest: arg_cong [where f = "\<lambda>u. fst (snd u)"])

text \<open>
  C12. The quarantine notification of an update, exactly: with the hook installed, a host is
  announced if and only if it had an active route before and has a quarantined one now, each
  such host once; the source's extra condition that the feed counts a quarantined entry
  never suppresses a call.
\<close>

theorem Update_quarantine_calls:
  assumes "table_ok t" and "t_onQuarantine t = Some True"
  shows "(CallQuarantine h \<in> set (snd (snd (Update t rs v))) \<longleftrightarrow>
      ToLower h = h \<and> (\<exists>old r. Lookup t h = Some old \<and> \<not> Quarantined old
        \<and> Lookup (fst (Update t rs v)) h = Some r \<and> Quarantined r))
    \<and> count (mset (snd (snd (Update t rs v)))) (CallQuarantine h) \<le> 1"
  using quarantine_call_iff [OF assms] quarantine_call_once [OF assms(1)] by blast

definition plain_route :: "string \<Rightarrow> string \<Rightarrow> Route" where
  "plain_route sni up = \<lparr>SNI = sni, Upstream = up, AttestationPolicy = [], State = [],
     Canonical = [], Mode = [], ProxyProtocol = False\<rparr>"

definition sample_table :: Table where
  "sample_table = fst (Update (OnRetired (OnQuarantine New True) True)
     [plain_route ''A.x'' ''u1'', plain_route ''b.x'' ''u2''] ''v1'')"

lemma sample_table_ok: "table_ok sample_table"
  unfolding sample_table_def by (intro table_ok_Update) (simp add: table_ok_New)

theorem Update_quarantine_calls_witness:
  "CallQuarantine ''a.x'' \<in> set (snd (snd (Update sample_table
     [(plain_route ''a.X'' ''u1'')\<lparr>State := ''quarantined''\<rparr>] ''v2'')))"
proof -
  have hook: "t_onQuarantine sample_table = Some True"
    by (simp add: sample_table_def OnRetired_def OnQuarantine_def)
  have "ToLower ''a.x'' = ''a.x''" "\<not> Quarantined (plain_route ''A.x'' ''u1'')"
    "Lookup sample_table ''a.x'' = Some (plain_route ''A.x'' ''u1'')"
    "Lookup (fst (Update sample_table
       [(plain_route ''a.X'' ''u1'')\<lparr>State := ''quarantined''\<rparr>] ''v2'')) ''a.x'' =
     Some ((plain_route ''a.X'' ''u1'')\<lparr>State := ''quarantined''\<rparr>)"
    "Quarantined ((plain_route ''a.X'' ''u1'')\<lparr>State := ''quarantined''\<rparr>)"
    by code_simp+
  with Update_quarantine_calls [OF sample_table_ok hook, THEN conjunct1] show ?thesis
    by blast
qed

text \<open>
  C13. The retirement notification, exactly: with the hook installed, an update that changes
  the table reports an old route if and only if its host has no route any more or the
  upstream, the upstream name, the mode or the PROXY-header flag differ. A change of policy
  or state alone retires nothing.
\<close>

theorem Update_retired_calls:
  assumes "table_ok t" and "t_onRetired t = Some True" and "t_version t \<noteq> v"
  shows "CallRetired old \<in> set (snd (snd (Update t rs v))) \<longleftrightarrow>
     Lookup t (SNI old) = Some old
     \<and> (case Lookup (fst (Update t rs v)) (SNI old) of None \<Rightarrow> True | Some cur \<Rightarrow>
          \<not> (Upstream cur = Upstream old \<and> UpstreamName cur = UpstreamName old
             \<and> Mode cur = Mode old \<and> ProxyProtocol cur = ProxyProtocol old))"
  using assms by (auto simp: retired_call_iff retires_def Update_fresh(2) split: option.splits)

theorem Update_retired_calls_witness:
  "CallRetired (plain_route ''b.x'' ''u2'') \<in> set (snd (snd (Update sample_table
     [plain_route ''a.X'' ''u1''] ''v2'')))"
proof -
  have hook: "t_onRetired sample_table = Some True" and v: "t_version sample_table \<noteq> ''v2''"
    by (simp_all add: sample_table_def OnRetired_def OnQuarantine_def New_def Update_fresh)
  have "Lookup sample_table (SNI (plain_route ''b.x'' ''u2'')) = Some (plain_route ''b.x'' ''u2'')"
    "Lookup (fst (Update sample_table [plain_route ''a.X'' ''u1''] ''v2''))
       (SNI (plain_route ''b.x'' ''u2'')) = None"
    by code_simp+
  with Update_retired_calls [OF sample_table_ok hook v] show ?thesis
    by simp
qed

text \<open>
  The diagnostics snapshot holds exactly the routes in effect and is determined by the
  table: any list with the table's routes sorted by name, whatever sorting algorithm and
  whatever map iteration order produced it, is the snapshot.
\<close>

theorem Snapshot_determined:
  assumes "table_ok t" and "mset out = mset (map snd (t_routes t))" and "sorted (map SNI out)"
  shows "out = Snapshot t \<and> (\<forall>r. r \<in> set out \<longleftrightarrow> Lookup t (SNI r) = Some r)"
  using by_sni.srt_unique [OF assms(2,3) distinct_values [OF assms(1)]] set_Snapshot [OF assms(1)]
  by (simp add: Snapshot_def)

theorem Snapshot_determined_witness:
  "[plain_route ''A.x'' ''u1'', plain_route ''b.x'' ''u2''] = Snapshot sample_table"
proof -
  have "mset [plain_route ''A.x'' ''u1'', plain_route ''b.x'' ''u2''] =
      mset (map snd (t_routes sample_table))"
    "sorted (map SNI [plain_route ''A.x'' ''u1'', plain_route ''b.x'' ''u2''])"
    by code_simp+
  from Snapshot_determined [OF sample_table_ok this] show ?thesis by blast
qed

text \<open>
  The content version of a feed without a version does not see the canonical name, the
  mode and the PROXY-header flag: a feed that changes only those of its routes has the same
  version, and an update of a table at that version is dropped.
\<close>

theorem ComputeVersion_blind:
  assumes "t_version t = ComputeVersion rs"
  shows "Update t (map (\<lambda>r. r\<lparr>Canonical := c r, Mode := md r, ProxyProtocol := p r\<rparr>) rs)
      (ComputeVersion (map (\<lambda>r. r\<lparr>Canonical := c r, Mode := md r, ProxyProtocol := p r\<rparr>) rs))
    = (t, False, [])"
proof -
  let ?g = "\<lambda>r. r\<lparr>Canonical := c r, Mode := md r, ProxyProtocol := p r\<rparr>"
  have "version_entry (?g r) = version_entry r" for r
    by (simp add: version_entry_def)
  then have "ComputeVersion (map ?g rs) = ComputeVersion rs"
    by (simp add: ComputeVersion_def sort_key_map comp_def)
  moreover have "ComputeVersion rs \<noteq> []" by (simp add: ComputeVersion_def)
  ultimately show ?thesis using assms by (simp add: Update_stale)
qed

theorem ComputeVersion_blind_witness:
  "Update (fst (Update New [plain_route ''a.x'' ''u1''] (ComputeVersion [plain_route ''a.x'' ''u1''])))
     [(plain_route ''a.x'' ''u1'')\<lparr>Mode := ''direct''\<rparr>]
     (ComputeVersion [(plain_route ''a.x'' ''u1'')\<lparr>Mode := ''direct''\<rparr>])
   = (fst (Update New [plain_route ''a.x'' ''u1''] (ComputeVersion [plain_route ''a.x'' ''u1''])), False, [])"
proof -
  let ?t = "fst (Update New [plain_route ''a.x'' ''u1''] (ComputeVersion [plain_route ''a.x'' ''u1'']))"
  have "t_version ?t = ComputeVersion [plain_route ''a.x'' ''u1'']"
    by (simp add: Update_fresh(1) New_def ComputeVersion_def)
  from ComputeVersion_blind [OF this, where c = "\<lambda>_. []" and md = "\<lambda>_. ''direct''" and p = "\<lambda>_. False"] show ?thesis
    by (simp add: plain_route_def)
qed

end
