(* ===== verification/Tracker.thy ===== *)
theory Tracker
  imports Go_Strings "HOL-Library.Multiset"
begin

text \<open>
  \<^verbatim>\<open>internal/quarantine/tracker.go\<close>: the open traffic of every host, so that it can be cut when
  the host's route turns quarantined. A close function is represented by a value of the type
  of the client's choice that names what it closes (\<^typ>\<open>'c\<close>). The methods hold the mutex for
  their whole effect on the maps, so each is one step.
\<close>

section \<open>State and operations\<close>

record 'c tracked =
  tk_kind :: string
  tk_close :: 'c

record 'c Tracker =
  tr_next :: "64 word"
  tr_hosts :: "(string, (64 word, 'c tracked) dict) dict"

definition KindSplice :: string where "KindSplice = ''splice''"
definition KindHTTP :: string where "KindHTTP = ''http''"
definition KindWebSocket :: string where "KindWebSocket = ''websocket''"
definition KindSealedWS :: string where "KindSealedWS = ''sealed_ws''"

definition NewTracker :: "'c Tracker" where
  "NewTracker = \<lparr>tr_next = 0, tr_hosts = []\<rparr>"

text \<open>Indexing a Go map of maps at an absent key yields nil, which reads as an empty map.\<close>

definition host_map :: "'c Tracker \<Rightarrow> string \<Rightarrow> (64 word, 'c tracked) dict" where
  "host_map t h = (case dict_get (tr_hosts t) h of None \<Rightarrow> [] | Some m \<Rightarrow> m)"

text \<open>
  The closure that \<open>Track\<close> returns: the lower-cased host, the entry's identifier and the state
  of its \<^verbatim>\<open>sync.Once\<close>. A nil tracker returns a function that does nothing.
\<close>

datatype release = NoRelease | Release string "64 word" bool

definition Track ::
  "'c Tracker option \<Rightarrow> string \<Rightarrow> string \<Rightarrow> 'c \<Rightarrow> 'c Tracker option \<times> release" where
  "Track tr host kind closeFn = (case tr of None \<Rightarrow> (None, NoRelease) | Some t \<Rightarrow>
     let host = ToLower host;
         id = tr_next t + 1;
         m = host_map t host
     in (Some (t\<lparr>tr_next := id,
                 tr_hosts := dict_set (tr_hosts t) host
                   (dict_set m id \<lparr>tk_kind = kind, tk_close = closeFn\<rparr>)\<rparr>),
         Release host id False))"

definition do_release :: "'c Tracker \<Rightarrow> string \<Rightarrow> 64 word \<Rightarrow> 'c Tracker" where
  "do_release t host i = (case dict_get (tr_hosts t) host of None \<Rightarrow> t | Some m \<Rightarrow>
     let m' = dict_del m i;
         hosts = dict_set (tr_hosts t) host m'
     in t\<lparr>tr_hosts := (if length m' = 0 then dict_del hosts host else hosts)\<rparr>)"

definition run_release :: "'c Tracker option \<Rightarrow> release \<Rightarrow> 'c Tracker option \<times> release" where
  "run_release tr rel = (case rel of NoRelease \<Rightarrow> (tr, rel) | Release host i done_ \<Rightarrow>
     if done_ then (tr, rel)
     else (map_option (\<lambda>t. do_release t host i) tr, Release host i True))"

definition Open :: "'c Tracker option \<Rightarrow> string \<Rightarrow> nat" where
  "Open tr host = (case tr of None \<Rightarrow> 0 | Some t \<Rightarrow> length (host_map t (ToLower host)))"

text \<open>
  \<open>CutHost\<close>: the entries whose close functions are started, the counter increments (host and
  kind of each) and the number of entries cut.
\<close>

record 'c cut_result =
  cut_closed :: "'c list"
  cut_counted :: "(string \<times> string) list"
  cut_number :: nat

definition CutHost :: "'c Tracker option \<Rightarrow> string \<Rightarrow> 'c Tracker option \<times> 'c cut_result" where
  "CutHost tr host = (case tr of
     None \<Rightarrow> (None, \<lparr>cut_closed = [], cut_counted = [], cut_number = 0\<rparr>)
   | Some t \<Rightarrow>
       let host = ToLower host;
           m = host_map t host
       in (Some (t\<lparr>tr_hosts := dict_del (tr_hosts t) host\<rparr>),
           \<lparr>cut_closed = map (\<lambda>(id, e). tk_close e) m,
            cut_counted = map (\<lambda>(id, e). (host, tk_kind e)) m,
            cut_number = length m\<rparr>))"

section \<open>Invariant\<close>

text \<open>
  Keys are lower-cased, no host has an empty map, the identifiers in use are at most the
  counter and none is in use for two hosts.
\<close>

definition entry :: "'c Tracker \<Rightarrow> string \<Rightarrow> 64 word \<Rightarrow> 'c tracked option" where
  "entry t h i = dict_get (host_map t h) i"

definition tracker_ok :: "'c Tracker \<Rightarrow> bool" where
  "tracker_ok t \<longleftrightarrow>
     dict_ok (tr_hosts t)
     \<and> (\<forall>h m. dict_get (tr_hosts t) h = Some m \<longrightarrow> dict_ok m \<and> m \<noteq> [] \<and> ToLower h = h)
     \<and> (\<forall>h i e. entry t h i = Some e \<longrightarrow> i \<le> tr_next t)
     \<and> (\<forall>h h' i e e'. entry t h i = Some e \<longrightarrow> entry t h' i = Some e' \<longrightarrow> h = h')"

lemma tracker_okD:
  assumes "tracker_ok t"
  shows "dict_ok (tr_hosts t)"
    and "dict_get (tr_hosts t) h = Some m \<Longrightarrow> dict_ok m \<and> m \<noteq> [] \<and> ToLower h = h"
    and "entry t h i = Some e \<Longrightarrow> i \<le> tr_next t"
    and "entry t h i = Some e \<Longrightarrow> entry t h' i = Some e' \<Longrightarrow> h = h'"
  using assms unfolding tracker_ok_def by blast+

lemma tracker_okI:
  assumes "dict_ok (tr_hosts t)"
    and "\<And>h m. dict_get (tr_hosts t) h = Some m \<Longrightarrow> dict_ok m \<and> m \<noteq> [] \<and> ToLower h = h"
    and "\<And>h i e. entry t h i = Some e \<Longrightarrow> i \<le> tr_next t"
    and "\<And>h h' i e e'. entry t h i = Some e \<Longrightarrow> entry t h' i = Some e' \<Longrightarrow> h = h'"
  shows "tracker_ok t"
  using assms unfolding tracker_ok_def by blast

lemma host_map_ok: "tracker_ok t \<Longrightarrow> dict_ok (host_map t h)"
  by (auto simp: host_map_def dest: tracker_okD(2) split: option.split)

lemma entry_lower: "tracker_ok t \<Longrightarrow> entry t h i = Some e \<Longrightarrow> ToLower h = h"
  by (auto simp: entry_def host_map_def dest: tracker_okD(2) split: option.splits)

lemma tracker_ok_New: "tracker_ok NewTracker"
  by (rule tracker_okI) (simp_all add: NewTracker_def entry_def host_map_def)

section \<open>The operations on the abstract content\<close>

definition tracked_state :: "'c Tracker \<Rightarrow> string \<Rightarrow> string \<Rightarrow> 'c \<Rightarrow> 'c Tracker" where
  "tracked_state t host kind c = the (fst (Track (Some t) host kind c))"

definition cut_state :: "'c Tracker \<Rightarrow> string \<Rightarrow> 'c Tracker" where
  "cut_state t host = the (fst (CutHost (Some t) host))"

lemma Track_Some:
  "Track (Some t) host kind c =
     (Some (tracked_state t host kind c), Release (ToLower host) (tr_next t + 1) False)"
  by (simp add: Track_def tracked_state_def Let_def)

lemma CutHost_Some: "fst (CutHost (Some t) host) = Some (cut_state t host)"
  by (simp add: CutHost_def cut_state_def Let_def)

lemma host_map_Track:
  "host_map (tracked_state t host kind c) h =
     (if h = ToLower host then dict_set (host_map t h) (tr_next t + 1) \<lparr>tk_kind = kind, tk_close = c\<rparr>
      else host_map t h)"
  by (simp add: tracked_state_def Track_def Let_def host_map_def)

lemma entry_Track:
  "entry (tracked_state t host kind c) h i =
     (if h = ToLower host \<and> i = tr_next t + 1 then Some \<lparr>tk_kind = kind, tk_close = c\<rparr> else entry t h i)"
  by (simp add: entry_def host_map_Track)

lemma next_Track [simp]: "tr_next (tracked_state t host kind c) = tr_next t + 1"
  by (simp add: tracked_state_def Track_def Let_def)

lemma host_map_release:
  "host_map (do_release t host j) h = (if h = host then dict_del (host_map t h) j else host_map t h)"
  by (auto simp: do_release_def host_map_def Let_def split: option.split)

lemma entry_release:
  "entry (do_release t host j) h i = (if h = host \<and> i = j then None else entry t h i)"
  by (simp add: entry_def host_map_release)

lemma next_release [simp]: "tr_next (do_release t host j) = tr_next t"
  by (simp add: do_release_def Let_def split: option.split)

lemma host_map_cut:
  "host_map (cut_state t host) h = (if h = ToLower host then [] else host_map t h)"
  by (simp add: cut_state_def CutHost_def Let_def host_map_def)

lemma entry_cut: "entry (cut_state t host) h i = (if h = ToLower host then None else entry t h i)"
  by (simp add: entry_def host_map_cut)

lemma next_cut [simp]: "tr_next (cut_state t host) = tr_next t"
  by (simp add: cut_state_def CutHost_def Let_def)

section \<open>Preservation of the invariant\<close>

lemma word_le_Suc: "n + 1 \<noteq> 0 \<Longrightarrow> (i :: 64 word) \<le> n \<Longrightarrow> i \<le> n + 1 \<and> i \<noteq> n + 1"
proof -
  assume n: "n + 1 \<noteq> 0" and i: "i \<le> n"
  have "unat (n + 1) = unat n + 1"
    using n by (metis Suc_eq_plus1 add.commute unatSuc)
  with i show ?thesis
    by (simp add: word_le_nat_alt) (metis Suc_n_not_le_n add.commute plus_1_eq_Suc word_le_nat_alt)
qed

lemma tracker_ok_Track:
  assumes ok: "tracker_ok t" and room: "tr_next t + 1 \<noteq> 0"
  shows "tracker_ok (tracked_state t host kind c)"
proof (rule tracker_okI)
  note old = word_le_Suc [OF room tracker_okD(3) [OF ok]]
  fix h h' i e e'
  show "dict_ok (tr_hosts (tracked_state t host kind c))"
    using tracker_okD(1) [OF ok] by (simp add: tracked_state_def Track_def Let_def)
  show "dict_ok m \<and> m \<noteq> [] \<and> ToLower h = h"
    if "dict_get (tr_hosts (tracked_state t host kind c)) h = Some m" for m
    using that host_map_ok [OF ok] tracker_okD(2) [OF ok]
    by (auto simp: tracked_state_def Track_def Let_def split: if_splits)
  assume e: "entry (tracked_state t host kind c) h i = Some e"
  then show "i \<le> tr_next (tracked_state t host kind c)"
    using old by (auto simp: entry_Track split: if_splits)
  assume "entry (tracked_state t host kind c) h' i = Some e'"
  with e show "h = h'"
    using old tracker_okD(4) [OF ok] by (auto simp: entry_Track split: if_splits)
qed

lemma tracker_ok_release: "tracker_ok t \<Longrightarrow> tracker_ok (do_release t host j)"
proof (rule tracker_okI)
  assume ok: "tracker_ok t"
  fix h h' i e e'
  show "dict_ok (tr_hosts (do_release t host j))"
    using tracker_okD(1) [OF ok] by (simp add: do_release_def Let_def split: option.split)
  show "dict_ok m \<and> m \<noteq> [] \<and> ToLower h = h"
    if "dict_get (tr_hosts (do_release t host j)) h = Some m" for m
    using that tracker_okD(2) [OF ok]
    by (auto simp: do_release_def Let_def split: if_splits option.splits)
  assume e: "entry (do_release t host j) h i = Some e"
  then show "i \<le> tr_next (do_release t host j)"
    using tracker_okD(3) [OF ok] by (auto simp: entry_release split: if_splits)
  assume "entry (do_release t host j) h' i = Some e'"
  with e show "h = h'"
    using tracker_okD(4) [OF ok] by (auto simp: entry_release split: if_splits)
qed

lemma tracker_ok_cut: "tracker_ok t \<Longrightarrow> tracker_ok (cut_state t host)"
proof (rule tracker_okI)
  assume ok: "tracker_ok t"
  fix h h' i e e'
  show "dict_ok (tr_hosts (cut_state t host))"
    using tracker_okD(1) [OF ok] by (simp add: cut_state_def CutHost_def Let_def)
  show "dict_ok m \<and> m \<noteq> [] \<and> ToLower h = h"
    if "dict_get (tr_hosts (cut_state t host)) h = Some m" for m
    using that tracker_okD(2) [OF ok]
    by (auto simp: cut_state_def CutHost_def Let_def split: if_splits)
  assume e: "entry (cut_state t host) h i = Some e"
  then show "i \<le> tr_next (cut_state t host)"
    using tracker_okD(3) [OF ok] by (auto simp: entry_cut split: if_splits)
  assume "entry (cut_state t host) h' i = Some e'"
  with e show "h = h'"
    using tracker_okD(4) [OF ok] by (auto simp: entry_cut split: if_splits)
qed

section \<open>Properties\<close>

lemma entry_fresh: "tracker_ok t \<Longrightarrow> tr_next t + 1 \<noteq> 0 \<Longrightarrow> entry t h (tr_next t + 1) = None"
  using tracker_okD(3) [of t h "tr_next t + 1"] word_le_Suc [of "tr_next t" "tr_next t + 1"]
  by (cases "entry t h (tr_next t + 1)") auto

lemma entry_ext: "(\<And>h i. entry t h i = entry t' h i) \<Longrightarrow> entry t = entry t'"
  by (rule ext, rule ext)

lemma Open_Track:
  assumes "tracker_ok t" and "tr_next t + 1 \<noteq> 0"
  shows "Open (Some (tracked_state t host kind c)) h =
     Open (Some t) h + (if ToLower h = ToLower host then 1 else 0)"
  using entry_fresh [OF assms, of "ToLower host"]
  by (simp add: Open_def host_map_Track length_dict_set_new entry_def)

text \<open>
  C39. Tracking adds one entry for the lower-cased host and nothing else; its release function
  removes exactly that entry, a second call of it does nothing, and the release function of
  any earlier entry leaves it in place.
\<close>

theorem Track_release_exact:
  assumes "tracker_ok t" and "tr_next t + 1 \<noteq> 0"
  shows "\<exists>t1 t2 rel rel'. Track (Some t) host kind c = (Some t1, rel)
      \<and> tracker_ok t1 \<and> Open (Some t1) host = Open (Some t) host + 1
      \<and> entry t1 (ToLower host) (tr_next t1) = Some \<lparr>tk_kind = kind, tk_close = c\<rparr>
      \<and> run_release (Some t1) rel = (Some t2, rel') \<and> tracker_ok t2 \<and> entry t2 = entry t
      \<and> (\<forall>t3. run_release (Some t3) rel' = (Some t3, rel'))
      \<and> (\<forall>h j. j \<le> tr_next t \<longrightarrow>
           entry (do_release t1 h j) (ToLower host) (tr_next t1) = Some \<lparr>tk_kind = kind, tk_close = c\<rparr>)"
proof -
  let ?t1 = "tracked_state t host kind c" and ?id = "tr_next t + 1"
  let ?t2 = "do_release ?t1 (ToLower host) ?id"
  have "entry ?t2 = entry t"
    using entry_fresh [OF assms] by (intro entry_ext) (simp add: entry_release entry_Track)
  moreover have "run_release (Some ?t1) (Release (ToLower host) ?id False) =
      (Some ?t2, Release (ToLower host) ?id True)"
    by (simp add: run_release_def)
  moreover have "\<forall>t3. run_release (Some t3) (Release (ToLower host) ?id True) =
      (Some t3, Release (ToLower host) ?id True)"
    by (simp add: run_release_def)
  moreover have "\<forall>h j. j \<le> tr_next t \<longrightarrow> entry (do_release ?t1 h j) (ToLower host) (tr_next ?t1) =
      Some \<lparr>tk_kind = kind, tk_close = c\<rparr>"
    using word_le_Suc [OF assms(2)] by (auto simp: entry_release entry_Track)
  moreover have "entry ?t1 (ToLower host) (tr_next ?t1) = Some \<lparr>tk_kind = kind, tk_close = c\<rparr>"
    by (simp add: entry_Track)
  moreover have "Open (Some ?t1) host = Open (Some t) host + 1"
    by (simp add: Open_Track [OF assms])
  ultimately show ?thesis
    using Track_Some [of t host kind c] tracker_ok_Track [OF assms, of host kind c]
      tracker_ok_release [OF tracker_ok_Track [OF assms, of host kind c]] by blast
qed

theorem Track_release_exact_witness:
  "\<exists>t1 rel. Track (Some (NewTracker :: nat Tracker)) ''A.x'' KindSplice 7 = (Some t1, rel)
     \<and> Open (Some t1) ''a.X'' = 1"
proof -
  have "tr_next (NewTracker :: nat Tracker) + 1 \<noteq> 0" by (simp add: NewTracker_def)
  from Track_release_exact [OF tracker_ok_New this, of "''A.x''" KindSplice 7]
  obtain t1 rel where t1: "Track (Some (NewTracker :: nat Tracker)) ''A.x'' KindSplice 7 = (Some t1, rel)"
    and o: "Open (Some t1) ''A.x'' = Open (Some (NewTracker :: nat Tracker)) ''A.x'' + 1" by blast
  have "ToLower ''A.x'' = ToLower ''a.X''" by code_simp
  then have "Open (Some t1) ''a.X'' = Open (Some t1) ''A.x''" by (simp add: Open_def)
  with t1 o show ?thesis by (simp add: Open_def NewTracker_def host_map_def)
qed

lemma count_closed:
  assumes "dict_ok m"
  shows "count (mset (map (\<lambda>(i, e). tk_close e) m)) c = card {i. \<exists>e. dict_get m i = Some e \<and> tk_close e = c}"
proof -
  let ?f = "filter (\<lambda>(i, e). tk_close e = c) m"
  have "{i. \<exists>e. dict_get m i = Some e \<and> tk_close e = c} = set (map fst ?f)"
    using assms by (force simp: dict_get_iff)
  moreover have "distinct (map fst ?f)"
    using assms by (simp add: dict_ok_def distinct_map_filter)
  then have "card (set (map fst ?f)) = length ?f"
    by (simp only: distinct_card length_map)
  moreover have "count (mset (map (\<lambda>(i, e). tk_close e) m)) c = length ?f"
    by (induction m) auto
  ultimately show ?thesis by (simp only:)
qed

text \<open>
  C17. Cutting a host starts the close function of every entry open to it, once each, counts
  them all, leaves nothing tracked for that host under any spelling of its name and leaves
  every other host alone; a second cut finds nothing.
\<close>

theorem CutHost_exact:
  assumes "tracker_ok t"
  shows "\<exists>t' r. CutHost (Some t) host = (Some t', r) \<and> tracker_ok t'
      \<and> cut_number r = Open (Some t) host \<and> length (cut_counted r) = cut_number r
      \<and> (\<forall>c. count (mset (cut_closed r)) c = card {i. \<exists>e. entry t (ToLower host) i = Some e \<and> tk_close e = c})
      \<and> (\<forall>h i. entry t' h i = (if h = ToLower host then None else entry t h i))
      \<and> Open (Some t') host = 0
      \<and> CutHost (Some t') host = (Some t', \<lparr>cut_closed = [], cut_counted = [], cut_number = 0\<rparr>)"
proof -
  have ok: "dict_ok (host_map t h)" for h by (rule host_map_ok [OF assms])
  have "dict_del (tr_hosts (cut_state t host)) (ToLower host) = tr_hosts (cut_state t host)"
    by (simp add: cut_state_def CutHost_def Let_def dict_del_def AList.delete_eq)
  then have "CutHost (Some (cut_state t host)) host =
      (Some (cut_state t host), \<lparr>cut_closed = [], cut_counted = [], cut_number = 0\<rparr>)"
    by (simp add: CutHost_def Let_def host_map_cut)
  with tracker_ok_cut [OF assms, of host] entry_cut [of t host] count_closed [OF ok]
  show ?thesis
    by (intro exI [of _ "cut_state t host"] exI [of _ "snd (CutHost (Some t) host)"])
      (auto simp: CutHost_def Let_def cut_state_def Open_def host_map_cut entry_def host_map_def)
qed

theorem CutHost_exact_witness:
  "\<exists>t' r. CutHost (Some (tracked_state NewTracker ''a.x'' KindHTTP (3 :: nat))) ''A.X'' = (Some t', r)
     \<and> cut_number r = 1"
proof -
  have room: "tr_next (NewTracker :: nat Tracker) + 1 \<noteq> 0" by (simp add: NewTracker_def)
  have "ToLower ''a.x'' = ToLower ''A.X''" by code_simp
  then have "Open (Some (tracked_state NewTracker ''a.x'' KindHTTP (3 :: nat))) ''A.X'' = 1"
    by (simp add: Open_Track [OF tracker_ok_New room])
      (simp add: Open_def NewTracker_def host_map_def)
  with CutHost_exact [OF tracker_ok_Track [OF tracker_ok_New room, of "''a.x''" KindHTTP 3], of "''A.X''"]
  show ?thesis by metis
qed

end
