(* ===== verification/Go_Http.thy ===== *)
theory Go_Http
  imports Go_Strings "HOL-Library.Char_ord" "HOL-Library.List_Lexorder"
begin

text \<open>
  The parts of \<^verbatim>\<open>net/http\<close> and \<^verbatim>\<open>net/textproto\<close> that the gateway's handlers call: header maps
  with canonical keys and the request fields they read. A header maps a key to its list of
  values, as \<^verbatim>\<open>http.Header\<close> does.
\<close>

section \<open>Header keys\<close>

definition is_lower_letter :: "char \<Rightarrow> bool" where
  "is_lower_letter c = (97 \<le> (of_char c :: nat) \<and> (of_char c :: nat) \<le> 122)"

definition is_upper_letter :: "char \<Rightarrow> bool" where
  "is_upper_letter c = (65 \<le> (of_char c :: nat) \<and> (of_char c :: nat) \<le> 90)"

definition is_digit :: "char \<Rightarrow> bool" where
  "is_digit c = (48 \<le> (of_char c :: nat) \<and> (of_char c :: nat) \<le> 57)"

definition upper_char :: "char \<Rightarrow> char" where
  "upper_char c = (if is_lower_letter c then char_of ((of_char c :: nat) - 32) else c)"

text \<open>\<^verbatim>\<open>validHeaderFieldByte\<close>: the token characters of RFC 7230.\<close>

definition token_char :: "char \<Rightarrow> bool" where
  "token_char c = (is_lower_letter c \<or> is_upper_letter c \<or> is_digit c
     \<or> (of_char c :: nat) \<in> set [0x21, 0x23, 0x24, 0x25, 0x26, 0x27, 0x2A, 0x2B, 0x2D, 0x2E, 0x5E, 0x5F,
         0x60, 0x7C, 0x7E])"

fun canonical_from :: "bool \<Rightarrow> string \<Rightarrow> string" where
  "canonical_from upper [] = []"
| "canonical_from upper (c # cs) =
     (if upper then upper_char c else lower_char c) # canonical_from (c = CHR 0x2D) cs"

definition CanonicalHeaderKey :: "string \<Rightarrow> string" where
  "CanonicalHeaderKey k = (if list_all token_char k then canonical_from True k else k)"

text \<open>Facts on single characters, by their codes.\<close>

lemma dash_code: "c = CHR 0x2D \<longleftrightarrow> of_char c = (45 :: nat)"
proof
  assume "of_char c = (45 :: nat)"
  moreover have "of_char (CHR 0x2D) = (45 :: nat)" by simp
  ultimately show "c = CHR 0x2D" by (metis of_char_eq_iff)
qed simp

lemma upper_char_cases:
  obtains "upper_char c = c" | n where "of_char c = n" "97 \<le> n" "n \<le> (122 :: nat)"
    "of_char (upper_char c) = n - 32"
proof (cases "is_lower_letter c")
  case True
  define n where "n = (of_char c :: nat)"
  with True have "97 \<le> n" "n \<le> 122" by (simp_all add: is_lower_letter_def)
  moreover from this have "(n - 32) mod 256 = n - 32" by simp
  then have "of_char (upper_char c) = n - 32"
    using True by (simp add: upper_char_def n_def)
  ultimately show ?thesis using that(2) n_def by metis
next
  case False
  then show ?thesis using that(1) by (simp add: upper_char_def)
qed

lemma lower_char_cases:
  obtains "lower_char c = c" | n where "of_char c = n" "65 \<le> n" "n \<le> (90 :: nat)"
    "of_char (lower_char c) = n + 32"
proof (cases "65 \<le> (of_char c :: nat) \<and> (of_char c :: nat) \<le> 90")
  case True
  define n where "n = (of_char c :: nat)"
  with True have "65 \<le> n" "n \<le> 90" by simp_all
  moreover from this have "(n + 32) mod 256 = n + 32" by simp
  then have "of_char (lower_char c) = n + 32"
    using True by (simp add: lower_char_def n_def Let_def)
  ultimately show ?thesis using that(2) n_def by metis
next
  case False
  then show ?thesis using that(1) by (auto simp: lower_char_def Let_def)
qed

lemma upper_char_facts:
  "upper_char (upper_char c) = upper_char c" "token_char (upper_char c) = token_char c"
  "(upper_char c = CHR 0x2D) = (c = CHR 0x2D)"
proof -
  show "upper_char (upper_char c) = upper_char c"
  proof (cases c rule: upper_char_cases)
    case (2 n)
    then have "\<not> is_lower_letter (upper_char c)" by (auto simp: is_lower_letter_def)
    then show ?thesis by (simp add: upper_char_def [of "upper_char c"])
  qed simp
  show "token_char (upper_char c) = token_char c"
  proof (cases c rule: upper_char_cases)
    case (2 n)
    then have "is_upper_letter (upper_char c)" "is_lower_letter c"
      by (auto simp: is_upper_letter_def is_lower_letter_def)
    then show ?thesis by (simp add: token_char_def)
  qed simp
  show "(upper_char c = CHR 0x2D) = (c = CHR 0x2D)"
    by (cases c rule: upper_char_cases) (simp_all add: dash_code)
qed

lemma lower_char_facts:
  "lower_char (lower_char c) = lower_char c" "token_char (lower_char c) = token_char c"
  "(lower_char c = CHR 0x2D) = (c = CHR 0x2D)"
proof -
  show "lower_char (lower_char c) = lower_char c"
  proof (cases c rule: lower_char_cases)
    case (2 n)
    then show ?thesis by (simp add: lower_char_def [of "lower_char c"] Let_def)
  qed simp
  show "token_char (lower_char c) = token_char c"
  proof (cases c rule: lower_char_cases)
    case (2 n)
    then have "is_lower_letter (lower_char c)" "is_upper_letter c"
      by (auto simp: is_upper_letter_def is_lower_letter_def)
    then show ?thesis by (simp add: token_char_def)
  qed simp
  show "(lower_char c = CHR 0x2D) = (c = CHR 0x2D)"
    by (cases c rule: lower_char_cases) (simp_all add: dash_code)
qed

lemma canonical_from_idem: "canonical_from u (canonical_from u k) = canonical_from u k"
  by (induction u k rule: canonical_from.induct) (simp_all add: upper_char_facts lower_char_facts)

lemma canonical_from_token: "list_all token_char (canonical_from u k) = list_all token_char k"
  by (induction u k rule: canonical_from.induct) (simp_all add: upper_char_facts lower_char_facts)

lemma CanonicalHeaderKey_idem [simp]:
  "CanonicalHeaderKey (CanonicalHeaderKey k) = CanonicalHeaderKey k"
  by (simp add: CanonicalHeaderKey_def canonical_from_idem canonical_from_token)

section \<open>Header maps\<close>

type_synonym Header = "(string, string list) dict"

definition h_values :: "Header \<Rightarrow> string \<Rightarrow> string list" where
  "h_values h k = (case dict_get h (CanonicalHeaderKey k) of None \<Rightarrow> [] | Some vs \<Rightarrow> vs)"

definition h_get :: "Header \<Rightarrow> string \<Rightarrow> string" where
  "h_get h k = (case h_values h k of [] \<Rightarrow> [] | v # _ \<Rightarrow> v)"

definition h_set :: "Header \<Rightarrow> string \<Rightarrow> string \<Rightarrow> Header" where
  "h_set h k v = dict_set h (CanonicalHeaderKey k) [v]"

definition h_add :: "Header \<Rightarrow> string \<Rightarrow> string \<Rightarrow> Header" where
  "h_add h k v = dict_set h (CanonicalHeaderKey k) (h_values h k @ [v])"

definition h_del :: "Header \<Rightarrow> string \<Rightarrow> Header" where
  "h_del h k = dict_del h (CanonicalHeaderKey k)"

text \<open>The keys in sorted order, as \<^verbatim>\<open>sort.Strings\<close> over the map's keys gives them.\<close>

definition sorted_keys :: "Header \<Rightarrow> string list" where
  "sorted_keys h = sort (map fst h)"

lemma h_values_set [simp]:
  "h_values (h_set h k v) j = (if CanonicalHeaderKey j = CanonicalHeaderKey k then [v] else h_values h j)"
  by (simp add: h_values_def h_set_def)

lemma h_values_add [simp]:
  "h_values (h_add h k v) j =
     (if CanonicalHeaderKey j = CanonicalHeaderKey k then h_values h j @ [v] else h_values h j)"
  by (auto simp: h_values_def h_add_def)

lemma h_values_del [simp]:
  "h_values (h_del h k) j = (if CanonicalHeaderKey j = CanonicalHeaderKey k then [] else h_values h j)"
  by (simp add: h_values_def h_del_def)

lemma h_get_set [simp]:
  "h_get (h_set h k v) j = (if CanonicalHeaderKey j = CanonicalHeaderKey k then v else h_get h j)"
  by (simp add: h_get_def)

lemma h_get_del [simp]:
  "h_get (h_del h k) j = (if CanonicalHeaderKey j = CanonicalHeaderKey k then [] else h_get h j)"
  by (simp add: h_get_def)

lemma h_values_Nil [simp]: "h_values [] k = []"
  by (simp add: h_values_def)

lemma h_get_Nil [simp]: "h_get [] k = []"
  by (simp add: h_get_def)

lemma dict_ok_header [simp]:
  "dict_ok h \<Longrightarrow> dict_ok (h_set h k v)" "dict_ok h \<Longrightarrow> dict_ok (h_add h k v)"
  "dict_ok h \<Longrightarrow> dict_ok (h_del h k)"
  by (simp_all add: h_set_def h_add_def h_del_def)

lemma set_sorted_keys [simp]: "set (sorted_keys h) = fst ` set h"
  by (simp add: sorted_keys_def)

section \<open>Requests\<close>

text \<open>The fields of \<^verbatim>\<open>http.Request\<close> that the handlers read or set.\<close>

record Request =
  req_Method :: string
  req_Path :: string
  req_Scheme :: string
  req_URLHost :: string
  req_Host :: string
  req_Header :: Header
  req_RemoteAddr :: string
  req_Close :: bool

text \<open>What the gateway itself sends as an HTTP client, and what comes back.\<close>

record client_request =
  cr_method :: string
  cr_url :: string
  cr_header :: Header
  cr_body :: string

record client_response =
  rs_status :: nat
  rs_body :: string

section \<open>Status texts\<close>

text \<open>\<^verbatim>\<open>http.StatusText\<close>: the registered reason phrases; an unknown code has the empty one.\<close>

definition status_texts :: "(nat \<times> string) list" where
  "status_texts =
    [(100, ''Continue''), (101, ''Switching Protocols''), (102, ''Processing''),
     (103, ''Early Hints''), (200, ''OK''), (201, ''Created''), (202, ''Accepted''),
     (203, ''Non-Authoritative Information''), (204, ''No Content''), (205, ''Reset Content''),
     (206, ''Partial Content''), (207, ''Multi-Status''), (208, ''Already Reported''),
     (226, ''IM Used''), (300, ''Multiple Choices''), (301, ''Moved Permanently''),
     (302, ''Found''), (303, ''See Other''), (304, ''Not Modified''), (305, ''Use Proxy''),
     (307, ''Temporary Redirect''), (308, ''Permanent Redirect''), (400, ''Bad Request''),
     (401, ''Unauthorized''), (402, ''Payment Required''), (403, ''Forbidden''),
     (404, ''Not Found''), (405, ''Method Not Allowed''), (406, ''Not Acceptable''),
     (407, ''Proxy Authentication Required''), (408, ''Request Timeout''), (409, ''Conflict''),
     (410, ''Gone''), (411, ''Length Required''), (412, ''Precondition Failed''),
     (413, ''Request Entity Too Large''), (414, ''Request URI Too Long''),
     (415, ''Unsupported Media Type''), (416, ''Requested Range Not Satisfiable''),
     (417, ''Expectation Failed''), (418, ''I'' @ [CHR 0x27] @ ''m a teapot''),
     (421, ''Misdirected Request''), (422, ''Unprocessable Entity''), (423, ''Locked''),
     (424, ''Failed Dependency''), (425, ''Too Early''), (426, ''Upgrade Required''),
     (428, ''Precondition Required''), (429, ''Too Many Requests''),
     (431, ''Request Header Fields Too Large''), (451, ''Unavailable For Legal Reasons''),
     (500, ''Internal Server Error''), (501, ''Not Implemented''), (502, ''Bad Gateway''),
     (503, ''Service Unavailable''), (504, ''Gateway Timeout''),
     (505, ''HTTP Version Not Supported''), (506, ''Variant Also Negotiates''),
     (507, ''Insufficient Storage''), (508, ''Loop Detected''), (510, ''Not Extended''),
     (511, ''Network Authentication Required'')]"

definition StatusText :: "nat \<Rightarrow> string" where
  "StatusText code = (case map_of status_texts code of None \<Rightarrow> [] | Some t \<Rightarrow> t)"

section \<open>Reading a response head\<close>

text \<open>
  What a client does with the text the gateway writes (RFC 7230): lines end in CRLF, an empty
  line ends the head, a field line is a name, a colon, a space and a value. The theorems about
  the writers are stated through this reader.
\<close>

definition crlf :: string where
  "crlf = [CHR 0x0D, CHR 0x0A]"

fun until_crlf :: "string \<Rightarrow> (string \<times> string) option" where
  "until_crlf [] = None"
| "until_crlf [c] = None"
| "until_crlf (c # d # cs) =
     (if c = CHR 0x0D \<and> d = CHR 0x0A then Some ([], cs)
      else map_option (\<lambda>(l, r). (c # l, r)) (until_crlf (d # cs)))"

lemma until_crlf_shorter: "until_crlf s = Some (l, r) \<Longrightarrow> length r < length s"
proof (induction s arbitrary: l r rule: until_crlf.induct)
  case (3 c d cs)
  show ?case
  proof (cases "c = CHR 0x0D \<and> d = CHR 0x0A")
    case False
    with "3.prems" obtain l' where "until_crlf (d # cs) = Some (l', r)" by auto
    from "3.IH" [OF False this] show ?thesis by simp
  qed (use "3.prems" in simp)
qed simp_all

function head_lines :: "string \<Rightarrow> (string list \<times> string) option" where
  "head_lines s = (case until_crlf s of
     None \<Rightarrow> None
   | Some (l, r) \<Rightarrow> if l = [] then Some ([], r) else map_option (\<lambda>(ls, b). (l # ls, b)) (head_lines r))"
  by pat_completeness auto
termination
  by (relation "measure length") (auto dest: until_crlf_shorter)

declare head_lines.simps [simp del]

definition field_of :: "string \<Rightarrow> string \<times> string" where
  "field_of l = (takeWhile (\<lambda>c. c \<noteq> CHR 0x3A) l, drop 2 (dropWhile (\<lambda>c. c \<noteq> CHR 0x3A) l))"

text \<open>Status line, header fields in order, and the rest.\<close>

definition read_response :: "string \<Rightarrow> (string \<times> (string \<times> string) list \<times> string) option" where
  "read_response s = (case head_lines s of
     Some (st # fs, b) \<Rightarrow> Some (st, map field_of fs, b)
   | _ \<Rightarrow> None)"

definition unlines :: "string list \<Rightarrow> string" where
  "unlines ls = concat (map (\<lambda>l. l @ crlf) ls)"

definition field_line :: "string \<times> string \<Rightarrow> string" where
  "field_line kv = fst kv @ '': '' @ snd kv"

definition no_cr :: "string \<Rightarrow> bool" where
  "no_cr s = (CHR 0x0D \<notin> set s)"

definition field_ok :: "string \<times> string \<Rightarrow> bool" where
  "field_ok kv = (no_cr (fst kv) \<and> no_cr (snd kv) \<and> CHR 0x3A \<notin> set (fst kv))"

lemma until_crlf_line: "no_cr l \<Longrightarrow> until_crlf (l @ crlf @ rest) = Some (l, rest)"
proof (induction l)
  case Nil
  then show ?case by (simp add: crlf_def)
next
  case (Cons c l)
  then show ?case by (cases l) (auto simp: crlf_def no_cr_def)
qed

lemma head_lines_unlines:
  "list_all (\<lambda>l. l \<noteq> [] \<and> no_cr l) ls \<Longrightarrow> head_lines (unlines ls @ crlf @ body) = Some (ls, body)"
proof (induction ls)
  case Nil
  then show ?case
    using until_crlf_line [of "[]" body] by (simp add: unlines_def head_lines.simps no_cr_def)
next
  case (Cons l ls)
  then have "until_crlf (l @ crlf @ unlines ls @ crlf @ body) = Some (l, unlines ls @ crlf @ body)"
    by (intro until_crlf_line) simp
  with Cons show ?case
    by (subst head_lines.simps) (simp add: unlines_def)
qed

lemma takeWhile_dropWhile_sep:
  "c \<notin> set xs \<Longrightarrow> takeWhile (\<lambda>x. x \<noteq> c) (xs @ c # ys) = xs"
  "c \<notin> set xs \<Longrightarrow> dropWhile (\<lambda>x. x \<noteq> c) (xs @ c # ys) = c # ys"
  by (induction xs) auto

lemma field_of_line: "CHR 0x3A \<notin> set (fst kv) \<Longrightarrow> field_of (field_line kv) = kv"
  using takeWhile_dropWhile_sep [of "CHR 0x3A" "fst kv" "CHR 0x20 # snd kv"]
  by (cases kv) (simp add: field_of_def field_line_def)

lemma read_response_unlines:
  assumes "st \<noteq> []" and "no_cr st" and "list_all field_ok fs"
  shows "read_response (unlines (st # map field_line fs) @ crlf @ body) = Some (st, fs, body)"
proof -
  have "list_all (\<lambda>l. l \<noteq> [] \<and> no_cr l) (map field_line fs)"
    using assms(3) by (auto simp: list_all_iff field_ok_def field_line_def no_cr_def)
  moreover have "map field_of (map field_line fs) = fs"
    using assms(3) by (simp add: map_idI list_all_iff field_ok_def field_of_line)
  ultimately show ?thesis
    using assms(1,2) by (simp add: read_response_def head_lines_unlines)
qed

lemma no_cr_StatusText: "no_cr (StatusText code)"
proof -
  have all: "list_all (\<lambda>t. no_cr (snd t)) status_texts" by code_simp
  show ?thesis
  proof (cases "map_of status_texts code")
    case (Some t)
    with all show ?thesis
      using map_of_SomeD [OF Some] by (auto simp: StatusText_def list_all_iff)
  qed (simp add: StatusText_def no_cr_def)
qed

end
