(* ===== verification/Quarantine.thy ===== *)
theory Quarantine
  imports Go_Http
begin

text \<open>
  \<^verbatim>\<open>internal/quarantine/quarantine.go\<close>: the gateway's answer to a quarantined route. The HTTP
  refusal is the text written to the connection; the theorems read it back the way a client
  does.
\<close>

section \<open>Constants\<close>

definition ModeTerminate :: string where "ModeTerminate = ''terminate''"
definition ModeSplice :: string where "ModeSplice = ''splice''"
definition RetryAfterSeconds :: nat where "RetryAfterSeconds = 300"
definition ErrorCode :: string where "ErrorCode = ''enclave_quarantined''"

definition Message :: string where
  "Message = ''This application is temporarily unavailable while its enclave's clock is checked.''"

text \<open>A refusal is counted under the lower-cased host and the transport.\<close>

definition Refused :: "string \<Rightarrow> string \<Rightarrow> string \<times> string" where
  "Refused host mode = (ToLower host, mode)"

definition jsonBody :: string where
  "jsonBody = [CHR 0x7B, CHR 0x22] @ ''error'' @ [CHR 0x22, CHR 0x3A, CHR 0x22] @ ErrorCode
     @ [CHR 0x22, CHR 0x2C, CHR 0x22] @ ''message'' @ [CHR 0x22, CHR 0x3A, CHR 0x22] @ Message
     @ [CHR 0x22, CHR 0x7D, CHR 0x0A]"

definition htmlBody :: string where
  "htmlBody = ''<!DOCTYPE html>'' @ [CHR 0x0A]
     @ ''<html><head><meta charset='' @ [CHR 0x22] @ ''utf-8'' @ [CHR 0x22]
     @ ''><title>503 Service Unavailable</title></head>'' @ [CHR 0x0A]
     @ ''<body><h1>503 Service Unavailable</h1><p>'' @ Message
     @ ''</p><p>Please try again in a few minutes.</p></body>'' @ [CHR 0x0A] @ ''</html>''"

section \<open>Content negotiation\<close>

fun wants_html_loop :: "string list \<Rightarrow> bool" where
  "wants_html_loop [] = False"
| "wants_html_loop (part # parts) =
     (let mt = TrimSpace (takeWhile (\<lambda>c. c \<noteq> CHR '';'') part); t = ToLower mt in
      if t = ''text/html'' \<or> t = ''application/xhtml+xml'' then True
      else if t = [] \<or> t = ''*/*'' then wants_html_loop parts
      else False)"

definition WantsHTML :: "string \<Rightarrow> bool" where
  "WantsHTML accept = wants_html_loop (Split accept (CHR '',''))"

section \<open>The HTTP refusal\<close>

text \<open>Indexing the header map directly, at the key as it is.\<close>

definition key_values :: "Header \<Rightarrow> string \<Rightarrow> string list" where
  "key_values h k = (case dict_get h k of None \<Rightarrow> [] | Some vs \<Rightarrow> vs)"

definition write_extra_step :: "Header \<Rightarrow> string \<Rightarrow> string \<times> string \<Rightarrow> string \<times> string" where
  "write_extra_step extra k bv = (case bv of (b, vary) \<Rightarrow>
     let vs = key_values extra k in
     if CanonicalHeaderKey k = ''Vary'' then (b, Join vs '', '' @ '', '' @ vary)
     else (b @ concat (map (\<lambda>v. CanonicalHeaderKey k @ '': '' @ v @ crlf) vs), vary))"

definition refusal_content :: "Request option \<Rightarrow> string \<times> string" where
  "refusal_content req = (case req of
     Some r \<Rightarrow> if WantsHTML (h_get (req_Header r) ''Accept'')
               then (''text/html; charset=utf-8'', htmlBody) else (''application/json'', jsonBody)
   | None \<Rightarrow> (''application/json'', jsonBody))"

definition WriteHTTP :: "Request option \<Rightarrow> Header \<Rightarrow> string" where
  "WriteHTTP req extra = (case refusal_content req of (contentType, body) \<Rightarrow>
     case fold (write_extra_step extra) (sorted_keys extra) ([], ''Accept'') of (extras, vary) \<Rightarrow>
       ''HTTP/1.1 503 Service Unavailable'' @ crlf
       @ ''Content-Type: '' @ contentType @ crlf
       @ ''Content-Length: '' @ Itoa (length body) @ crlf
       @ ''Retry-After: '' @ Itoa RetryAfterSeconds @ crlf
       @ ''Cache-Control: no-store'' @ crlf
       @ extras
       @ ''Vary: '' @ vary @ crlf
       @ ''Connection: close'' @ crlf @ crlf
       @ (if req = None \<or> req_Method (the req) \<noteq> ''HEAD'' then body else []))"

section \<open>The TLS refusal\<close>

definition tlsAlert :: bytes where
  "tlsAlert = [0x15, 0x03, 0x03, 0x00, 0x02, 0x02, 0x28]"

definition WriteTLSAlert :: bytes where
  "WriteTLSAlert = tlsAlert"

section \<open>The fields of the refusal\<close>

definition extra_fields :: "Header \<Rightarrow> string list \<Rightarrow> (string \<times> string) list" where
  "extra_fields extra ks =
     concat (map (\<lambda>k. if CanonicalHeaderKey k = ''Vary'' then []
       else map (\<lambda>v. (CanonicalHeaderKey k, v)) (key_values extra k)) ks)"

definition vary_value :: "Header \<Rightarrow> string list \<Rightarrow> string \<Rightarrow> string" where
  "vary_value extra ks vary =
     fold (\<lambda>k v. if CanonicalHeaderKey k = ''Vary'' then Join (key_values extra k) '', '' @ '', '' @ v else v)
       ks vary"

lemma unlines_append [simp]: "unlines (xs @ ys) = unlines xs @ unlines ys"
  by (simp add: unlines_def)

lemma write_extra_step_eq:
  "write_extra_step extra k (b, vary) =
     (b @ unlines (map field_line (extra_fields extra [k])), vary_value extra [k] vary)"
  by (simp add: write_extra_step_def Let_def extra_fields_def vary_value_def
      unlines_def field_line_def comp_def)

lemma fold_write_extra:
  "fold (write_extra_step extra) ks (b, vary) =
     (b @ unlines (map field_line (extra_fields extra ks)), vary_value extra ks vary)"
proof (induction ks arbitrary: b vary)
  case Nil
  then show ?case by (simp add: unlines_def extra_fields_def vary_value_def)
next
  case (Cons k ks)
  have "extra_fields extra (k # ks) = extra_fields extra [k] @ extra_fields extra ks"
    "vary_value extra (k # ks) vary = vary_value extra ks (vary_value extra [k] vary)"
    by (simp_all add: extra_fields_def vary_value_def)
  with Cons show ?case by (simp add: write_extra_step_eq)
qed

definition refusal_fields :: "Request option \<Rightarrow> Header \<Rightarrow> (string \<times> string) list" where
  "refusal_fields req extra =
     [(''Content-Type'', fst (refusal_content req)),
      (''Content-Length'', Itoa (length (snd (refusal_content req)))),
      (''Retry-After'', Itoa RetryAfterSeconds), (''Cache-Control'', ''no-store'')]
     @ extra_fields extra (sorted_keys extra)
     @ [(''Vary'', vary_value extra (sorted_keys extra) ''Accept''), (''Connection'', ''close'')]"

lemma WriteHTTP_eq:
  "WriteHTTP req extra =
     unlines (''HTTP/1.1 503 Service Unavailable'' # map field_line (refusal_fields req extra)) @ crlf
     @ (if req = None \<or> req_Method (the req) \<noteq> ''HEAD'' then snd (refusal_content req) else [])"
  by (cases "refusal_content req")
    (simp add: WriteHTTP_def fold_write_extra refusal_fields_def unlines_def field_line_def)

lemma crlf_free_constants:
  "no_cr ''HTTP/1.1 503 Service Unavailable''" "no_cr (fst (refusal_content req))"
  by (auto simp: no_cr_def refusal_content_def split: option.split)

lemma format_base_no_cr: "1 < b \<Longrightarrow> b \<le> 16 \<Longrightarrow> no_cr (format_base b n)"
proof (induction b n rule: format_base.induct)
  case (1 b n)
  have "no_cr [digit_char d]" if "d < b" for d
  proof -
    from that "1.prems" have "hex_digit (digit_char d) = Some d"
      by (simp add: hex_digit_digit_char)
    moreover have "hex_digit (CHR 0x0D) = None" by (simp add: hex_digit_def)
    ultimately show ?thesis by (auto simp: no_cr_def)
  qed
  moreover have "n mod b < b" using "1.prems" by simp
  ultimately show ?case
    using 1 by (subst format_base.simps) (auto simp: no_cr_def)
qed

lemma Itoa_no_cr [simp]: "no_cr (Itoa n)"
  by (simp add: Itoa_def format_base_no_cr)

text \<open>Header names and values that cannot break out of their line.\<close>

definition safe_header :: "Header \<Rightarrow> bool" where
  "safe_header h = list_all (\<lambda>(k, vs). no_cr (CanonicalHeaderKey k) \<and> CHR 0x3A \<notin> set (CanonicalHeaderKey k)
     \<and> list_all no_cr vs) h"

lemma key_values_safe: "safe_header h \<Longrightarrow> v \<in> set (key_values h k) \<Longrightarrow> no_cr v"
proof -
  assume "safe_header h" and "v \<in> set (key_values h k)"
  then obtain vs where "(k, vs) \<in> set h" and "v \<in> set vs"
    by (cases "dict_get h k") (auto simp: key_values_def dest: dict_get_in)
  with \<open>safe_header h\<close> show "no_cr v"
    by (auto simp: safe_header_def list_all_iff)
qed

lemma Join_no_cr: "list_all no_cr vs \<Longrightarrow> no_cr sep \<Longrightarrow> no_cr (Join vs sep)"
  by (induction vs sep rule: Join.induct) (auto simp: no_cr_def)

lemma vary_value_no_cr: "safe_header h \<Longrightarrow> no_cr vary \<Longrightarrow> no_cr (vary_value h ks vary)"
proof (induction ks arbitrary: vary)
  case (Cons k ks)
  have "no_cr (Join (key_values h k) '', '' @ '', '' @ vary)"
    using Join_no_cr [of "key_values h k" "'', ''"] key_values_safe [OF Cons.prems(1)] Cons.prems(2)
    by (auto simp: no_cr_def list_all_iff)
  with Cons show ?case by (simp add: vary_value_def)
qed (simp add: vary_value_def)

lemma refusal_fields_ok: "safe_header extra \<Longrightarrow> list_all field_ok (refusal_fields req extra)"
proof -
  assume safe: "safe_header extra"
  have "no_cr (CanonicalHeaderKey k) \<and> CHR 0x3A \<notin> set (CanonicalHeaderKey k)"
    if "k \<in> fst ` set extra" for k
    using that safe by (auto simp: safe_header_def list_all_iff)
  then have "list_all field_ok (extra_fields extra (sorted_keys extra))"
    using key_values_safe [OF safe] by (auto simp: extra_fields_def list_all_iff field_ok_def)
  moreover have "no_cr (vary_value extra (sorted_keys extra) ''Accept'')"
    by (rule vary_value_no_cr [OF safe]) (simp add: no_cr_def)
  ultimately show ?thesis
    using crlf_free_constants(2) [of req] Itoa_no_cr
    by (simp add: refusal_fields_def field_ok_def) (simp add: no_cr_def)
qed

lemma extra_fields_mem:
  assumes "dict_ok extra" and "(k, vs) \<in> set extra" and "v \<in> set vs" and "CanonicalHeaderKey k \<noteq> ''Vary''"
  shows "(CanonicalHeaderKey k, v) \<in> set (extra_fields extra (sorted_keys extra))"
proof -
  have "key_values extra k = vs"
    using assms(1,2) by (simp add: key_values_def dict_get_iff [THEN iffD2])
  then show ?thesis using assms(2-4) by (force simp: extra_fields_def)
qed

section \<open>Properties\<close>

text \<open>
  The refusal a client reads: a 503 status, a Content-Length that is the length of the
  body that follows (or would follow, for HEAD, which gets none), Retry-After, no-store,
  Connection: close, the caller's extra headers under canonical names, and a body that is
  HTML exactly when the Accept header prefers HTML.
\<close>

theorem WriteHTTP_read:
  assumes "safe_header extra" and "dict_ok extra"
  shows "\<exists>fs body. read_response (WriteHTTP (Some r) extra) = Some (''HTTP/1.1 503 Service Unavailable'', fs, body)
    \<and> (\<exists>full. (''Content-Length'', Itoa (length full)) \<in> set fs
        \<and> full = (if WantsHTML (h_get (req_Header r) ''Accept'') then htmlBody else jsonBody)
        \<and> body = (if req_Method r = ''HEAD'' then [] else full))
    \<and> {(''Retry-After'', Itoa 300), (''Cache-Control'', ''no-store''), (''Connection'', ''close'')} \<subseteq> set fs
    \<and> (\<forall>k vs v. (k, vs) \<in> set extra \<longrightarrow> v \<in> set vs \<longrightarrow> CanonicalHeaderKey k \<noteq> ''Vary''
         \<longrightarrow> (CanonicalHeaderKey k, v) \<in> set fs)"
proof -
  have "read_response (WriteHTTP (Some r) extra) =
      Some (''HTTP/1.1 503 Service Unavailable'', refusal_fields (Some r) extra,
        if req_Method r \<noteq> ''HEAD'' then snd (refusal_content (Some r)) else [])"
    unfolding WriteHTTP_eq using crlf_free_constants(1) refusal_fields_ok [OF assms(1)]
    by (simp add: read_response_unlines)
  then show ?thesis
    using extra_fields_mem [OF assms(2)]
    by (auto simp: refusal_fields_def refusal_content_def RetryAfterSeconds_def)
qed

theorem WriteHTTP_read_witness:
  "\<exists>fs body. read_response (WriteHTTP (Some \<lparr>req_Method = ''GET'', req_Path = ''/'', req_Scheme = [],
       req_URLHost = [], req_Host = ''a.x'', req_Header = [], req_RemoteAddr = [], req_Close = False\<rparr>)
       [(''access-control-allow-origin'', [''https://a.x''])])
     = Some (''HTTP/1.1 503 Service Unavailable'', fs, body)
     \<and> (''Access-Control-Allow-Origin'', ''https://a.x'') \<in> set fs"
proof -
  let ?h = "[(''access-control-allow-origin'', [''https://a.x''])]"
  have c: "CanonicalHeaderKey ''access-control-allow-origin'' = ''Access-Control-Allow-Origin''"
    by code_simp
  have "safe_header ?h" "dict_ok ?h"
    by (simp_all add: safe_header_def c no_cr_def dict_ok_def)
  from WriteHTTP_read [OF this] c show ?thesis
    by fastforce
qed

text \<open>
  HTML is served exactly when the first media range that is neither empty nor \<^verbatim>\<open>*/*\<close> is one
  of the two HTML types, whatever its case, its parameters and the white space around it.
\<close>

theorem WantsHTML_first_choice:
  "WantsHTML accept =
     (case filter (\<lambda>t. t \<noteq> [] \<and> t \<noteq> ''*/*'')
        (map (\<lambda>part. ToLower (TrimSpace (takeWhile (\<lambda>c. c \<noteq> CHR '';'') part))) (Split accept (CHR '',''))) of
        [] \<Rightarrow> False | t # _ \<Rightarrow> t = ''text/html'' \<or> t = ''application/xhtml+xml'')"
proof -
  have "wants_html_loop parts =
     (case filter (\<lambda>t. t \<noteq> [] \<and> t \<noteq> ''*/*'')
        (map (\<lambda>part. ToLower (TrimSpace (takeWhile (\<lambda>c. c \<noteq> CHR '';'') part))) parts) of
        [] \<Rightarrow> False | t # _ \<Rightarrow> t = ''text/html'' \<or> t = ''application/xhtml+xml'')" for parts
    by (induction parts) (auto simp: Let_def)
  then show ?thesis by (simp add: WantsHTML_def)
qed

end
