(* ===== verification/Proxy_Protocol.thy ===== *)
theory Proxy_Protocol
  imports Prelude
begin

text \<open>
  \<^verbatim>\<open>internal/proxy/proxyproto.go\<close>: the PROXY protocol v2 header ahead of a direct splice. An
  address is a TCP address (an IP as a byte slice and a port) or something else; the round
  trip is stated against an independent reader of the header format.
\<close>

section \<open>Addresses\<close>

datatype addr = TCPAddr bytes int | OtherAddr string

definition v4InV6Prefix :: bytes where
  "v4InV6Prefix = replicate 10 0 @ [0xff, 0xff]"

text \<open>\<^verbatim>\<open>net.IP.To4\<close> and \<^verbatim>\<open>net.IP.To16\<close>; \<^term>\<open>None\<close> is the nil IP.\<close>

definition To4 :: "bytes \<Rightarrow> bytes option" where
  "To4 ip =
     (if length ip = 4 then Some ip
      else if length ip = 16 \<and> take 12 ip = v4InV6Prefix then Some (drop 12 ip)
      else None)"

definition To16 :: "bytes \<Rightarrow> bytes option" where
  "To16 ip =
     (if length ip = 4 then Some (v4InV6Prefix @ ip)
      else if length ip = 16 then Some ip
      else None)"

text \<open>Appending a nil slice appends nothing.\<close>

definition spread :: "bytes option \<Rightarrow> bytes" where
  "spread b = (case b of None \<Rightarrow> [] | Some bs \<Rightarrow> bs)"

section \<open>The header\<close>

definition proxyV2Signature :: bytes where
  "proxyV2Signature = [0x0D, 0x0A, 0x0D, 0x0A, 0x00, 0x0D, 0x0A, 0x51, 0x55, 0x49, 0x54, 0x0A]"

definition proxyV2Header :: "addr \<Rightarrow> addr \<Rightarrow> bytes option" where
  "proxyV2Header src dst = (case (src, dst) of
     (TCPAddr sip sport, TCPAddr dip dport) \<Rightarrow>
       let hdr = proxyV2Signature @ [0x21];
           s4 = To4 sip; d4 = To4 dip;
           (hdr, body) =
             (if s4 \<noteq> None \<and> d4 \<noteq> None then (hdr @ [0x11], spread s4 @ spread d4)
              else (hdr @ [0x21], spread (To16 sip) @ spread (To16 dip)));
           body = body @ PutUint16 (word_of_int sport);
           body = body @ PutUint16 (word_of_int dport);
           hdr = hdr @ PutUint16 (word_of_nat (length body))
       in Some (hdr @ body)
   | _ \<Rightarrow> None)"

section \<open>An independent reader\<close>

text \<open>
  The receiving side (the PROXY protocol specification, section 2.2): signature, version and
  command, family, length, then two addresses and two ports; what follows is the stream.
\<close>

definition read_proxyV2 :: "bytes \<Rightarrow> ((bytes \<times> 16 word) \<times> (bytes \<times> 16 word) \<times> bytes) option" where
  "read_proxyV2 bs =
     (if length bs < 16 \<or> take 12 bs \<noteq> proxyV2Signature \<or> bs ! 12 \<noteq> 0x21 then None
      else
        let n = unat (Uint16 (drop 14 bs));
            body = take n (drop 16 bs);
            rest = drop (16 + n) bs;
            a = (if bs ! 13 = 0x11 then 4 else if bs ! 13 = 0x21 then 16 else 0)
        in if a = 0 \<or> n < 2 * a + 4 \<or> length bs < 16 + n then None
           else Some ((take a body, Uint16 (drop (2 * a) body)),
                      (take a (drop a body), Uint16 (drop (2 * a + 2) body)), rest))"

definition ip_ok :: "bytes \<Rightarrow> bool" where
  "ip_ok ip = (length ip = 4 \<or> length ip = 16)"

lemma To4_length: "To4 ip = Some b \<Longrightarrow> length b = 4"
  by (auto simp: To4_def split: if_splits)

lemma To16_length: "To16 ip = Some b \<Longrightarrow> length b = 16"
  by (auto simp: To16_def v4InV6Prefix_def split: if_splits)

lemma To16_some: "ip_ok ip \<Longrightarrow> \<exists>b. To16 ip = Some b"
  by (auto simp: ip_ok_def To16_def)

lemma To16_To4: "To4 ip = Some b \<Longrightarrow> To16 b = To16 ip"
proof -
  assume b: "To4 ip = Some b"
  show ?thesis
  proof (cases "length ip = 4")
    case False
    with b have "length ip = 16" "take 12 ip = v4InV6Prefix" "b = drop 12 ip"
      by (auto simp: To4_def split: if_splits)
    then show ?thesis
      by (simp add: To16_def) (metis append_take_drop_id)
  qed (use b in \<open>simp add: To4_def\<close>)
qed

lemma To16_idem: "To16 ip = Some b \<Longrightarrow> To16 b = Some b"
  using To16_length [of ip b] by (simp add: To16_def)

text \<open>What the reader makes of a header built from two addresses of equal width.\<close>

lemma read_header:
  assumes "(f = 0x11 \<and> a = 4) \<or> (f = 0x21 \<and> a = 16)" and "length s = a" and "length d = a"
  shows "read_proxyV2 (((proxyV2Signature @ [0x21]) @ [f]) @ PutUint16 (word_of_nat (2 * a + 4))
      @ ((s @ d) @ PutUint16 p) @ PutUint16 q @ rest) = Some ((s, p), (d, q), rest)"
proof -
  define bs where "bs = ((proxyV2Signature @ [0x21]) @ [f]) @ PutUint16 (word_of_nat (2 * a + 4))
      @ ((s @ d) @ PutUint16 p) @ PutUint16 q @ rest"
  define body where "body = s @ d @ PutUint16 p @ PutUint16 q"
  have n: "unat (Uint16 (drop 14 bs)) = 2 * a + 4"
    using assms(1) by (auto simp: bs_def proxyV2Signature_def unat_of_nat)
  have pre: "take 12 bs = proxyV2Signature" "bs ! 12 = 0x21" "bs ! 13 = f"
    by (simp_all add: bs_def proxyV2Signature_def nth_append)
  have split: "drop 16 bs = body @ rest" and len: "length body = 2 * a + 4"
    using assms(2,3) by (simp_all add: bs_def body_def proxyV2Signature_def)
  have "length bs = 16 + (2 * a + 4) + length rest"
    using assms(2,3) by (simp add: bs_def proxyV2Signature_def)
  then have long: "16 \<le> length bs" "\<not> length bs < 16 + (2 * a + 4)" by simp_all
  have "drop (2 * a + 4) (drop 16 bs) = rest" "take (2 * a + 4) (drop 16 bs) = body"
    using len by (simp_all add: split)
  then have rest: "take (2 * a + 4) (drop 16 bs) = body" "drop (16 + (2 * a + 4)) bs = rest"
    by (simp_all only: drop_drop add.commute)
  have parts: "take a body = s" "take a (drop a body) = d"
    "Uint16 (drop (2 * a) body) = p" "Uint16 (drop (2 * a + 2) body) = q"
    using assms(2,3) by (simp_all add: body_def)
  have "read_proxyV2 bs = Some ((s, p), (d, q), rest)"
    using assms(1)
  proof
    assume "f = 0x11 \<and> a = 4"
    with long n pre rest parts show ?thesis by (simp add: read_proxyV2_def Let_def)
  next
    assume "f = 0x21 \<and> a = 16"
    with long n pre rest parts show ?thesis by (simp add: read_proxyV2_def Let_def)
  qed
  then show ?thesis by (simp only: bs_def)
qed

section \<open>Properties\<close>

text \<open>
  The PROXY header round trip: for two TCP addresses with 4- or 16-byte IPs the receiver
  reads back both ports and both addresses (compared as 16-byte IPs, in 4-byte form exactly
  when both sides are IPv4), and the stream after the header is untouched. Any other address
  yields no header.
\<close>

theorem proxyV2Header_roundtrip:
  assumes "ip_ok sip" and "ip_ok dip"
  shows "\<exists>hdr s d. proxyV2Header (TCPAddr sip sport) (TCPAddr dip dport) = Some hdr
      \<and> read_proxyV2 (hdr @ stream) = Some ((s, word_of_int sport), (d, word_of_int dport), stream)
      \<and> To16 s = To16 sip \<and> To16 d = To16 dip
      \<and> (length s = 4 \<longleftrightarrow> To4 sip \<noteq> None \<and> To4 dip \<noteq> None)
      \<and> proxyV2Header (OtherAddr x) (TCPAddr dip dport) = None
      \<and> proxyV2Header (TCPAddr sip sport) (OtherAddr x) = None"
proof (cases "To4 sip \<noteq> None \<and> To4 dip \<noteq> None")
  case True
  then obtain s d where sd: "To4 sip = Some s" "To4 dip = Some d" by auto
  then have "length s = 4" "length d = 4" by (auto dest: To4_length)
  with sd read_header [where f = "0x11" and a = 4 and s = s and d = d and p = "word_of_int sport"
      and q = "word_of_int dport" and rest = stream]
    To16_To4 [OF sd(1)] To16_To4 [OF sd(2)]
  show ?thesis by (simp add: proxyV2Header_def Let_def spread_def)
next
  case False
  obtain s d where sd: "To16 sip = Some s" "To16 dip = Some d"
    using To16_some [OF assms(1)] To16_some [OF assms(2)] by auto
  then have "length s = 16" "length d = 16" by (auto dest: To16_length)
  with False sd read_header [where f = "0x21" and a = 16 and s = s and d = d and p = "word_of_int sport"
      and q = "word_of_int dport" and rest = stream]
    To16_idem [OF sd(1)] To16_idem [OF sd(2)]
  show ?thesis by (auto simp: proxyV2Header_def Let_def spread_def)
qed

theorem proxyV2Header_roundtrip_witness:
  "\<exists>hdr s d. proxyV2Header (TCPAddr [192, 0, 2, 1] 40000) (TCPAddr [10, 0, 0, 1] 443) = Some hdr
     \<and> read_proxyV2 (hdr @ [0x16]) = Some ((s, 40000), (d, 443), [0x16]) \<and> length s = 4"
  using proxyV2Header_roundtrip [of "[192, 0, 2, 1]" "[10, 0, 0, 1]" 40000 443 "[0x16]" "[]"]
  by (auto simp: ip_ok_def To4_def)

end
