(* ===== verification/Conn_Replay.thy ===== *)
theory Conn_Replay
  imports Prelude
begin

text \<open>
  Byte connections and the replaying wrapper \<^verbatim>\<open>prefixConn\<close>, of which the packages \<^verbatim>\<open>proxy\<close>,
  \<^verbatim>\<open>tunnel\<close> and \<^verbatim>\<open>terminate\<close> each have a copy. A connection delivers a finite list of segments,
  the last of which is followed by an error or an end of file (\<^term>\<open>None\<close>); a read asks for at
  most \<open>k\<close> bytes. The contract \<open>byte_source\<close> says that reads deliver the content in order, lose
  nothing and get to its end: enough reads of a positive size return all of it. It is shown of a segmented connection, and of each wrapper over any source.
\<close>

section \<open>Segmented connections\<close>

type_synonym segments = "bytes list"

definition seg_read :: "nat \<Rightarrow> segments \<Rightarrow> (bytes \<times> segments) option" where
  "seg_read k ss = (case ss of
     [] \<Rightarrow> None
   | s # ss' \<Rightarrow> Some (take k s, if length s \<le> k then ss' else drop k s # ss'))"

section \<open>The three wrappers\<close>

record 'c prefixConn =
  pc_conn :: 'c
  pc_buf :: bytes

text \<open>\<^verbatim>\<open>proxy.prefixConn\<close>.\<close>

definition NewPrefixConn :: "'c \<Rightarrow> bytes \<Rightarrow> 'c prefixConn" where
  "NewPrefixConn conn buf = \<lparr>pc_conn = conn, pc_buf = buf\<rparr>"

definition proxy_prefixConn_Read ::
  "(nat \<Rightarrow> 'c \<Rightarrow> (bytes \<times> 'c) option) \<Rightarrow> nat \<Rightarrow> 'c prefixConn \<Rightarrow> (bytes \<times> 'c prefixConn) option" where
  "proxy_prefixConn_Read rd k c =
     (if length (pc_buf c) > 0 then
        let n = min k (length (pc_buf c))
        in Some (take n (pc_buf c), c\<lparr>pc_buf := drop n (pc_buf c)\<rparr>)
      else (case rd k (pc_conn c) of
        None \<Rightarrow> None
      | Some (b, conn') \<Rightarrow> Some (b, c\<lparr>pc_conn := conn'\<rparr>)))"

text \<open>\<^verbatim>\<open>tunnel.prefixConn\<close>.\<close>

definition tunnel_prefixConn_Read ::
  "(nat \<Rightarrow> 'c \<Rightarrow> (bytes \<times> 'c) option) \<Rightarrow> nat \<Rightarrow> 'c prefixConn \<Rightarrow> (bytes \<times> 'c prefixConn) option" where
  "tunnel_prefixConn_Read rd k c =
     (if length (pc_buf c) > 0 then
        let n = min k (length (pc_buf c))
        in Some (take n (pc_buf c), c\<lparr>pc_buf := drop n (pc_buf c)\<rparr>)
      else (case rd k (pc_conn c) of
        None \<Rightarrow> None
      | Some (b, conn') \<Rightarrow> Some (b, c\<lparr>pc_conn := conn'\<rparr>)))"

text \<open>\<^verbatim>\<open>terminate.prefixConn\<close>, whose constructor copies the buffer.\<close>

definition newPrefixConn :: "'c \<Rightarrow> bytes \<Rightarrow> 'c prefixConn" where
  "newPrefixConn conn buf = \<lparr>pc_conn = conn, pc_buf = take (length buf) buf\<rparr>"

definition terminate_prefixConn_Read ::
  "(nat \<Rightarrow> 'c \<Rightarrow> (bytes \<times> 'c) option) \<Rightarrow> nat \<Rightarrow> 'c prefixConn \<Rightarrow> (bytes \<times> 'c prefixConn) option" where
  "terminate_prefixConn_Read rd k c =
     (if length (pc_buf c) > 0 then
        let n = min k (length (pc_buf c))
        in Some (take n (pc_buf c), c\<lparr>pc_buf := drop n (pc_buf c)\<rparr>)
      else (case rd k (pc_conn c) of
        None \<Rightarrow> None
      | Some (b, conn') \<Rightarrow> Some (b, c\<lparr>pc_conn := conn'\<rparr>)))"

lemma prefixConn_copies_agree:
  "tunnel_prefixConn_Read = proxy_prefixConn_Read"
  "terminate_prefixConn_Read = proxy_prefixConn_Read"
  by (intro ext; simp add: tunnel_prefixConn_Read_def terminate_prefixConn_Read_def
      proxy_prefixConn_Read_def)+

section \<open>The contract of a byte source\<close>

text \<open>A sequence of reads with the given sizes, stopping at the first error.\<close>

fun reads :: "(nat \<Rightarrow> 'c \<Rightarrow> (bytes \<times> 'c) option) \<Rightarrow> nat list \<Rightarrow> 'c \<Rightarrow> bytes \<times> 'c" where
  "reads rd [] c = ([], c)"
| "reads rd (k # ks) c = (case rd k c of
     None \<Rightarrow> ([], c)
   | Some (b, c') \<Rightarrow> (case reads rd ks c' of (bs, c'') \<Rightarrow> (b @ bs, c'')))"

locale byte_source =
  fixes rd :: "nat \<Rightarrow> 'c \<Rightarrow> (bytes \<times> 'c) option" and content :: "'c \<Rightarrow> bytes" and left :: "'c \<Rightarrow> nat"
  assumes rd_content: "rd k c = Some (b, c') \<Longrightarrow> b @ content c' = content c"
    and rd_bound: "rd k c = Some (b, c') \<Longrightarrow> length b \<le> k"
    and rd_more: "content c \<noteq> [] \<Longrightarrow> rd k c \<noteq> None"
    and rd_progress: "rd k c = Some (b, c') \<Longrightarrow> 0 < k \<Longrightarrow> left c' < left c"
begin

lemma reads_content: "reads rd ks c = (bs, c') \<Longrightarrow> bs @ content c' = content c"
proof (induction ks arbitrary: c bs)
  case (Cons k ks)
  then show ?case
    by (cases "rd k c") (auto split: prod.splits dest!: rd_content)
qed simp

lemma reads_prefix: "fst (reads rd ks c) = take (length (fst (reads rd ks c))) (content c)"
proof -
  obtain bs c' where r: "reads rd ks c = (bs, c')" by fastforce
  then have "content c = bs @ content c'" using reads_content by metis
  with r show ?thesis by simp
qed

text \<open>Enough reads of a positive size return the whole content.\<close>

lemma reads_all: "left c \<le> length ks \<Longrightarrow> list_all (\<lambda>k. 0 < k) ks \<Longrightarrow> fst (reads rd ks c) = content c"
proof (induction ks arbitrary: c)
  case Nil
  have "content c = []"
  proof (rule ccontr)
    assume "content c \<noteq> []"
    then obtain b c' where "rd 1 c = Some (b, c')" using rd_more by fastforce
    with rd_progress [OF this] Nil show False by simp
  qed
  then show ?case by simp
next
  case (Cons k ks)
  show ?case
  proof (cases "rd k c")
    case None
    then have "content c = []" using rd_more by blast
    with None show ?thesis by simp
  next
    case (Some bc)
    then obtain b c' where bc: "rd k c = Some (b, c')" by (cases bc) simp
    with rd_progress [OF bc] Cons.prems have "left c' \<le> length ks" "list_all (\<lambda>k. 0 < k) ks" by simp_all
    from Cons.IH [OF this] bc rd_content [OF bc] show ?thesis by (simp add: case_prod_unfold)
  qed
qed

lemma prefix_content:
  assumes "proxy_prefixConn_Read rd k p = Some (b, p')"
  shows "b @ pc_buf p' @ content (pc_conn p') = pc_buf p @ content (pc_conn p)"
  using assms rd_content
  by (auto simp: proxy_prefixConn_Read_def Let_def split: if_splits option.splits)

lemma prefix_bound: "proxy_prefixConn_Read rd k p = Some (b, p') \<Longrightarrow> length b \<le> k"
  using rd_bound by (auto simp: proxy_prefixConn_Read_def Let_def split: if_splits option.splits)

lemma prefix_more:
  assumes "pc_buf p @ content (pc_conn p) \<noteq> []"
  shows "proxy_prefixConn_Read rd k p \<noteq> None"
proof (cases "pc_buf p")
  case Nil
  with assms have "rd k (pc_conn p) \<noteq> None" by (intro rd_more) simp
  with Nil show ?thesis by (auto simp: proxy_prefixConn_Read_def)
qed (simp add: proxy_prefixConn_Read_def Let_def)

lemma prefix_progress:
  "proxy_prefixConn_Read rd k p = Some (b, p') \<Longrightarrow> 0 < k \<Longrightarrow>
   length (pc_buf p') + left (pc_conn p') < length (pc_buf p) + left (pc_conn p)"
  using rd_progress by (auto simp: proxy_prefixConn_Read_def Let_def split: if_splits option.splits)

lemma prefixed_source:
  "byte_source (proxy_prefixConn_Read rd) (\<lambda>p. pc_buf p @ content (pc_conn p)) (\<lambda>p. length (pc_buf p) + left (pc_conn p))"
  by unfold_locales (erule prefix_content, erule prefix_bound, erule prefix_more, erule (1) prefix_progress)

end

text \<open>
  A segmented connection is a byte source, and so is every wrapper over it; the wrapper
  delivers its buffer first.
\<close>

interpretation seg: byte_source seg_read concat "\<lambda>ss. sum_list (map (\<lambda>s. Suc (length s)) ss)"
  by unfold_locales (auto simp: seg_read_def split: list.splits if_splits)

interpretation proxy_conn: byte_source "proxy_prefixConn_Read seg_read"
  "\<lambda>p. pc_buf p @ concat (pc_conn p)" "\<lambda>p. length (pc_buf p) + sum_list (map (\<lambda>s. Suc (length s)) (pc_conn p))"
  by (rule seg.prefixed_source)

interpretation tunnel_conn: byte_source "tunnel_prefixConn_Read seg_read"
  "\<lambda>p. pc_buf p @ concat (pc_conn p)" "\<lambda>p. length (pc_buf p) + sum_list (map (\<lambda>s. Suc (length s)) (pc_conn p))"
  unfolding prefixConn_copies_agree by (rule seg.prefixed_source)

interpretation terminate_conn: byte_source "terminate_prefixConn_Read seg_read"
  "\<lambda>p. pc_buf p @ concat (pc_conn p)" "\<lambda>p. length (pc_buf p) + sum_list (map (\<lambda>s. Suc (length s)) (pc_conn p))"
  unfolding prefixConn_copies_agree by (rule seg.prefixed_source)

end
