(* ===== verification/Tunnel.thy ===== *)
theory Tunnel
  imports Go_Http Conn_Replay "HOL-Library.Multiset"
begin

text \<open>
  Package \<^verbatim>\<open>internal/tunnel\<close>: upstream names, the registry of live enclave sessions, stream
  opening with its preamble, the upstream dialer, and the acceptor that authenticates an
  enclave's outbound connection. The yamux session library, TLS, the management service and
  JSON decoding are outside the repository: a session is a value of an arbitrary type
  (\<^typ>\<open>'s\<close>), and what those libraries return is an input of the operation that calls them.
\<close>

section \<open>Constants and upstream names\<close>

definition ALPN :: string where "ALPN = ''privasys-tunnel/1''"
definition tunnel_Path :: string where "tunnel_Path = ''/__privasys/tunnel''"
definition UpgradeProtocol :: string where "UpgradeProtocol = ''privasys-tunnel/1''"
definition UpstreamPrefix :: string where "UpstreamPrefix = ''tunnel:''"
definition preambleVersion :: byte where "preambleVersion = 1"
definition maxPreambleField :: nat where "maxPreambleField = 256"
definition maxRequestBody :: nat where "maxRequestBody = push_bit 10 16"

definition EnclaveID :: "string \<Rightarrow> string \<times> bool" where
  "EnclaveID upstream =
     (if \<not> HasPrefix upstream UpstreamPrefix then ([], False)
      else let i = TrimPrefix upstream UpstreamPrefix in (i, i \<noteq> []))"

section \<open>The registry\<close>

text \<open>
  An entry is a pointer in the source and is removed by pointer comparison; \<open>en_ptr\<close> is that
  identity and \<open>rg_alloc\<close> the supply of fresh pointers. \<open>rg_active\<close> is the gauge
  \<^verbatim>\<open>gateway_tunnel_sessions_active\<close>.
\<close>

record 's entry =
  en_ptr :: nat
  en_sess :: 's
  en_at :: int

record 's Registry =
  rg_sessions :: "(string, 's entry list) dict"
  rg_alloc :: nat
  rg_active :: int

definition NewRegistry :: "'s Registry" where
  "NewRegistry = \<lparr>rg_sessions = [], rg_alloc = 0, rg_active = 0\<rparr>"

definition sessions_of :: "'s Registry \<Rightarrow> string \<Rightarrow> 's entry list" where
  "sessions_of r e = (case dict_get (rg_sessions r) e of None \<Rightarrow> [] | Some l \<Rightarrow> l)"

text \<open>\<open>Register\<close> returns the pointer its removal function compares with.\<close>

definition Register :: "'s Registry \<Rightarrow> string \<Rightarrow> 's \<Rightarrow> int \<Rightarrow> 's Registry \<times> nat" where
  "Register r enclaveID sess now =
     (let e = \<lparr>en_ptr = rg_alloc r, en_sess = sess, en_at = now\<rparr>
      in (r\<lparr>rg_sessions := dict_set (rg_sessions r) enclaveID (sessions_of r enclaveID @ [e]),
            rg_alloc := rg_alloc r + 1, rg_active := rg_active r + 1\<rparr>,
          en_ptr e))"

fun remove_entry :: "nat \<Rightarrow> 's entry list \<Rightarrow> 's entry list" where
  "remove_entry p [] = []"
| "remove_entry p (x # xs) = (if en_ptr x = p then xs else x # remove_entry p xs)"

definition unregister :: "'s Registry \<Rightarrow> string \<Rightarrow> nat \<Rightarrow> 's Registry" where
  "unregister r enclaveID p =
     (let l = remove_entry p (sessions_of r enclaveID)
      in r\<lparr>rg_sessions := (if length l = 0 then dict_del (rg_sessions r) enclaveID
                           else dict_set (rg_sessions r) enclaveID l),
           rg_active := rg_active r - 1\<rparr>)"

definition Connected :: "'s Registry \<Rightarrow> nat" where
  "Connected r = length (rg_sessions r)"

text \<open>\<open>pick\<close>: the loop keeps the newest entry whose session is not closed.\<close>

definition pick_step :: "('s \<Rightarrow> bool) \<Rightarrow> 's entry \<Rightarrow> 's entry option \<Rightarrow> 's entry option" where
  "pick_step closed e best =
     (if closed (en_sess e) then best
      else case best of None \<Rightarrow> Some e | Some b \<Rightarrow> if en_at b < en_at e then Some e else best)"

definition pick :: "('s \<Rightarrow> bool) \<Rightarrow> 's Registry \<Rightarrow> string \<Rightarrow> 's option" where
  "pick closed r enclaveID =
     map_option en_sess (fold (pick_step closed) (sessions_of r enclaveID) None)"

section \<open>Streams\<close>

definition preamble :: "string \<Rightarrow> bytes" where
  "preamble clientAddr =
     (let a = (if length clientAddr > maxPreambleField then take maxPreambleField clientAddr else clientAddr)
      in preambleVersion # PutUint16 (word_of_nat (length a)) @ bytes_of_string a)"

datatype tunnel_error = ErrNoTunnel | OpenStreamError | ContextDone | PreambleError | DialTCPError

datatype stream_open = StreamOpened | StreamFailed | StreamTimeout

text \<open>
  \<open>Open\<close>: the counter label, whether a stream that was opened is closed again, and the
  result: an error, or the session whose stream carries the preamble that was written.
\<close>

record 's open_result =
  or_count :: string
  or_closed :: bool
  or_value :: "tunnel_error + 's \<times> bytes"

definition Registry_Open ::
  "('s \<Rightarrow> bool) \<Rightarrow> 's Registry \<Rightarrow> string \<Rightarrow> string \<Rightarrow> stream_open \<Rightarrow> bool \<Rightarrow> 's open_result" where
  "Registry_Open closed r enclaveID clientAddr opened write_ok =
     (case pick closed r enclaveID of
        None \<Rightarrow> \<lparr>or_count = ''no_tunnel'', or_closed = False, or_value = Inl ErrNoTunnel\<rparr>
      | Some sess \<Rightarrow> (case opened of
          StreamFailed \<Rightarrow> \<lparr>or_count = ''open_error'', or_closed = False, or_value = Inl OpenStreamError\<rparr>
        | StreamTimeout \<Rightarrow> \<lparr>or_count = ''open_timeout'', or_closed = True, or_value = Inl ContextDone\<rparr>
        | StreamOpened \<Rightarrow>
            if \<not> write_ok
            then \<lparr>or_count = ''preamble_error'', or_closed = True, or_value = Inl PreambleError\<rparr>
            else \<lparr>or_count = ''ok'', or_closed = False, or_value = Inr (sess, preamble clientAddr)\<rparr>))"

text \<open>
  \<open>DialUpstream\<close>: a tunnel stream or a TCP connection to the upstream address. The dialer's
  registry may be nil.
\<close>

datatype 's dialed = TunnelStream 's bytes | TCPConn string

definition DialUpstream ::
  "('s \<Rightarrow> bool) \<Rightarrow> 's Registry option \<Rightarrow> string \<Rightarrow> string \<Rightarrow> stream_open \<Rightarrow> bool \<Rightarrow> (string \<Rightarrow> bool)
     \<Rightarrow> tunnel_error + 's dialed" where
  "DialUpstream closed reg upstream clientAddr opened write_ok tcp_ok =
     (case EnclaveID upstream of (i, ok) \<Rightarrow>
        if ok then (case reg of
            None \<Rightarrow> Inl ErrNoTunnel
          | Some r \<Rightarrow> (case or_value (Registry_Open closed r i clientAddr opened write_ok) of
              Inl err \<Rightarrow> Inl err
            | Inr (s, pre) \<Rightarrow> Inr (TunnelStream s pre)))
        else if tcp_ok upstream then Inr (TCPConn upstream) else Inl DialTCPError)"

text \<open>
  What a component dials with: TCP, the default, or \<open>DialUpstream\<close> of a \<open>Dialer\<close> that holds a pointer to
  a registry.
\<close>

datatype dialer = DialTCP | DialRegistry nat

definition run_dialer ::
  "('s \<Rightarrow> bool) \<Rightarrow> (nat \<Rightarrow> 's Registry) \<Rightarrow> dialer \<Rightarrow> string \<Rightarrow> string \<Rightarrow> stream_open \<Rightarrow> bool \<Rightarrow> (string \<Rightarrow> bool)
     \<Rightarrow> tunnel_error + 's dialed" where
  "run_dialer closed regs d upstream clientAddr opened write_ok tcp_ok =
     (case d of
        DialTCP \<Rightarrow> if tcp_ok upstream then Inr (TCPConn upstream) else Inl DialTCPError
      | DialRegistry r \<Rightarrow> DialUpstream closed (Some (regs r)) upstream clientAddr opened write_ok tcp_ok)"

section \<open>Properties of the registry\<close>

definition registry_ok :: "'s Registry \<Rightarrow> bool" where
  "registry_ok r \<longleftrightarrow>
     dict_ok (rg_sessions r) \<and> (\<forall>e l. dict_get (rg_sessions r) e = Some l \<longrightarrow> l \<noteq> [])
     \<and> (\<forall>e. distinct (map en_ptr (sessions_of r e)))
     \<and> (\<forall>e. \<forall>x \<in> set (sessions_of r e). en_ptr x < rg_alloc r)"

lemma sessions_of_Register:
  "sessions_of (fst (Register r e s now)) k =
     (if k = e then sessions_of r e @ [\<lparr>en_ptr = rg_alloc r, en_sess = s, en_at = now\<rparr>] else sessions_of r k)"
  by (simp add: Register_def Let_def sessions_of_def)

lemma sessions_of_unregister:
  "sessions_of (unregister r e p) k = (if k = e then remove_entry p (sessions_of r e) else sessions_of r k)"
  by (auto simp: unregister_def Let_def sessions_of_def)

lemma remove_entry_eq:
  "distinct (map en_ptr l) \<Longrightarrow> remove_entry p l = filter (\<lambda>x. en_ptr x \<noteq> p) l"
proof (induction l)
  case (Cons x l)
  then have "filter (\<lambda>y. en_ptr y \<noteq> en_ptr x) l = l"
    by (intro filter_True) (metis distinct.simps(2) imageI list.simps(9) list.set_map)
  with Cons show ?case by auto
qed simp

lemma registry_ok_New: "registry_ok NewRegistry"
  by (simp add: registry_ok_def NewRegistry_def sessions_of_def)

lemma registry_ok_Register: "registry_ok r \<Longrightarrow> registry_ok (fst (Register r e s now))"
proof -
  assume ok: "registry_ok r"
  have "dict_ok (rg_sessions (fst (Register r e s now)))"
    using ok by (simp add: registry_ok_def Register_def Let_def)
  moreover have "l \<noteq> []" if "dict_get (rg_sessions (fst (Register r e s now))) k = Some l" for k l
    using that ok by (auto simp: registry_ok_def Register_def Let_def split: if_splits)
  moreover have "rg_alloc (fst (Register r e s now)) = rg_alloc r + 1"
    by (simp add: Register_def Let_def)
  ultimately show ?thesis
    using ok unfolding registry_ok_def [of "fst (Register r e s now)"]
    by (auto simp: sessions_of_Register registry_ok_def less_Suc_eq) (metis less_irrefl)
qed

lemma registry_ok_unregister: "registry_ok r \<Longrightarrow> registry_ok (unregister r e p)"
proof -
  assume ok: "registry_ok r"
  have "dict_ok (rg_sessions (unregister r e p))"
    using ok by (simp add: registry_ok_def unregister_def Let_def)
  moreover have "l \<noteq> []" if "dict_get (rg_sessions (unregister r e p)) k = Some l" for k l
    using that ok by (auto simp: registry_ok_def unregister_def Let_def split: if_splits)
  moreover have "rg_alloc (unregister r e p) = rg_alloc r"
    by (simp add: unregister_def Let_def)
  ultimately show ?thesis
    using ok unfolding registry_ok_def [of "unregister r e p"]
    by (auto simp: sessions_of_unregister registry_ok_def remove_entry_eq distinct_map_filter)
qed

section \<open>Picking a session\<close>

lemma pick_fold:
  "fold (pick_step closed) l None = None \<longleftrightarrow> (\<forall>x \<in> set l. closed (en_sess x))"
  "fold (pick_step closed) l None = Some b \<Longrightarrow>
     b \<in> set l \<and> \<not> closed (en_sess b) \<and> (\<forall>x \<in> set l. closed (en_sess x) \<or> en_at x \<le> en_at b)"
proof (induction l arbitrary: b rule: rev_induct)
  case (snoc x l)
  let ?f = "fold (pick_step closed) l None"
  {
    case 1
    show ?case using snoc.IH(1) by (auto simp: pick_step_def [of closed x] split: option.split)
  next
    case 2
    show ?case
    proof (cases ?f)
      case None
      with 2 snoc.IH(1) show ?thesis by (auto simp: pick_step_def [of closed x] split: if_splits)
    next
      case (Some c)
      from snoc.IH(2) [OF Some] 2 Some show ?thesis
        by (auto simp: pick_step_def [of closed x] split: if_splits)
    qed
  }
qed simp_all

section \<open>The acceptor\<close>

text \<open>The two fields of a server \<^verbatim>\<open>tls.Config\<close> the gateway sets itself.\<close>

record tls_config =
  tc_NextProtos :: "string list"
  tc_MinVersion :: nat

definition VersionTLS12 :: nat where "VersionTLS12 = 0x0303"
definition VersionTLS13 :: nat where "VersionTLS13 = 0x0304"

definition NewAcceptor :: "tls_config \<Rightarrow> tls_config" where
  "NewAcceptor base = base\<lparr>tc_NextProtos := [ALPN], tc_MinVersion := VersionTLS13\<rparr>"

record AuthRequest =
  ar_Method :: string
  ar_Path :: string
  ar_Headers :: "(string, string) dict"
  ar_Body :: bytes
  ar_RemoteAddr :: string

definition auth_header_step :: "string \<times> string list \<Rightarrow> (string, string) dict \<Rightarrow> (string, string) dict" where
  "auth_header_step kv out = (case kv of (k, v) \<Rightarrow>
     case v of [] \<Rightarrow> out
     | v0 # _ \<Rightarrow> let ck = CanonicalHeaderKey k in
         if HasPrefix ck ''X-Enclave-'' then dict_set out ck v0 else out)"

definition authHeaders :: "Header \<Rightarrow> (string, string) dict" where
  "authHeaders h = fold auth_header_step h []"

definition tunnel_writeStatus :: "nat \<Rightarrow> string \<Rightarrow> string" where
  "tunnel_writeStatus code msg =
     ''HTTP/1.1 '' @ Itoa code @ '' '' @ StatusText code @ crlf
     @ ''Content-Type: text/plain'' @ crlf
     @ ''Content-Length: '' @ Itoa (length msg) @ crlf
     @ ''Connection: close'' @ crlf @ crlf @ msg"

text \<open>
  What the libraries deliver while one tunnel connection is served: the handshake and its
  protocol, the request (or an error) and its body as far as it can be read, the answer of the
  authorizer, whether the 101 could be written, the bytes still buffered behind the request
  and the yamux session made from the transport.
\<close>

record 's accept_env =
  ae_remote :: string
  ae_handshake :: bool
  ae_protocol :: string
  ae_request :: "Request option"
  ae_body :: bytes
  ae_body_error :: bool
  ae_authorize :: "AuthRequest \<Rightarrow> string option"
  ae_write101 :: bool
  ae_buffered :: bytes
  ae_session :: "'s option"
  ae_now :: int

datatype 's accept_event =
    CountSession string
  | WriteTLS string
  | AskAuthorizer AuthRequest
  | StartYamux bytes
  | Registered string 's
  | Unregistered string

definition switching_101 :: string where
  "switching_101 = ''HTTP/1.1 101 Switching Protocols'' @ crlf @ ''Upgrade: '' @ UpgradeProtocol @ crlf
     @ ''Connection: Upgrade'' @ crlf @ crlf"

text \<open>
  \<open>Handle\<close>: the events and the registry at the moment the session is live and after it ended;
  without a session both are the registry it started from.
\<close>

definition Acceptor_Handle ::
  "'s Registry \<Rightarrow> 's accept_env \<Rightarrow> 's accept_event list \<times> 's Registry \<times> 's Registry" where
  "Acceptor_Handle r env =
     (if \<not> ae_handshake env then ([CountSession ''tls_error''], r, r)
      else if ae_protocol env \<noteq> ALPN then ([CountSession ''alpn_mismatch''], r, r)
      else case ae_request env of
        None \<Rightarrow> ([CountSession ''bad_request''], r, r)
      | Some req \<Rightarrow>
          if req_Method req \<noteq> ''POST'' \<or> req_Path req \<noteq> tunnel_Path
             \<or> \<not> EqualFold (h_get (req_Header req) ''Upgrade'') UpgradeProtocol
          then ([CountSession ''bad_request'',
                 WriteTLS (tunnel_writeStatus 400
                   (''expected POST '' @ tunnel_Path @ '' with Upgrade: '' @ UpgradeProtocol))], r, r)
          else let body = take (maxRequestBody + 1) (ae_body env) in
          if ae_body_error env \<or> length body > maxRequestBody
          then ([CountSession ''bad_request'',
                 WriteTLS (tunnel_writeStatus 400 ''unreadable or oversized body'')], r, r)
          else
            let ar = \<lparr>ar_Method = req_Method req, ar_Path = req_Path req,
                      ar_Headers = authHeaders (req_Header req), ar_Body = body,
                      ar_RemoteAddr = ae_remote env\<rparr>;
                refuse = ([AskAuthorizer ar, CountSession ''unauthorized'',
                           WriteTLS (tunnel_writeStatus 403 ''tunnel not authorized'')], r, r)
            in case ae_authorize env ar of
              None \<Rightarrow> refuse
            | Some enclaveID \<Rightarrow>
                if enclaveID = [] then refuse
                else if \<not> ae_write101 env
                then ([AskAuthorizer ar, CountSession ''write_error''], r, r)
                else (case ae_session env of
                  None \<Rightarrow> ([AskAuthorizer ar, WriteTLS switching_101, StartYamux (ae_buffered env),
                           CountSession ''yamux_error''], r, r)
                | Some sess \<Rightarrow>
                    (case Register r enclaveID sess (ae_now env) of (r1, p) \<Rightarrow>
                       ([AskAuthorizer ar, WriteTLS switching_101, StartYamux (ae_buffered env),
                         CountSession ''ok'', Registered enclaveID sess, Unregistered enclaveID],
                        r1, unregister r1 enclaveID p))))"

section \<open>Authentication headers\<close>

definition canonical_header :: "Header \<Rightarrow> bool" where
  "canonical_header h = (dict_ok h \<and> list_all (\<lambda>(k, vs). CanonicalHeaderKey k = k) h)"

lemma auth_fold_other:
  "k \<notin> fst ` set h \<Longrightarrow> list_all (\<lambda>(k, vs). CanonicalHeaderKey k = k) h \<Longrightarrow>
     dict_get (fold auth_header_step h out) k = dict_get out k"
proof (induction h arbitrary: out)
  case (Cons kv h)
  obtain j vs where kv: "kv = (j, vs)" by (cases kv)
  with Cons.prems have "dict_get (auth_header_step kv out) k = dict_get out k"
    by (auto simp: auth_header_step_def Let_def split: list.split)
  with Cons show ?case by simp
qed simp

lemma auth_fold_get:
  assumes "canonical_header h"
  shows "dict_get (fold auth_header_step h out) k =
     (case dict_get h k of
        Some (v # vs) \<Rightarrow> if HasPrefix k ''X-Enclave-'' then Some v else dict_get out k
      | _ \<Rightarrow> dict_get out k)"
  using assms
proof (induction h arbitrary: out)
  case (Cons kv h)
  obtain j vs where kv: "kv = (j, vs)" by (cases kv)
  from Cons.prems have h: "canonical_header h" and j: "CanonicalHeaderKey j = j" "j \<notin> fst ` set h"
    by (auto simp: canonical_header_def dict_ok_def kv)
  have step: "auth_header_step kv out =
      (case vs of [] \<Rightarrow> out | v # _ \<Rightarrow> if HasPrefix j ''X-Enclave-'' then dict_set out j v else out)"
    by (simp add: auth_header_step_def kv j Let_def)
  show ?case
  proof (cases "k = j")
    case True
    have "dict_get (fold auth_header_step h (auth_header_step kv out)) j =
        dict_get (auth_header_step kv out) j"
      using j h by (intro auth_fold_other) (auto simp: canonical_header_def)
    moreover have "dict_get (kv # h) j = Some vs" by (simp add: kv dict_get_def)
    ultimately show ?thesis
      by (simp add: True step split: list.split)
  next
    case False
    then have "dict_get (auth_header_step kv out) k = dict_get out k"
      by (simp add: step split: list.split)
    with False Cons.IH [OF h] show ?thesis
      by (simp add: kv dict_get_def split: option.split list.split)
  qed
qed simp

section \<open>The management authorizer\<close>

text \<open>
  \<^verbatim>\<open>internal/tunnel/authz.go\<close>. The JSON codec, the construction of the request and the HTTP
  client are inputs: \<open>marshal\<close> the encoded request body, \<open>new_ok\<close> whether the request object could
  be built, \<open>transport\<close> the response, \<open>decode\<close> the \<^verbatim>\<open>enclave_id\<close> of a decoded response (empty when
  the field is absent).
\<close>

definition AuthorizePath :: string where
  "AuthorizePath = ''/api/v1/internal/tunnel/authorize''"

record MgmtAuthorizer =
  ma_url :: string
  ma_token :: string

definition NewMgmtAuthorizer :: "string \<Rightarrow> string \<Rightarrow> MgmtAuthorizer" where
  "NewMgmtAuthorizer mgmtURL token =
     \<lparr>ma_url = TrimRight mgmtURL (CHR ''/'') @ AuthorizePath, ma_token = token\<rparr>"

datatype authorize_error =
    MarshalError | NewRequestError | TransportError | AuthorizeStatus nat string | DecodeError | EmptyEnclaveID

definition authorize_request :: "MgmtAuthorizer \<Rightarrow> string \<Rightarrow> client_request" where
  "authorize_request m body =
     (let h = h_set [] ''Content-Type'' ''application/json'';
          h = (if ma_token m \<noteq> [] then h_set h ''Authorization'' (''Bearer '' @ ma_token m) else h)
      in \<lparr>cr_method = ''POST'', cr_url = ma_url m, cr_header = h, cr_body = body\<rparr>)"

definition Authorize ::
  "(AuthRequest \<Rightarrow> string option) \<Rightarrow> (string \<Rightarrow> bool) \<Rightarrow> (client_request \<Rightarrow> client_response option)
     \<Rightarrow> (string \<Rightarrow> string option) \<Rightarrow> MgmtAuthorizer \<Rightarrow> AuthRequest \<Rightarrow> authorize_error + string" where
  "Authorize marshal new_ok transport decode m ar =
     (case marshal ar of
        None \<Rightarrow> Inl MarshalError
      | Some body \<Rightarrow>
          if \<not> new_ok (ma_url m) then Inl NewRequestError
          else case transport (authorize_request m body) of
            None \<Rightarrow> Inl TransportError
          | Some resp \<Rightarrow>
              let raw = take 65536 (rs_body resp) in
              if rs_status resp \<noteq> 200 then Inl (AuthorizeStatus (rs_status resp) (TrimSpace raw))
              else case decode raw of
                None \<Rightarrow> Inl DecodeError
              | Some i \<Rightarrow> if i = [] then Inl EmptyEnclaveID else Inr i)"

section \<open>The abstract content of the registry\<close>

lemma Register_content:
  assumes "registry_ok r" and "Register r e s now = (r1, p)"
  shows "registry_ok r1"
    and "\<forall>k. sessions_of r1 k = sessions_of r k
          @ (if k = e then [\<lparr>en_ptr = p, en_sess = s, en_at = now\<rparr>] else [])"
    and "\<forall>k. sessions_of (unregister r1 e p) k = sessions_of r k"
    and "rg_active (unregister r1 e p) = rg_active r"
proof -
  have r1: "r1 = fst (Register r e s now)" and p: "p = rg_alloc r"
    using assms(2) by (auto simp: Register_def Let_def)
  show sess: "\<forall>k. sessions_of r1 k = sessions_of r k
      @ (if k = e then [\<lparr>en_ptr = p, en_sess = s, en_at = now\<rparr>] else [])"
    by (simp add: r1 p sessions_of_Register)
  have old: "en_ptr x \<noteq> p" if "x \<in> set (sessions_of r e)" for x
    using assms(1) that unfolding registry_ok_def p by (metis less_irrefl)
  show ok1: "registry_ok r1" by (simp add: r1 registry_ok_Register assms(1))
  then have "remove_entry p (sessions_of r1 e) = filter (\<lambda>x. en_ptr x \<noteq> p) (sessions_of r1 e)"
    by (intro remove_entry_eq) (simp add: registry_ok_def)
  then have "remove_entry p (sessions_of r1 e) = sessions_of r e"
    using old by (simp add: sess)
  then show "\<forall>k. sessions_of (unregister r1 e p) k = sessions_of r k"
    by (simp add: sessions_of_unregister sess)
  show "rg_active (unregister r1 e p) = rg_active r"
    by (simp add: unregister_def Let_def r1 Register_def)
qed

lemma sessions_of_unregister_ok:
  assumes "registry_ok r"
  shows "\<forall>k. sessions_of (unregister r e p) k =
      (if k = e then filter (\<lambda>x. en_ptr x \<noteq> p) (sessions_of r k) else sessions_of r k)"
  using assms by (simp add: sessions_of_unregister remove_entry_eq registry_ok_def)

lemma Connected_card:
  assumes "registry_ok r"
  shows "Connected r = card {k. sessions_of r k \<noteq> []}"
proof -
  have "sessions_of r k \<noteq> [] \<longleftrightarrow> dict_get (rg_sessions r) k \<noteq> None" for k
    using assms unfolding registry_ok_def sessions_of_def by (auto split: option.split)
  then have "{k. sessions_of r k \<noteq> []} = set (map fst (rg_sessions r))"
    by (auto simp only: dict_get_None_iff list.set_map)
  moreover have "card (set (map fst (rg_sessions r))) = length (map fst (rg_sessions r))"
    using assms unfolding registry_ok_def dict_ok_def by (intro distinct_card) blast
  ultimately show ?thesis by (simp add: Connected_def)
qed

definition read_preamble :: "bytes \<Rightarrow> (string \<times> bytes) option" where
  "read_preamble bs =
     (if length bs < 3 \<or> bs ! 0 \<noteq> 1 then None
      else let n = unat (Uint16 (drop 1 bs)) in
        if length bs < 3 + n then None
        else Some (string_of_bytes (take n (drop 3 bs)), drop (3 + n) bs))"

section \<open>Properties\<close>

text \<open>
  The session picked for an enclave is one of its registered sessions that is not closed,
  and no open one is newer; none is picked exactly when every registered session is closed.
\<close>

theorem pick_newest_live:
  "(pick closed r e = None \<longleftrightarrow> (\<forall>x \<in> set (sessions_of r e). closed (en_sess x)))
   \<and> (\<forall>s. pick closed r e = Some s \<longrightarrow>
        (\<exists>b \<in> set (sessions_of r e). en_sess b = s \<and> \<not> closed s
          \<and> (\<forall>x \<in> set (sessions_of r e). closed (en_sess x) \<or> en_at x \<le> en_at b)))"
  using pick_fold [of closed "sessions_of r e"] unfolding pick_def by (auto 0 3)

theorem pick_newest_live_witness:
  "pick (\<lambda>s. s = 2) (fst (Register (fst (Register (fst (Register NewRegistry ''e'' (1 :: nat) 10)) ''e'' 2 30))
     ''e'' 3 20)) ''e'' = Some 3"
proof -
  let ?r = "fst (Register (fst (Register (fst (Register NewRegistry ''e'' (1 :: nat) 10)) ''e'' 2 30)) ''e'' 3 20)"
  have l: "sessions_of ?r ''e'' = [\<lparr>en_ptr = 0, en_sess = 1, en_at = 10\<rparr>,
      \<lparr>en_ptr = 1, en_sess = 2, en_at = 30\<rparr>, \<lparr>en_ptr = 2, en_sess = 3, en_at = 20\<rparr>]"
    by (simp add: Register_def Let_def sessions_of_def NewRegistry_def)
  from pick_newest_live [of "\<lambda>s. s = 2" ?r "''e''"] show ?thesis
    unfolding l by (cases "pick (\<lambda>s. s = 2) ?r ''e''") auto
qed

text \<open>
  The registry against its abstract content: registering adds one session to its enclave's
  list and raises the gauge, the function it returns removes exactly that session again even
  after other sessions came and went, no enclave is left with an empty list, and the number of
  connected enclaves is the number with a session.
\<close>

theorem registry_exact:
  assumes "registry_ok r" and "Register r e s now = (r1, p)"
    and "registry_ok r2"
  shows "registry_ok r1 \<and> (\<forall>k. sessions_of r1 k = sessions_of r k
          @ (if k = e then [\<lparr>en_ptr = p, en_sess = s, en_at = now\<rparr>] else []))
    \<and> (\<forall>k. sessions_of (unregister r1 e p) k = sessions_of r k)
    \<and> rg_active (unregister r1 e p) = rg_active r
    \<and> registry_ok (unregister r2 e p)
    \<and> (\<forall>k. sessions_of (unregister r2 e p) k =
         (if k = e then filter (\<lambda>x. en_ptr x \<noteq> p) (sessions_of r2 k) else sessions_of r2 k))
    \<and> Connected r2 = card {k. sessions_of r2 k \<noteq> []}"
  using Register_content [OF assms(1,2)] registry_ok_unregister [OF assms(3)]
    sessions_of_unregister_ok [OF assms(3)] Connected_card [OF assms(3)] by blast

theorem registry_exact_witness:
  "Connected (fst (Register NewRegistry ''e'' (7 :: nat) 1)) =
     card {k. sessions_of (fst (Register NewRegistry ''e'' (7 :: nat) 1)) k \<noteq> []}"
proof -
  let ?r = "fst (Register NewRegistry ''e'' (7 :: nat) 1)"
  have "Register NewRegistry ''e'' (7 :: nat) 1 = (?r, 0)"
    by (simp add: NewRegistry_def Register_def Let_def)
  from registry_exact [OF registry_ok_New this registry_ok_Register [OF registry_ok_New, of "''e''" 7 1]]
  show ?thesis by blast
qed

text \<open>
  The stream preamble round trip: the enclave reads back version 1 and the client address,
  cut to 256 bytes, and the stream after the preamble is untouched.
\<close>

theorem preamble_roundtrip: "read_preamble (preamble a @ rest) = Some (take 256 a, rest)"
proof -
  define b where "b = take 256 a"
  have "length b \<le> 256" by (simp add: b_def)
  then have n: "unat (word_of_nat (length b) :: 16 word) = length b" by (simp add: unat_of_nat)
  have "preamble a = 1 # PutUint16 (word_of_nat (length b)) @ bytes_of_string b"
    by (auto simp: preamble_def Let_def b_def maxPreambleField_def preambleVersion_def)
  moreover have "read_preamble (1 # PutUint16 (word_of_nat (length b)) @ bytes_of_string b @ rest) = Some (b, rest)"
    by (simp add: read_preamble_def Let_def n numeral_3_eq_3 drop_Cons')
  ultimately show ?thesis by (simp add: b_def)
qed

text \<open>
  Only the enclave-authentication headers are forwarded to the authorizer: for a request
  header with canonical keys, the forwarded map has exactly the \<^verbatim>\<open>X-Enclave-\<close> keys that have a
  value, with their first value. In particular no bearer token is forwarded.
\<close>

theorem authHeaders_exact:
  assumes "canonical_header h"
  shows "dict_get (authHeaders h) k =
     (if HasPrefix k ''X-Enclave-'' then
        (case dict_get h k of Some (v # vs) \<Rightarrow> Some v | _ \<Rightarrow> None)
      else None)
    \<and> dict_get (authHeaders h) ''Authorization'' = None"
  using auth_fold_get [OF assms, of "[]"]
  by (auto simp: authHeaders_def HasPrefix_def split: option.split list.split)

theorem authHeaders_exact_witness:
  "dict_get (authHeaders [(''Authorization'', [''Bearer x'']), (''X-Enclave-Id'', [''e1''])]) ''X-Enclave-Id'' = Some ''e1''"
proof -
  have "canonical_header [(''Authorization'', [''Bearer x'']), (''X-Enclave-Id'', [''e1''])]"
    by code_simp
  from authHeaders_exact [OF this, of "''X-Enclave-Id''"] show ?thesis
    by (simp add: HasPrefix_def dict_get_def)
qed

text \<open>
  C33. A session is registered only for the enclave that the authorizer named: after a
  handshake that negotiated the tunnel protocol, for a POST with the upgrade header, on the
  exact body (at most 16 KiB) and authentication headers the enclave sent. While it is live
  the registry has one more session, that enclave's; when it ends the registry holds what it
  held before. On every other path the registry is untouched.
\<close>

theorem Acceptor_Handle_authorized:
  assumes "registry_ok r" and "Acceptor_Handle r env = (evs, live, final)"
  shows "(\<forall>k. sessions_of final k = sessions_of r k)
    \<and> (Registered e s \<in> set evs \<longrightarrow>
        ae_handshake env \<and> ae_protocol env = ALPN
        \<and> (\<exists>req ar. ae_request env = Some req \<and> AskAuthorizer ar \<in> set evs
            \<and> ae_authorize env ar = Some e \<and> e \<noteq> []
            \<and> ar_Method ar = ''POST'' \<and> ar_Path ar = tunnel_Path
            \<and> ar_Body ar = ae_body env \<and> length (ae_body env) \<le> 16384
            \<and> ar_Headers ar = authHeaders (req_Header req))
        \<and> (\<exists>x. en_sess x = s \<and> (\<forall>k. sessions_of live k =
             sessions_of r k @ (if k = e then [x] else []))))
    \<and> ((\<forall>e s. Registered e s \<notin> set evs) \<longrightarrow> live = r \<and> final = r)"
proof -
  have m: "maxRequestBody = 16384" by (simp add: maxRequestBody_def)
  have reg: "(\<forall>k. sessions_of (unregister r1 i p) k = sessions_of r k)
      \<and> (\<exists>x. en_sess x = s \<and> (\<forall>k. sessions_of r1 k = sessions_of r k @ (if k = i then [x] else [])))"
    if "Register r i s now = (r1, p)" for i s now r1 p
    using Register_content [OF assms(1) that] by fastforce
  show ?thesis
    using assms(2) unfolding Acceptor_Handle_def m
    by (auto simp del: append_assoc simp: Let_def split: if_splits option.splits prod.splits
        dest: reg [THEN conjunct1, rule_format] reg [THEN conjunct2])
qed

definition sample_accept :: "nat accept_env" where
  "sample_accept = \<lparr>ae_remote = ''10.0.0.9:5000'', ae_handshake = True, ae_protocol = ALPN,
     ae_request = Some \<lparr>req_Method = ''POST'', req_Path = tunnel_Path, req_Scheme = [], req_URLHost = [],
       req_Host = ''gw'', req_Header = [(''Upgrade'', [''Privasys-Tunnel/1'']), (''X-Enclave-Id'', [''e1''])],
       req_RemoteAddr = [], req_Close = False\<rparr>,
     ae_body = [1, 2], ae_body_error = False, ae_authorize = (\<lambda>_. Some ''e1''), ae_write101 = True,
     ae_buffered = [], ae_session = Some 5, ae_now = 0\<rparr>"

theorem Acceptor_Handle_authorized_witness:
  "\<exists>evs live final. Acceptor_Handle NewRegistry sample_accept = (evs, live, final)
     \<and> Registered ''e1'' 5 \<in> set evs \<and> ae_protocol sample_accept = ALPN"
proof -
  obtain evs live final where h: "Acceptor_Handle NewRegistry sample_accept = (evs, live, final)"
    by (metis prod.exhaust)
  have e: "EqualFold ''Privasys-Tunnel/1'' UpgradeProtocol" "CanonicalHeaderKey ''Upgrade'' = ''Upgrade''"
    by code_simp+
  have "Registered ''e1'' 5 \<in> set (fst (Acceptor_Handle NewRegistry sample_accept))"
    using e by (simp add: Acceptor_Handle_def sample_accept_def Let_def h_get_def h_values_def dict_get_def
        maxRequestBody_def Register_def)
  with Acceptor_Handle_authorized [OF registry_ok_New h, of "''e1''" 5] h show ?thesis
    by auto
qed

text \<open>
  The upstream decides the transport: for \<^verbatim>\<open>tunnel:<id>\<close> with a non-empty id no TCP connection
  is ever made, and a stream that is returned belongs to an open session registered for that
  id and starts with the preamble; every other upstream is dialed over TCP at its own address.
\<close>

theorem DialUpstream_transport:
  assumes "i \<noteq> []" and "\<not> HasPrefix up ''tunnel:''"
  shows "(\<forall>u. DialUpstream closed reg (''tunnel:'' @ i) addr opened write_ok tcp_ok \<noteq> Inr (TCPConn u))
    \<and> (\<forall>s pre. DialUpstream closed reg (''tunnel:'' @ i) addr opened write_ok tcp_ok = Inr (TunnelStream s pre) \<longrightarrow>
         pre = preamble addr \<and> \<not> closed s \<and> (\<exists>r. reg = Some r \<and> s \<in> en_sess ` set (sessions_of r i)))
    \<and> DialUpstream closed reg up addr opened write_ok tcp_ok =
         (if tcp_ok up then Inr (TCPConn up) else Inl DialTCPError)"
proof -
  have "EnclaveID (''tunnel:'' @ i) = (i, True)"
    using assms(1) by (simp add: EnclaveID_def UpstreamPrefix_def HasPrefix_def TrimPrefix_def)
  moreover have "EnclaveID up = ([], False)"
    using assms(2) by (simp add: EnclaveID_def UpstreamPrefix_def)
  moreover have "\<not> closed s \<and> s \<in> en_sess ` set (sessions_of r i)" if "pick closed r i = Some s" for r s
    using that pick_fold(2) [of closed "sessions_of r i"] by (auto simp: pick_def)
  ultimately show ?thesis
    unfolding DialUpstream_def Registry_Open_def
    by (auto split: option.splits stream_open.splits if_splits sum.splits)
qed

theorem DialUpstream_transport_witness:
  "DialUpstream (\<lambda>s :: nat. False) None ''10.0.0.1:443'' ''c'' StreamOpened True (\<lambda>u. True)
     = Inr (TCPConn ''10.0.0.1:443'')"
proof -
  have "\<not> HasPrefix ''10.0.0.1:443'' ''tunnel:''" "''e'' \<noteq> []" by (simp_all add: HasPrefix_def)
  with DialUpstream_transport [of "''e''" "''10.0.0.1:443''" "\<lambda>s :: nat. False" None] show ?thesis
    by (metis (full_types))
qed

end
