(* ===== verification/Proxy.thy ===== *)
theory Proxy
  imports Sni Route_Table Tracker Quarantine Proxy_Protocol Tunnel
begin

text \<open>
  \<^verbatim>\<open>internal/proxy/proxy.go\<close>: the per-connection handler of the L4 proxy. The handler is a
  function from the gateway's configuration and one connection's environment (the client's
  byte stream in segments, the route table at each of the two lookups, the outcome of the
  dial and of the writes) to the list of its observable effects, deferred calls included, in
  program order. Copying between the two spliced connections is a function of what the reads
  and writes return.
\<close>

section \<open>The gateway\<close>

text \<open>\<open>g_tracker\<close> is a pointer to the tracker.\<close>

record Gateway =
  g_listenAddr :: string
  g_dialTimeout :: int
  g_idleTimeout :: int
  g_buffer :: int
  g_fallbackTLS :: bool
  g_terminator :: bool
  g_tracker :: "nat option"
  g_tunnels :: bool
  g_dial :: dialer

definition New_Gateway :: "string \<Rightarrow> int \<Rightarrow> int \<Rightarrow> int \<Rightarrow> bool \<Rightarrow> bool \<Rightarrow> Gateway" where
  "New_Gateway listenAddr dialTimeout idleTimeout bufferSize terminator selfSigned_ok =
     \<lparr>g_listenAddr = listenAddr, g_dialTimeout = dialTimeout, g_idleTimeout = idleTimeout, g_buffer = bufferSize, g_fallbackTLS = selfSigned_ok,
      g_terminator = terminator, g_tracker = None, g_tunnels = False, g_dial = DialTCP\<rparr>"

text \<open>The length of the buffer a connection reads its ClientHello into; a negative one panics.\<close>

definition g_bufferSize :: "Gateway \<Rightarrow> nat" where
  "g_bufferSize g = nat (g_buffer g)"

definition SetTracker :: "nat \<Rightarrow> Gateway \<Rightarrow> Gateway" where
  "SetTracker t g = g\<lparr>g_tracker := Some t\<rparr>"

definition SetDialer :: "dialer \<Rightarrow> Gateway \<Rightarrow> Gateway" where
  "SetDialer d g = g\<lparr>g_dial := d\<rparr>"

definition SetTunnelAcceptor :: "Gateway \<Rightarrow> Gateway" where
  "SetTunnelAcceptor g = g\<lparr>g_tunnels := True\<rparr>"

section \<open>Reading the ClientHello\<close>

datatype hello_read =
    HelloReadError
  | HelloPanic
  | HelloParseError sni_error
  | Hello string "string list" bytes segments

text \<open>
  The read loop: each read delivers at most the room left in the buffer. Running out of
  segments is the read error (the peer closed, or the deadline passed).
\<close>

fun read_hello :: "nat \<Rightarrow> bytes \<Rightarrow> segments \<Rightarrow> hello_read" where
  "read_hello cap buf [] = HelloReadError"
| "read_hello cap buf (s # ss) =
     (let room = cap - length buf;
          buf' = buf @ take room s;
          rest = (if length s \<le> room then ss else drop room s # ss)
      in case ParseClientHello buf' of
           None \<Rightarrow> HelloPanic
         | Some (hostname, alpns, None) \<Rightarrow> Hello hostname alpns buf' rest
         | Some (_, _, Some err) \<Rightarrow>
             if err = ErrTruncated \<and> length buf' < cap then read_hello cap buf' ss
             else HelloParseError err)"

section \<open>Effects of a connection\<close>

datatype event =
    ActiveInc | ActiveDec | WgDone | CloseClient | CloseBackend
  | ConnError string
  | GoPanic
  | TunnelHandle bytes segments
  | TerminatorHandle bytes segments Route
  | WriteFallback string
  | CountRefused "string \<times> string"
  | WriteClient bytes
  | Dial string string
  | TrackConn string string
  | RunRelease
  | WriteUpstream bytes
  | SpliceConns segments

record conn_env =
  ce_segments :: segments
  ce_remote :: addr
  ce_local :: addr
  ce_remoteString :: string
  ce_table :: Table
  ce_live :: Table
  ce_dial :: "string \<Rightarrow> string \<Rightarrow> bool"
  ce_fallbackHandshake :: bool
  ce_writeHeader :: bool
  ce_writeHello :: bool

definition isACMEChallengeOnly :: "string list \<Rightarrow> bool" where
  "isACMEChallengeOnly alpns = (length alpns = 1 \<and> alpns ! 0 = ''acme-tls/1'')"

definition http404Body :: string where
  "http404Body = ''<!DOCTYPE html>'' @ [CHR 0x0A]
     @ ''<html><head><title>404 Not Found</title></head>'' @ [CHR 0x0A]
     @ ''<body><h1>404 Not Found</h1><p>The requested application does not exist.</p></body>'' @ [CHR 0x0A]
     @ ''</html>''"

definition http404Response :: string where
  "http404Response = ''HTTP/1.1 404 Not Found'' @ crlf @ ''Content-Type: text/html; charset=utf-8'' @ crlf
     @ ''Content-Length: '' @ Itoa (length http404Body) @ crlf @ ''Connection: close'' @ crlf @ crlf
     @ http404Body"

definition send404 :: "Gateway \<Rightarrow> conn_env \<Rightarrow> event list" where
  "send404 g e =
     (if \<not> g_fallbackTLS g then []
      else if \<not> ce_fallbackHandshake e then []
      else [WriteFallback http404Response])"

text \<open>
  From the tracked connection on: the second lookup, the PROXY header, the replayed
  ClientHello and the splice, with the two deferred calls.
\<close>

definition wants_proxy_header :: "bool \<Rightarrow> Route \<Rightarrow> bool" where
  "wants_proxy_header direct route =
     (direct \<and> ProxyProtocol route \<and> \<not> HasPrefix (Upstream route) ''tunnel:'')"

definition write_header :: "conn_env \<Rightarrow> bool \<Rightarrow> Route \<Rightarrow> event list \<times> bool" where
  "write_header e direct route =
     (if wants_proxy_header direct route then
        (case proxyV2Header (ce_remote e) (ce_local e) of
           None \<Rightarrow> ([], True)
         | Some hdr \<Rightarrow>
             if ce_writeHeader e then ([WriteUpstream hdr], True)
             else ([ConnError ''write_upstream''], False))
      else ([], True))"

definition serve_splice :: "conn_env \<Rightarrow> string \<Rightarrow> bool \<Rightarrow> Route \<Rightarrow> bytes \<Rightarrow> segments \<Rightarrow> event list" where
  "serve_splice e hostname direct route hello rest =
     [TrackConn hostname KindSplice]
     @ (if (case Lookup (ce_live e) hostname of None \<Rightarrow> False | Some live \<Rightarrow> Quarantined live)
        then [CountRefused (Refused hostname ModeSplice), WriteClient WriteTLSAlert]
        else (case write_header e direct route of (hevs, ok) \<Rightarrow>
          hevs @ (if \<not> ok then []
                  else if \<not> ce_writeHello e then [ConnError ''write_upstream'']
                  else [WriteUpstream hello, SpliceConns rest])))
     @ [RunRelease, CloseBackend]"

definition serve_route ::
  "Gateway \<Rightarrow> conn_env \<Rightarrow> string \<Rightarrow> string list \<Rightarrow> bytes \<Rightarrow> segments \<Rightarrow> Route \<Rightarrow> event list" where
  "serve_route g e hostname alpns hello rest route =
     (let ratlsCapable = HasALPN alpns ''privasys-ratls/1'';
          direct = (IsDirect route \<or> IsDirectPending route \<and> isACMEChallengeOnly alpns)
      in if \<not> direct \<and> IsAlias route then [ConnError ''adopter_not_direct''] @ send404 g e
         else if \<not> direct \<and> \<not> ratlsCapable \<and> g_terminator g then [TerminatorHandle hello rest route]
         else if Quarantined route
         then [CountRefused (Refused hostname ModeSplice), WriteClient WriteTLSAlert]
         else [Dial (Upstream route) (ce_remoteString e)]
           @ (if \<not> ce_dial e (Upstream route) (ce_remoteString e) then [ConnError ''dial_upstream'']
              else serve_splice e hostname direct route hello rest))"

definition handleConn :: "Gateway \<Rightarrow> conn_env \<Rightarrow> event list" where
  "handleConn g e =
     [ActiveInc]
     @ (if g_buffer g < 0 then [GoPanic]
        else case read_hello (g_bufferSize g) [] (ce_segments e) of
          HelloReadError \<Rightarrow> [ConnError ''client_read'']
        | HelloPanic \<Rightarrow> [GoPanic]
        | HelloParseError err \<Rightarrow> [ConnError ''sni_parse'']
        | Hello hostname alpns hello rest \<Rightarrow>
            if g_tunnels g \<and> HasALPN alpns ALPN then [TunnelHandle hello rest]
            else (case Lookup (ce_table e) hostname of
              None \<Rightarrow> [ConnError ''no_route''] @ send404 g e
            | Some route \<Rightarrow> serve_route g e hostname alpns hello rest route))
     @ [ActiveDec, CloseClient, WgDone]"

section \<open>Copying\<close>

text \<open>
  \<open>copyWithIdleTimeout\<close>: a read returns bytes and possibly an error; a write of \<open>nr\<close> bytes
  returns the number written and possibly an error. The result is the total that the counter
  is raised by and what was handed to the destination.
\<close>

fun copy_loop :: "(bytes \<times> bool) list \<Rightarrow> (nat \<times> bool) list \<Rightarrow> nat \<Rightarrow> bytes list \<Rightarrow> nat \<times> bytes list" where
  "copy_loop ((b, rerr) # rs) ws tot out =
     (if length b > 0 then
        (case ws of
           [] \<Rightarrow> (tot, out @ [b])
         | (nw, werr) # ws' \<Rightarrow>
             if werr then (tot + nw, out @ [b])
             else if rerr then (tot + nw, out @ [b])
             else copy_loop rs ws' (tot + nw) (out @ [b]))
      else if rerr then (tot, out)
      else copy_loop rs ws tot out)"
| "copy_loop [] ws tot out = (tot, out)"

definition copyWithIdleTimeout :: "(bytes \<times> bool) list \<Rightarrow> (nat \<times> bool) list \<Rightarrow> nat \<times> bytes list" where
  "copyWithIdleTimeout rs ws = copy_loop rs ws 0 []"

text \<open>
  \<open>splice\<close>: the two directions run as goroutines and the call returns when both have ended.
  Each direction copies, raises its byte counter and half-closes its destination when that
  connection can (\<^verbatim>\<open>closeWriter\<close>). The result lists the effects of each direction.
\<close>

datatype splice_event = Forward bytes | CountBytes string nat | CloseWrite

record leg =
  lg_reads :: "(bytes \<times> bool) list"
  lg_writes :: "(nat \<times> bool) list"
  lg_closeWriter :: bool

definition splice_direction :: "string \<Rightarrow> leg \<Rightarrow> splice_event list" where
  "splice_direction label l =
     (case copyWithIdleTimeout (lg_reads l) (lg_writes l) of (n, out) \<Rightarrow>
        map Forward out @ [CountBytes label n] @ (if lg_closeWriter l then [CloseWrite] else []))"

definition splice :: "leg \<Rightarrow> leg \<Rightarrow> splice_event list \<times> splice_event list" where
  "splice to_backend to_client =
     (splice_direction ''client_to_backend'' to_backend, splice_direction ''backend_to_client'' to_client)"

section \<open>The accept loop\<close>

datatype accept = Accepted | AcceptTemporary | AcceptError

text \<open>
  The outcome of \<open>Run\<close> after a sequence of accepts, each with the value of \<open>closed\<close> at that
  moment: the number of connections started and how it ended.
\<close>

datatype run_result = RunListenError | RunReturnsNil | RunReturnsError | RunStillAccepting

fun accept_loop :: "(accept \<times> bool) list \<Rightarrow> nat \<Rightarrow> nat \<times> run_result" where
  "accept_loop [] n = (n, RunStillAccepting)"
| "accept_loop ((a, closed) # as) n =
     (case a of
        Accepted \<Rightarrow> accept_loop as (n + 1)
      | _ \<Rightarrow> if closed then (n, RunReturnsNil)
             else if a = AcceptTemporary then accept_loop as n
             else (n, RunReturnsError))"

definition Run :: "bool \<Rightarrow> (accept \<times> bool) list \<Rightarrow> nat \<times> run_result" where
  "Run listen_ok as = (if \<not> listen_ok then (0, RunListenError) else accept_loop as 0)"

text \<open>\<open>ActiveConnections\<close> discards the gauge it collects.\<close>

definition ActiveConnections :: "int \<Rightarrow> int" where
  "ActiveConnections gauge = 0"

text \<open>
  \<open>Drain\<close> closes the listener when there is one and waits for the handlers: it returns when the
  wait group, raised by every accept and lowered by every finished handler, is zero.
\<close>

definition Drain :: "bool \<Rightarrow> nat \<Rightarrow> nat \<Rightarrow> bool \<times> bool" where
  "Drain has_listener started finished = (has_listener, started = finished)"

section \<open>The read loop\<close>

lemma read_hello_step:
  "read_hello cap buf (s # ss) =
     (case ParseClientHello (buf @ take (cap - length buf) s) of
        None \<Rightarrow> HelloPanic
      | Some (h, a, None) \<Rightarrow> Hello h a (buf @ take (cap - length buf) s)
          (if length s \<le> cap - length buf then ss else drop (cap - length buf) s # ss)
      | Some (h, a, Some err) \<Rightarrow>
          if err = ErrTruncated \<and> length (buf @ take (cap - length buf) s) < cap
          then read_hello cap (buf @ take (cap - length buf) s) ss else HelloParseError err)"
  by (simp add: Let_def)

declare read_hello.simps(2) [simp del]

lemma read_hello_no_panic: "read_hello cap buf ss \<noteq> HelloPanic"
proof (induction ss arbitrary: buf)
  case (Cons s ss)
  obtain h a e where "ParseClientHello (buf @ take (cap - length buf) s) = Some (h, a, e)"
    using ParseClientHello_total by (metis prod.exhaust)
  with Cons show ?case by (simp add: read_hello_step split: option.split)
qed simp

lemma read_hello_conserves:
  assumes "read_hello cap buf ss = Hello h a hello rest" and "length buf \<le> cap"
  shows "hello @ concat rest = buf @ concat ss \<and> length hello \<le> cap
    \<and> ParseClientHello hello = Some (h, a, None)"
  using assms
proof (induction ss arbitrary: buf)
  case (Cons s ss)
  define buf' where "buf' = buf @ take (cap - length buf) s"
  obtain h' a' e where p: "ParseClientHello buf' = Some (h', a', e)"
    using ParseClientHello_total by (metis prod.exhaust)
  have len: "length buf' \<le> cap" using Cons.prems(2) by (simp add: buf'_def)
  have split: "buf' @ drop (cap - length buf) s = buf @ s" by (simp add: buf'_def)
  show ?case
  proof (cases e)
    case None
    with Cons.prems(1) p have "hello = buf'" "h' = h" "a' = a"
      "rest = (if length s \<le> cap - length buf then ss else drop (cap - length buf) s # ss)"
      by (simp_all add: read_hello_step buf'_def [symmetric])
    moreover have "hello @ concat rest = (buf' @ drop (cap - length buf) s) @ concat ss"
      using calculation by simp
    ultimately show ?thesis using None p len split by simp
  next
    case (Some err)
    with Cons.prems(1) p have more': "read_hello cap buf' ss = Hello h a hello rest"
      and "length buf' < cap"
      by (auto simp: read_hello_step buf'_def [symmetric] split: if_splits)
    then have "length s < cap - length buf" by (auto simp: buf'_def min_def split: if_splits)
    then have "buf' = buf @ s" by (simp add: buf'_def)
    with Cons.IH [OF more' len] show ?thesis by simp
  qed
qed simp

text \<open>
  Reading a well-formed ClientHello record: however the stream is cut into segments, the loop
  ends with the record's meaning, once the buffer can hold the record.
\<close>

lemma read_hello_record:
  assumes "wf_hello h" and "hello_meaning h = (host, alpns, None)"
    and "length (encode_record h) \<le> cap"
    and "buf @ concat ss = encode_record h @ tail'" and "length buf < length (encode_record h)"
  shows "\<exists>hello rest. read_hello cap buf ss = Hello host alpns hello rest"
  using assms(4,5)
proof (induction ss arbitrary: buf)
  case Nil
  then have "length buf = length (encode_record h) + length tail'" by (metis append_Nil2 concat.simps(1) length_append)
  with Nil.prems(2) show ?case by simp
next
  case (Cons s ss)
  let ?w = "encode_record h"
  define buf' where "buf' = buf @ take (cap - length buf) s"
  have stream: "buf' @ drop (cap - length buf) s @ concat ss = ?w @ tail'"
  proof -
    have "buf' @ drop (cap - length buf) s = buf @ s" by (simp add: buf'_def)
    then have "(buf' @ drop (cap - length buf) s) @ concat ss = buf @ concat (s # ss)" by simp
    with Cons.prems(1) show ?thesis by (simp only: append_assoc)
  qed
  show ?case
  proof (cases "length buf' < length ?w")
    case True
    have "buf' = take (length buf') (?w @ tail')" unfolding stream [symmetric] by simp
    then have "buf' = take (length buf') ?w" using True by simp
    with record_complete_encode_iff [OF assms(1), of "length buf'"] True
    have "\<not> record_complete buf'" by simp
    then have "ParseClientHello buf' = Some ([], [], Some ErrTruncated)"
      by (rule ParseClientHello_incomplete)
    moreover have "length buf' < cap" using True assms(3) by simp
    ultimately have "read_hello cap buf (s # ss) = read_hello cap buf' ss"
      by (simp add: read_hello_step buf'_def [symmetric])
    moreover have "length s < cap - length buf"
      using \<open>length buf' < cap\<close> by (auto simp: buf'_def min_def split: if_splits)
    then have "buf' @ concat ss = ?w @ tail'" using stream by simp
    ultimately show ?thesis using Cons.IH [of buf'] True by simp
  next
    case False
    have "take (length ?w) buf' = ?w"
      using stream False by (metis append_eq_append_conv_if linorder_not_less append_take_drop_id)
    then obtain y where "buf' = ?w @ y" by (metis append_take_drop_id)
    then have "ParseClientHello buf' = Some (host, alpns, None)"
      using ParseClientHello_record [OF assms(1), of y] assms(2) by simp
    then show ?thesis by (simp add: read_hello_step buf'_def [symmetric])
  qed
qed

section \<open>The shape of a handled connection\<close>

text \<open>
  Every run of the handler is one of these: nothing was read, or a hello was. Without room for the
  hello none is read.
\<close>

definition conn_body :: "Gateway \<Rightarrow> conn_env \<Rightarrow> string \<Rightarrow> string list \<Rightarrow> bytes \<Rightarrow> segments \<Rightarrow> event list" where
  "conn_body g e hostname alpns hello rest =
     (if g_tunnels g \<and> HasALPN alpns ALPN then [TunnelHandle hello rest]
      else (case Lookup (ce_table e) hostname of
        None \<Rightarrow> [ConnError ''no_route''] @ send404 g e
      | Some route \<Rightarrow> serve_route g e hostname alpns hello rest route))"

lemma read_hello_no_room: "read_hello 0 [] ss \<noteq> Hello hostname alpns hello rest"
proof (cases ss)
  case (Cons s ss')
  have "ParseClientHello [] = Some ([], [], Some ErrTruncated)" by code_simp
  with Cons show ?thesis by (simp add: read_hello_step)
qed simp

lemma handleConn_cases:
  obtains (failed) x where "handleConn g e = [ActiveInc, x, ActiveDec, CloseClient, WgDone]" "x = GoPanic \<or> (\<exists>err. x = ConnError err)"
  | (hello) hostname alpns hello rest
    where "read_hello (g_bufferSize g) [] (ce_segments e) = Hello hostname alpns hello rest"
      "handleConn g e = [ActiveInc] @ conn_body g e hostname alpns hello rest @ [ActiveDec, CloseClient, WgDone]"
proof (cases "g_buffer g < 0")
  case True
  then show ?thesis using that(1) by (simp add: handleConn_def)
next
  case room: False
  show ?thesis
  proof (cases "read_hello (g_bufferSize g) [] (ce_segments e)")
    case (Hello hostname alpns hello rest)
    with room show ?thesis using that(2) by (simp add: handleConn_def conn_body_def)
  qed (use room that(1) read_hello_no_panic in \<open>simp_all add: handleConn_def\<close>)
qed

lemma hello_room:
  assumes "read_hello (g_bufferSize g) [] (ce_segments e) = Hello hostname alpns hello rest"
  shows "\<not> g_buffer g < 0"
  using assms read_hello_no_room by (auto simp: g_bufferSize_def)

lemmas conn_defs = conn_body_def serve_route_def serve_splice_def send404_def write_header_def Let_def

lemma handleConn_stream:
  assumes "read_hello (g_bufferSize g) [] (ce_segments e) = Hello hostname alpns hello rest"
  shows "hello @ concat rest = concat (ce_segments e)"
  using read_hello_conserves [OF assms] by simp

lemma handleConn_dial:
  assumes "Dial u c \<in> set (handleConn g e) \<or> WriteUpstream b \<in> set (handleConn g e)
    \<or> TrackConn t k \<in> set (handleConn g e)"
  shows "\<exists>hostname alpns hello rest route.
      read_hello (g_bufferSize g) [] (ce_segments e) = Hello hostname alpns hello rest
      \<and> Lookup (ce_table e) hostname = Some route \<and> \<not> Quarantined route
      \<and> handleConn g e = [ActiveInc] @ ([Dial (Upstream route) (ce_remoteString e)]
          @ (if \<not> ce_dial e (Upstream route) (ce_remoteString e) then [ConnError ''dial_upstream'']
             else serve_splice e hostname
               (IsDirect route \<or> IsDirectPending route \<and> isACMEChallengeOnly alpns) route hello rest))
          @ [ActiveDec, CloseClient, WgDone]"
proof (cases g e rule: handleConn_cases)
  case (failed x)
  with assms show ?thesis by auto
next
  case (hello hostname alpns hello rest)
  then obtain route where "Lookup (ce_table e) hostname = Some route"
    using assms by (auto simp: conn_body_def send404_def split: if_splits option.splits)
  with hello assms show ?thesis
    by (auto simp: conn_body_def serve_route_def send404_def Let_def split: if_splits)
qed

section \<open>Upstream writes\<close>

definition upstream_writes :: "event list \<Rightarrow> bytes list" where
  "upstream_writes evs = concat (map (\<lambda>ev. case ev of WriteUpstream b \<Rightarrow> [b] | _ \<Rightarrow> []) evs)"

lemma upstream_writes_simps [simp]:
  "upstream_writes [] = []"
  "upstream_writes (ev # evs) = (case ev of WriteUpstream b \<Rightarrow> [b] | _ \<Rightarrow> []) @ upstream_writes evs"
  "upstream_writes (xs @ ys) = upstream_writes xs @ upstream_writes ys"
  by (simp_all add: upstream_writes_def)

lemma upstream_writes_mem: "upstream_writes evs = [] \<longleftrightarrow> (\<forall>b. WriteUpstream b \<notin> set evs)"
  by (induction evs) (auto split: event.split)

lemma write_header_cases:
  "write_header e direct route = ([], True)
   \<or> wants_proxy_header direct route \<and> (\<exists>hdr. proxyV2Header (ce_remote e) (ce_local e) = Some hdr
       \<and> (write_header e direct route = ([WriteUpstream hdr], True)
          \<or> write_header e direct route = ([ConnError ''write_upstream''], False)))"
  by (auto simp: write_header_def split: option.split)

lemma serve_splice_cases:
  obtains (refused) live where "Lookup (ce_live e) hostname = Some live" "Quarantined live"
      "serve_splice e hostname direct route hello rest =
        [TrackConn hostname KindSplice, CountRefused (Refused hostname ModeSplice), WriteClient WriteTLSAlert,
         RunRelease, CloseBackend]"
  | (no_header) hevs where
      "\<And>live. Lookup (ce_live e) hostname = Some live \<Longrightarrow> \<not> Quarantined live"
      "write_header e direct route = (hevs, False)"
      "serve_splice e hostname direct route hello rest =
        [TrackConn hostname KindSplice] @ hevs @ [RunRelease, CloseBackend]"
  | (written) hevs where
      "\<And>live. Lookup (ce_live e) hostname = Some live \<Longrightarrow> \<not> Quarantined live"
      "write_header e direct route = (hevs, True)"
      "serve_splice e hostname direct route hello rest =
        [TrackConn hostname KindSplice] @ hevs
        @ (if ce_writeHello e then [WriteUpstream hello, SpliceConns rest] else [ConnError ''write_upstream''])
        @ [RunRelease, CloseBackend]"
proof -
  obtain hevs ok where w: "write_header e direct route = (hevs, ok)" by fastforce
  show ?thesis
  proof (cases "\<exists>live. Lookup (ce_live e) hostname = Some live \<and> Quarantined live")
    case True
    then show ?thesis using that(1) by (auto simp: serve_splice_def)
  next
    case False
    then have q: "\<And>live. Lookup (ce_live e) hostname = Some live \<Longrightarrow> \<not> Quarantined live" by blast
    with w show ?thesis
      using that(2) [OF q, of hevs] that(3) [OF q, of hevs]
      by (cases ok) (auto simp: serve_splice_def split: option.splits)
  qed
qed

lemma serve_splice_handover:
  "TerminatorHandle hello rest r \<notin> set (serve_splice e hostname direct route hello' rest')"
  "TunnelHandle hello rest \<notin> set (serve_splice e hostname direct route hello' rest')"
  using write_header_cases [of e direct route]
  by (auto simp: serve_splice_def split: prod.splits)

lemma conn_body_handover:
  "TerminatorHandle hello rest r \<in> set (conn_body g e hostname alpns hello' rest') \<Longrightarrow> hello = hello' \<and> rest = rest'"
  "TunnelHandle hello rest \<in> set (conn_body g e hostname alpns hello' rest') \<Longrightarrow> hello = hello' \<and> rest = rest'"
  by (auto simp: conn_body_def serve_route_def send404_def Let_def serve_splice_handover
      split: if_splits option.splits)

lemma serve_splice_splice:
  assumes "SpliceConns rest \<in> set (serve_splice e hostname direct route hello' rest')"
  shows "rest = rest' \<and> upstream_writes (serve_splice e hostname direct route hello' rest') \<noteq> []
    \<and> last (upstream_writes (serve_splice e hostname direct route hello' rest')) = hello'"
proof -
  have quiet: "SpliceConns rest \<notin> set (fst (write_header e direct route))"
    using write_header_cases [of e direct route] by auto
  show ?thesis
  proof (cases rule: serve_splice_cases [of e hostname direct route hello' rest'])
    case (refused live)
    with assms show ?thesis by simp
  next
    case (no_header hevs)
    with assms quiet show ?thesis by simp
  next
    case (written hevs)
    from quiet have "SpliceConns rest \<notin> set hevs" unfolding written(2) by simp
    with assms have w: "ce_writeHello e" and "rest = rest'"
      unfolding written(3) by (simp_all split: if_splits)
    moreover from w have "upstream_writes (serve_splice e hostname direct route hello' rest') =
        upstream_writes hevs @ [hello']"
      unfolding written(3) by simp
    ultimately show ?thesis by simp
  qed
qed

lemma conn_body_splice:
  assumes "SpliceConns rest \<in> set (conn_body g e hostname alpns hello' rest')"
  shows "rest = rest' \<and> upstream_writes (conn_body g e hostname alpns hello' rest') \<noteq> []
    \<and> last (upstream_writes (conn_body g e hostname alpns hello' rest')) = hello'"
proof -
  have "\<exists>u direct route. conn_body g e hostname alpns hello' rest' =
      Dial u (ce_remoteString e) # serve_splice e hostname direct route hello' rest'"
    using assms
    by (auto simp: conn_body_def serve_route_def send404_def Let_def split: if_splits option.splits)
  then obtain u direct route where c: "conn_body g e hostname alpns hello' rest' =
      Dial u (ce_remoteString e) # serve_splice e hostname direct route hello' rest'" by blast
  with assms have "SpliceConns rest \<in> set (serve_splice e hostname direct route hello' rest')" by simp
  from serve_splice_splice [OF this] show ?thesis unfolding c by simp
qed

section \<open>Properties\<close>

text \<open>
  C9. The ClientHello is recognised independently of TCP segmentation: if the client's stream
  starts with a well-formed record that fits the buffer, then however the network cuts the
  stream into reads the loop ends with the record's server name and ALPN list, having consumed
  a prefix of the stream no longer than the buffer and lost nothing.
\<close>

theorem read_hello_segmentation:
  assumes "wf_hello h" and "hello_meaning h = (host, alpns, None)"
    and "length (encode_record h) \<le> cap" and "concat segs = encode_record h @ stream"
  shows "\<exists>hello rest. read_hello cap [] segs = Hello host alpns hello rest
      \<and> hello @ concat rest = concat segs \<and> length hello \<le> cap"
proof -
  have "0 < length (encode_record h)" by (simp add: encode_record_def)
  then obtain hello rest where r: "read_hello cap [] segs = Hello host alpns hello rest"
    using read_hello_record [OF assms(1-3), of "[]" segs stream] assms(4) by auto
  from read_hello_conserves [OF r] r show ?thesis by auto
qed

lemma sample_hello_meaning: "hello_meaning sample_hello = (''a.b'', [''h2'', ''http/1.1''], None)"
proof -
  have "parseSNIExtension (encode_sni [(0, bytes_of_string ''a.b'')]) = Some (Inr ''a.b'')"
    using parseSNI_encode_ext [of 0 "bytes_of_string ''a.b''" "[]"]
    by (simp add: wf_ext_def encoders)
  moreover have "parseALPNExtension (encode_alpn [''h2'', ''http/1.1'']) = Some [''h2'', ''http/1.1'']"
    by (rule parseALPN_encode_ext [of 16]) (simp_all add: wf_ext_def encoders)
  ultimately show ?thesis
    by (simp add: hello_meaning_def sample_hello_def hello_outcome_def)
qed

theorem read_hello_segmentation_witness:
  "\<exists>hello rest. read_hello 4096 [] [take 3 (encode_record sample_hello),
       drop 3 (encode_record sample_hello), [1, 2]] = Hello ''a.b'' [''h2'', ''http/1.1''] hello rest"
proof -
  have "length (encode_record sample_hello) \<le> 4096"
    by (simp add: sample_hello_def encoders)
  from read_hello_segmentation [OF sample_hello_wf sample_hello_meaning this, where stream = "[1, 2]"
      and segs = "[take 3 (encode_record sample_hello), drop 3 (encode_record sample_hello), [1, 2]]"]
  show ?thesis by auto
qed

text \<open>
  Reading through either wrapper yields the consumed bytes and then the connection's, and enough
  reads yield them all.
\<close>

lemma handover_reads:
  "fst (reads (terminate_prefixConn_Read seg_read) ks (newPrefixConn rest hello)) =
     take (length (fst (reads (terminate_prefixConn_Read seg_read) ks (newPrefixConn rest hello)))) (hello @ concat rest)"
  "fst (reads (tunnel_prefixConn_Read seg_read) ks (NewPrefixConn rest hello)) =
     take (length (fst (reads (tunnel_prefixConn_Read seg_read) ks (NewPrefixConn rest hello)))) (hello @ concat rest)"
  using terminate_conn.reads_prefix [of ks "newPrefixConn rest hello"] tunnel_conn.reads_prefix [of ks "NewPrefixConn rest hello"]
  by (simp_all add: newPrefixConn_def NewPrefixConn_def)

lemma handover_reads_all:
  assumes "list_all (\<lambda>k. 0 < k) ks" and "length (hello @ concat rest) + length rest \<le> length ks"
  shows "fst (reads (terminate_prefixConn_Read seg_read) ks (newPrefixConn rest hello)) = hello @ concat rest"
    "fst (reads (tunnel_prefixConn_Read seg_read) ks (NewPrefixConn rest hello)) = hello @ concat rest"
proof -
  have "sum_list (map (\<lambda>s. Suc (length s)) rest) = length (concat rest) + length rest" by (induction rest) simp_all
  with assms(2) have "length hello + sum_list (map (\<lambda>s. Suc (length s)) rest) \<le> length ks" by simp
  with assms(1) show "fst (reads (terminate_prefixConn_Read seg_read) ks (newPrefixConn rest hello)) = hello @ concat rest"
    "fst (reads (tunnel_prefixConn_Read seg_read) ks (NewPrefixConn rest hello)) = hello @ concat rest"
    using terminate_conn.reads_all [of "newPrefixConn rest hello" ks] tunnel_conn.reads_all [of "NewPrefixConn rest hello" ks]
    by (simp_all add: newPrefixConn_def NewPrefixConn_def)
qed

text \<open>
  C10. Whoever takes over the connection sees the client's stream from its first byte to its last:
  the terminator and the tunnel acceptor, reading through the wrapper around the consumed bytes
  with any sequence of read sizes, receive a prefix of the stream, and the whole stream once they
  have made enough reads of a positive size (as many as the stream has bytes and segments
  suffice); and what a splice writes and then copies upstream is the whole stream in order.
\<close>

theorem handover_preserves_stream:
  "(TerminatorHandle hello rest route \<in> set (handleConn g e) \<longrightarrow>
      (let bs = fst (reads (terminate_prefixConn_Read seg_read) ks (newPrefixConn rest hello))
       in bs = take (length bs) (concat (ce_segments e))
        \<and> (list_all (\<lambda>k. 0 < k) ks \<and> length (concat (ce_segments e)) + length rest \<le> length ks \<longrightarrow> bs = concat (ce_segments e))))
   \<and> (TunnelHandle hello rest \<in> set (handleConn g e) \<longrightarrow>
      (let bs = fst (reads (tunnel_prefixConn_Read seg_read) ks (NewPrefixConn rest hello))
       in bs = take (length bs) (concat (ce_segments e))
        \<and> (list_all (\<lambda>k. 0 < k) ks \<and> length (concat (ce_segments e)) + length rest \<le> length ks \<longrightarrow> bs = concat (ce_segments e))))
   \<and> (SpliceConns rest \<in> set (handleConn g e) \<longrightarrow>
      (\<exists>b. upstream_writes (handleConn g e) \<noteq> [] \<and> last (upstream_writes (handleConn g e)) = b
         \<and> b @ concat rest = concat (ce_segments e)))"
proof (cases g e rule: handleConn_cases)
  case (failed x)
  then show ?thesis by auto
next
  case (hello hostname alpns hello' rest')
  have s: "concat (ce_segments e) = hello' @ concat rest'"
    by (rule handleConn_stream [OF hello(1), symmetric])
  have v: "rest = rest' \<and> upstream_writes (handleConn g e) \<noteq> [] \<and> last (upstream_writes (handleConn g e)) = hello'"
    if "SpliceConns rest \<in> set (handleConn g e)"
    using that hello(2) conn_body_splice [of rest g e hostname alpns hello' rest'] by auto
  have w: "hello = hello' \<and> rest = rest'"
    if "TerminatorHandle hello rest route \<in> set (handleConn g e) \<or> TunnelHandle hello rest \<in> set (handleConn g e)"
    using that hello(2) conn_body_handover [of hello rest] by auto
  show ?thesis
    unfolding Let_def s
    using w v handover_reads(1) [of ks rest hello] handover_reads(2) [of ks rest hello]
      handover_reads_all(1) [of ks hello rest] handover_reads_all(2) [of ks hello rest] by auto
qed

text \<open>A concrete connection for the witnesses: one segment, one route, a terminator.\<close>

definition sample_gateway :: Gateway where
  "sample_gateway = SetTunnelAcceptor (SetTracker 0 (New_Gateway '':443'' 2000000000 300000000000 4096 True True))"

definition sample_conn :: "Route \<Rightarrow> conn_env" where
  "sample_conn route = \<lparr>ce_segments = [encode_record sample_hello],
     ce_remote = TCPAddr [192, 0, 2, 1] 40000, ce_local = TCPAddr [10, 0, 0, 1] 443,
     ce_remoteString = ''192.0.2.1:40000'', ce_table = fst (Update Route_Table.New [route] ''v1''),
     ce_live = fst (Update Route_Table.New [route] ''v1''),
     ce_dial = (\<lambda>u c. True), ce_fallbackHandshake = True, ce_writeHeader = True, ce_writeHello = True\<rparr>"

lemma sample_read:
  "read_hello 4096 [] [encode_record sample_hello] =
     Hello ''a.b'' [''h2'', ''http/1.1''] (encode_record sample_hello) []"
proof -
  have "length (encode_record sample_hello) \<le> 4096" by (simp add: sample_hello_def encoders)
  then show ?thesis
    using ParseClientHello_record [OF sample_hello_wf, of "[]"] sample_hello_meaning
    by (simp add: read_hello_step)
qed

lemma sample_lookup:
  assumes "ToLower (SNI route) = ''a.b''"
  shows "Lookup (fst (Update Route_Table.New [route] ''v1'')) ''a.b'' = Some route"
proof -
  have "ToLower ''a.b'' = ''a.b''" by code_simp
  with assms show ?thesis by (simp add: Lookup_Update last_route_def Route_Table.New_def)
qed

lemma sample_handle:
  assumes "ToLower (SNI route) = ''a.b''"
  shows "handleConn sample_gateway (sample_conn route) =
     [ActiveInc] @ serve_route sample_gateway (sample_conn route) ''a.b'' [''h2'', ''http/1.1'']
       (encode_record sample_hello) [] route @ [ActiveDec, CloseClient, WgDone]"
  using sample_lookup [OF assms] sample_read
  by (simp add: handleConn_def sample_gateway_def sample_conn_def New_Gateway_def g_bufferSize_def SetTracker_def
      SetTunnelAcceptor_def HasALPN_def ALPN_def)

lemmas sample_simps = serve_route_def Let_def HasALPN_def IsDirect_def IsDirectPending_def
  ModeDirect_def ModeDirectPending_def IsAlias_def plain_route_def sample_gateway_def New_Gateway_def
  g_bufferSize_def SetTracker_def SetTunnelAcceptor_def Quarantined_def StateQuarantined_def

lemma sample_lower: "ToLower ''A.b'' = ''a.b''" "ToLower (SNI (plain_route ''A.b'' up)) = ''a.b''"
proof -
  show "ToLower ''A.b'' = ''a.b''" by code_simp
  then show "ToLower (SNI (plain_route ''A.b'' up)) = ''a.b''" by (simp add: plain_route_def)
qed

lemma sample_terminates:
  "TerminatorHandle (encode_record sample_hello) [] (plain_route ''A.b'' ''u'')
     \<in> set (handleConn sample_gateway (sample_conn (plain_route ''A.b'' ''u'')))"
  using sample_handle [OF sample_lower(2)]
  by (simp add: sample_simps)

theorem handover_preserves_stream_witness:
  "fst (reads (terminate_prefixConn_Read seg_read) (replicate 200 7) (newPrefixConn [] (encode_record sample_hello))) =
     concat (ce_segments (sample_conn (plain_route ''A.b'' ''u'')))"
proof -
  have "length (encode_record sample_hello) \<le> 200" by (simp add: sample_hello_def encoders)
  moreover have "ce_segments (sample_conn (plain_route ''A.b'' ''u'')) = [encode_record sample_hello]" by (simp add: sample_conn_def)
  ultimately show ?thesis
    using handover_preserves_stream [THEN conjunct1, rule_format, OF sample_terminates, of "replicate 200 7"]
    by (simp add: Let_def list_all_iff)
qed

lemma dialed_route:
  assumes d: "Dial u c \<in> set (handleConn g e)"
  shows "\<exists>hostname alpns hello rest route.
      read_hello (g_bufferSize g) [] (ce_segments e) = Hello hostname alpns hello rest
      \<and> Lookup (ce_table e) hostname = Some route \<and> Upstream route = u \<and> \<not> Quarantined route"
proof -
  from d handleConn_dial [of u c g e "[]" "[]" "[]"] obtain hostname alpns hello rest route where
    r: "read_hello (g_bufferSize g) [] (ce_segments e) = Hello hostname alpns hello rest"
      "Lookup (ce_table e) hostname = Some route" "\<not> Quarantined route"
    and h: "handleConn g e = [ActiveInc] @ ([Dial (Upstream route) (ce_remoteString e)]
          @ (if \<not> ce_dial e (Upstream route) (ce_remoteString e) then [ConnError ''dial_upstream'']
             else serve_splice e hostname
               (IsDirect route \<or> IsDirectPending route \<and> isACMEChallengeOnly alpns) route hello rest))
          @ [ActiveDec, CloseClient, WgDone]" by blast
  have "Dial u c \<notin> set (serve_splice e hostname direct route hello rest)" for direct
    using write_header_cases [of e direct route] by (auto simp: serve_splice_def split: prod.splits)
  with d h have "Upstream route = u" by (auto split: if_splits)
  with r show ?thesis by blast
qed

lemma written_route:
  assumes w: "WriteUpstream b \<in> set (handleConn g e)"
  shows "\<exists>hostname alpns hello rest route.
      read_hello (g_bufferSize g) [] (ce_segments e) = Hello hostname alpns hello rest
      \<and> Lookup (ce_table e) hostname = Some route
      \<and> handleConn g e = [ActiveInc, Dial (Upstream route) (ce_remoteString e)] @ serve_splice e hostname
          (IsDirect route \<or> IsDirectPending route \<and> isACMEChallengeOnly alpns) route hello rest
          @ [ActiveDec, CloseClient, WgDone]
      \<and> TrackConn hostname KindSplice \<in> set (handleConn g e)
      \<and> (\<forall>live. Lookup (ce_live e) hostname = Some live \<longrightarrow> \<not> Quarantined live)"
proof -
  from w handleConn_dial [of "[]" "[]" g e b "[]" "[]"] obtain hostname alpns hello rest route where
    r: "read_hello (g_bufferSize g) [] (ce_segments e) = Hello hostname alpns hello rest"
      "Lookup (ce_table e) hostname = Some route"
    and h: "handleConn g e = [ActiveInc] @ ([Dial (Upstream route) (ce_remoteString e)]
          @ (if \<not> ce_dial e (Upstream route) (ce_remoteString e) then [ConnError ''dial_upstream'']
             else serve_splice e hostname
               (IsDirect route \<or> IsDirectPending route \<and> isACMEChallengeOnly alpns) route hello rest))
          @ [ActiveDec, CloseClient, WgDone]" by blast
  let ?d = "IsDirect route \<or> IsDirectPending route \<and> isACMEChallengeOnly alpns"
  from w h have s: "WriteUpstream b \<in> set (serve_splice e hostname ?d route hello rest)"
    and eq: "handleConn g e = [ActiveInc, Dial (Upstream route) (ce_remoteString e)]
      @ serve_splice e hostname ?d route hello rest @ [ActiveDec, CloseClient, WgDone]"
    by (auto split: if_splits)
  have "TrackConn hostname KindSplice \<in> set (handleConn g e)"
    unfolding eq by (simp add: serve_splice_def)
  moreover have "\<forall>live. Lookup (ce_live e) hostname = Some live \<longrightarrow> \<not> Quarantined live"
    by (rule serve_splice_cases [of e hostname ?d route hello rest]) (use s in auto)
  ultimately show ?thesis using r eq by blast
qed

text \<open>
  C2. A quarantined enclave is not reached by a splice: the handler dials an upstream only for
  the route it looked up for the client's server name, when that route is not quarantined,
  and it sends the enclave not a single byte when the second lookup, after registering with
  the tracker, finds the route quarantined.
\<close>

theorem quarantined_never_reached:
  "(Dial u c \<in> set (handleConn g e) \<longrightarrow>
      (\<exists>hostname alpns hello rest route.
         read_hello (g_bufferSize g) [] (ce_segments e) = Hello hostname alpns hello rest
         \<and> Lookup (ce_table e) hostname = Some route \<and> Upstream route = u \<and> \<not> Quarantined route))
   \<and> (WriteUpstream b \<in> set (handleConn g e) \<longrightarrow>
      (\<exists>hostname alpns hello rest.
         read_hello (g_bufferSize g) [] (ce_segments e) = Hello hostname alpns hello rest
         \<and> TrackConn hostname KindSplice \<in> set (handleConn g e)
         \<and> (\<forall>live. Lookup (ce_live e) hostname = Some live \<longrightarrow> \<not> Quarantined live)))"
  using dialed_route [of u c g e] written_route [of b g e] by blast

theorem quarantined_never_reached_witness:
  "\<exists>route. Lookup (ce_table (sample_conn ((plain_route ''A.b'' ''u'')\<lparr>Mode := ''direct''\<rparr>))) ''a.b'' = Some route
     \<and> Upstream route = ''u'' \<and> \<not> Quarantined route"
proof -
  let ?r = "(plain_route ''A.b'' ''u'')\<lparr>Mode := ''direct''\<rparr>"
  have "ToLower (SNI ?r) = ''a.b''" using sample_lower(1) by (simp add: plain_route_def)
  from sample_handle [OF this] have "Dial ''u'' ''192.0.2.1:40000'' \<in> set (handleConn sample_gateway (sample_conn ?r))"
    by (simp add: sample_simps) (simp add: sample_conn_def)
  moreover have "read_hello (g_bufferSize sample_gateway) [] (ce_segments (sample_conn ?r)) =
      Hello ''a.b'' [''h2'', ''http/1.1''] (encode_record sample_hello) []"
    using sample_read by (simp add: sample_conn_def sample_gateway_def New_Gateway_def g_bufferSize_def SetTracker_def
        SetTunnelAcceptor_def)
  ultimately show ?thesis
    using quarantined_never_reached [THEN conjunct1, rule_format, of "''u''" "''192.0.2.1:40000''"
        sample_gateway "sample_conn ?r"] by (metis hello_read.inject(2))
qed

text \<open>
  C8. Transport selection, exactly, for a hello that is not an enclave tunnel and whose name
  has a route: the terminator serves it if and only if there is one, the route is not an
  adopter alias, the client does not offer RA-TLS and the route is not served directly; an
  upstream is dialed if and only if the route is not quarantined and is served directly, or is
  no alias and either RA-TLS was offered or there is no terminator. A pending route is served
  directly exactly for the ACME challenge handshake.
\<close>

theorem transport_selection:
  assumes "read_hello (g_bufferSize g) [] (ce_segments e) = Hello hostname alpns hello rest"
    and "\<not> (g_tunnels g \<and> HasALPN alpns ''privasys-tunnel/1'')"
    and "Lookup (ce_table e) hostname = Some route"
    and "direct \<longleftrightarrow> Mode route = ''direct'' \<or> Mode route = ''direct-pending'' \<and> alpns = [''acme-tls/1'']"
  shows "((\<exists>b r rt. TerminatorHandle b r rt \<in> set (handleConn g e)) \<longleftrightarrow>
        g_terminator g \<and> \<not> IsAlias route \<and> ''privasys-ratls/1'' \<notin> set alpns \<and> \<not> direct)
    \<and> ((\<exists>u c. Dial u c \<in> set (handleConn g e)) \<longleftrightarrow>
        \<not> Quarantined route
        \<and> (direct \<or> (\<not> IsAlias route \<and> (''privasys-ratls/1'' \<in> set alpns \<or> \<not> g_terminator g))))"
proof -
  have d: "(IsDirect route \<or> IsDirectPending route \<and> isACMEChallengeOnly alpns) = direct"
    using assms(4) by (cases alpns)
      (auto simp: IsDirect_def IsDirectPending_def ModeDirect_def ModeDirectPending_def isACMEChallengeOnly_def)
  have h: "handleConn g e = [ActiveInc] @ serve_route g e hostname alpns hello rest route
      @ [ActiveDec, CloseClient, WgDone]"
    using assms(1-3) hello_room [OF assms(1)] by (auto simp: handleConn_def ALPN_def)
  have r: "HasALPN alpns ''privasys-ratls/1'' \<longleftrightarrow> ''privasys-ratls/1'' \<in> set alpns"
    by (auto simp: HasALPN_def list_ex_iff)
  show ?thesis
    unfolding h serve_route_def d r
    by (auto simp: Let_def send404_def serve_splice_handover)
qed

theorem transport_selection_witness:
  "\<exists>b r rt. TerminatorHandle b r rt \<in> set (handleConn sample_gateway (sample_conn (plain_route ''A.b'' ''u'')))"
proof -
  let ?e = "sample_conn (plain_route ''A.b'' ''u'')"
  have "read_hello (g_bufferSize sample_gateway) [] (ce_segments ?e) =
      Hello ''a.b'' [''h2'', ''http/1.1''] (encode_record sample_hello) []"
    using sample_read by (simp add: sample_conn_def sample_gateway_def New_Gateway_def g_bufferSize_def SetTracker_def
        SetTunnelAcceptor_def)
  moreover have "\<not> (g_tunnels sample_gateway \<and> HasALPN [''h2'', ''http/1.1''] ''privasys-tunnel/1'')"
    by (simp add: HasALPN_def)
  moreover have "Lookup (ce_table ?e) ''a.b'' = Some (plain_route ''A.b'' ''u'')"
    using sample_lookup [OF sample_lower(2)] by (simp add: sample_conn_def)
  moreover have "False \<longleftrightarrow> Mode (plain_route ''A.b'' ''u'') = ''direct''
      \<or> Mode (plain_route ''A.b'' ''u'') = ''direct-pending'' \<and> [''h2'', ''http/1.1''] = [''acme-tls/1'']"
    by (simp add: plain_route_def)
  ultimately show ?thesis
    using transport_selection [of sample_gateway ?e "''a.b''" "[''h2'', ''http/1.1'']"
        "encode_record sample_hello" "[]" "plain_route ''A.b'' ''u''" False]
    by (simp add: sample_simps)
qed

text \<open>
  C11. What the enclave receives first on a splice: the client's ClientHello bytes exactly as
  read, preceded by a PROXY header if and only if the route is served directly, asks for it
  and is not a tunnel, and the addresses are TCP addresses; then the rest of the stream.
\<close>

theorem splice_upstream_bytes:
  assumes "SpliceConns rest \<in> set (handleConn g e)"
  shows "\<exists>hostname alpns hello route.
      read_hello (g_bufferSize g) [] (ce_segments e) = Hello hostname alpns hello rest
      \<and> Lookup (ce_table e) hostname = Some route
      \<and> upstream_writes (handleConn g e) =
          (if (IsDirect route \<or> IsDirectPending route \<and> isACMEChallengeOnly alpns)
              \<and> ProxyProtocol route \<and> \<not> HasPrefix (Upstream route) ''tunnel:''
           then (case proxyV2Header (ce_remote e) (ce_local e) of None \<Rightarrow> [] | Some hdr \<Rightarrow> [hdr])
           else []) @ [hello]"
proof -
  have "\<exists>b. WriteUpstream b \<in> set (handleConn g e)"
  proof (cases g e rule: handleConn_cases)
    case (hello hostname alpns hello rest')
    with assms conn_body_splice [of rest g e hostname alpns hello rest']
    show ?thesis by (auto simp: upstream_writes_mem)
  qed (use assms in auto)
  then obtain hostname alpns hello rest' route where
    r: "read_hello (g_bufferSize g) [] (ce_segments e) = Hello hostname alpns hello rest'"
      "Lookup (ce_table e) hostname = Some route"
    and h: "handleConn g e = [ActiveInc, Dial (Upstream route) (ce_remoteString e)] @ serve_splice e hostname
          (IsDirect route \<or> IsDirectPending route \<and> isACMEChallengeOnly alpns) route hello rest'
          @ [ActiveDec, CloseClient, WgDone]"
    using written_route by metis
  let ?d = "IsDirect route \<or> IsDirectPending route \<and> isACMEChallengeOnly alpns"
  from assms h have s: "SpliceConns rest \<in> set (serve_splice e hostname ?d route hello rest')" by simp
  have quiet: "SpliceConns rest \<notin> set (fst (write_header e ?d route))"
    using write_header_cases [of e ?d route] by auto
  show ?thesis
  proof (cases rule: serve_splice_cases [of e hostname ?d route hello rest'])
    case (written hevs)
    from quiet have "SpliceConns rest \<notin> set hevs" unfolding written(2) by simp
    with s have "ce_writeHello e" "rest = rest'" unfolding written(3) by (simp_all split: if_splits)
    moreover have "upstream_writes hevs =
        (if wants_proxy_header ?d route
         then (case proxyV2Header (ce_remote e) (ce_local e) of None \<Rightarrow> [] | Some hdr \<Rightarrow> [hdr]) else [])"
      using written(2) by (auto simp: write_header_def split: if_splits option.splits)
    ultimately show ?thesis
      using r unfolding h written(3) by (simp add: wants_proxy_header_def)
  next
    case (no_header hevs)
    with s quiet show ?thesis by simp
  next
    case (refused live)
    with s show ?thesis by simp
  qed
qed

definition sample_direct :: Route where
  "sample_direct = (plain_route ''A.b'' ''u'')\<lparr>Mode := ''direct'', ProxyProtocol := True\<rparr>"

theorem splice_upstream_bytes_witness:
  "\<exists>hdr hello. upstream_writes (handleConn sample_gateway (sample_conn sample_direct)) = [hdr, hello]"
proof -
  have low: "ToLower (SNI sample_direct) = ''a.b''"
    using sample_lower(1) by (simp add: sample_direct_def plain_route_def)
  have hdr: "proxyV2Header (ce_remote (sample_conn sample_direct)) (ce_local (sample_conn sample_direct)) \<noteq> None"
    by (simp add: sample_conn_def proxyV2Header_def Let_def split_beta)
  have lk: "Lookup (ce_table (sample_conn sample_direct)) ''a.b'' = Some sample_direct"
    "Lookup (ce_live (sample_conn sample_direct)) ''a.b'' = Some sample_direct"
    using sample_lookup [OF low] by (simp_all add: sample_conn_def)
  have rd: "read_hello (g_bufferSize sample_gateway) [] (ce_segments (sample_conn sample_direct)) =
      Hello ''a.b'' [''h2'', ''http/1.1''] (encode_record sample_hello) []"
    using sample_read by (simp add: sample_conn_def sample_gateway_def New_Gateway_def g_bufferSize_def SetTracker_def
        SetTunnelAcceptor_def)
  have flags: "IsDirect sample_direct" "\<not> Quarantined sample_direct"
    by (simp_all add: sample_direct_def plain_route_def IsDirect_def ModeDirect_def Quarantined_def
        StateQuarantined_def)
  have env: "ce_dial (sample_conn sample_direct) u c" "ce_writeHello (sample_conn sample_direct)"
    "ce_writeHeader (sample_conn sample_direct)" for u c
    by (simp_all add: sample_conn_def)
  have "SpliceConns [] \<in> set (handleConn sample_gateway (sample_conn sample_direct))"
    unfolding sample_handle [OF low]
    using hdr by (cases "proxyV2Header (ce_remote (sample_conn sample_direct)) (ce_local (sample_conn sample_direct))")
      (auto simp: serve_route_def serve_splice_def write_header_def flags env lk)
  from splice_upstream_bytes [OF this] rd lk hdr show ?thesis
    by (auto simp: sample_direct_def plain_route_def IsDirect_def ModeDirect_def HasPrefix_def)
qed

text \<open>
  A negative buffer size, which the configuration accepts, makes the handler of every connection
  panic before it reads a byte.
\<close>

theorem negative_buffer_panics:
  "g_buffer g < 0 \<Longrightarrow> handleConn g e = [ActiveInc, GoPanic, ActiveDec, CloseClient, WgDone]"
  by (simp add: handleConn_def)

section \<open>Copying\<close>

text \<open>What the reads deliver, up to and including the one that reports an error.\<close>

fun until_error :: "(bytes \<times> bool) list \<Rightarrow> bytes list" where
  "until_error [] = []"
| "until_error ((b, err) # rs) = b # (if err then [] else until_error rs)"

lemma copy_loop_all:
  "copy_loop rs (map (\<lambda>b. (length b, False)) (filter (\<lambda>b. b \<noteq> []) (until_error rs)) @ ws) n out =
     (n + length (concat (until_error rs)), out @ filter (\<lambda>b. b \<noteq> []) (until_error rs))"
  by (induction rs arbitrary: n out rule: until_error.induct) auto

lemma copy_loop_prefix:
  "\<exists>rest. concat out @ concat (map fst rs) = concat (snd (copy_loop rs ws n out)) @ rest"
proof (induction rs ws n out rule: copy_loop.induct)
  case (1 b rerr rs ws n out)
  show ?case
    using 1 by (cases "b = []"; cases ws; cases rerr) (auto split: prod.split)
qed simp

definition forwarded :: "splice_event list \<Rightarrow> bytes" where
  "forwarded evs = concat (map (\<lambda>e. case e of Forward b \<Rightarrow> b | _ \<Rightarrow> []) evs)"

lemma forwarded_direction:
  "forwarded (splice_direction label l) = concat (snd (copyWithIdleTimeout (lg_reads l) (lg_writes l)))"
  by (simp add: forwarded_def splice_direction_def comp_def split: prod.split)

text \<open>
  A spliced connection relays both directions unchanged and in order: what has been handed
  to either destination is always a prefix of what was read from the other side, and when
  every write succeeds it is everything read up to and including the read that reported the
  end, with the byte counter raised by exactly its length and the destination half-closed
  only after that.
\<close>

theorem splice_faithful:
  "(\<exists>rest. concat (map fst (lg_reads tb)) = forwarded (fst (splice tb tc)) @ rest)
   \<and> (\<exists>rest. concat (map fst (lg_reads tc)) = forwarded (snd (splice tb tc)) @ rest)
   \<and> (let all = filter (\<lambda>b. b \<noteq> []) (until_error rs)
      in fst (splice \<lparr>lg_reads = rs, lg_writes = map (\<lambda>b. (length b, False)) all, lg_closeWriter = True\<rparr> tc) =
         map Forward all @ [CountBytes ''client_to_backend'' (length (concat (until_error rs))), CloseWrite])"
  using copy_loop_prefix [of "[]" "lg_reads tb" "lg_writes tb" 0] copy_loop_prefix [of "[]" "lg_reads tc" "lg_writes tc" 0]
    copy_loop_all [of rs "[]" 0 "[]"]
  by (simp add: splice_def forwarded_direction copyWithIdleTimeout_def) (simp add: splice_direction_def copyWithIdleTimeout_def Let_def)

text \<open>
  The answer to an unknown name, read by a client: status 404, a Content-Length equal to
  the length of the body that follows, and Connection: close.
\<close>

theorem send404_read:
  "read_response http404Response =
     Some (''HTTP/1.1 404 Not Found'', [(''Content-Type'', ''text/html; charset=utf-8''),
       (''Content-Length'', Itoa (length http404Body)), (''Connection'', ''close'')], http404Body)"
proof -
  let ?fs = "[(''Content-Type'', ''text/html; charset=utf-8''),
       (''Content-Length'', Itoa (length http404Body)), (''Connection'', ''close'')]"
  have "http404Response = unlines (''HTTP/1.1 404 Not Found'' # map field_line ?fs) @ crlf @ http404Body"
    by (simp add: http404Response_def unlines_def field_line_def)
  moreover have "list_all field_ok ?fs"
    using Itoa_no_cr [of "length http404Body"] by (simp add: field_ok_def no_cr_def)
  ultimately show ?thesis
    using read_response_unlines [of "''HTTP/1.1 404 Not Found''" ?fs http404Body] by (simp add: no_cr_def)
qed

end
