(* ===== verification/Gateway_System.thy ===== *)
theory Gateway_System
  imports Proxy
begin

text \<open>
  The route sync, the route table, the tracker and the connection handlers running together.
  The steps interleave freely at the granularity of the source's atomic sections: the table
  swap of an update, one call of the quarantine hook (which \<^verbatim>\<open>cmd/gateway/main.go\<close> sets to
  \<open>CutHost\<close>), a lookup, a registration, a release. Updates run on the one sync goroutine and call
  their hooks before they return, so the next update starts only when no hook call is left.
\<close>

section \<open>States and steps\<close>

text \<open>
  The life of one piece of client traffic (a spliced connection, or a terminated request or
  stream): the route was found active and the upstream dialed, then it registers with the
  tracker, then it looks the route up again, then it is open.
\<close>

datatype phase =
    Idle
  | Dialed string
  | Registering string "64 word"
  | Opened string "64 word"
  | Ended

record sys =
  s_table :: Table
  s_tracker :: "nat Tracker"
  s_pending :: "string list"
  s_phase :: "nat \<Rightarrow> phase"
  s_cut :: "nat set"
  s_orphan :: "nat set"

text \<open>
  \<open>s_cut\<close> holds the traffic whose close function the tracker has started. \<open>s_orphan\<close> is a ghost:
  the traffic whose host had no route at some moment since it registered.
\<close>

definition quarantine_hosts :: "hook_call list \<Rightarrow> string list" where
  "quarantine_hosts calls = concat (map (\<lambda>c. case c of CallQuarantine h \<Rightarrow> [h] | CallRetired r \<Rightarrow> []) calls)"

definition routeless :: "Table \<Rightarrow> (nat \<Rightarrow> phase) \<Rightarrow> nat set" where
  "routeless t ph = {c. \<exists>h i. (ph c = Registering h i \<or> ph c = Opened h i) \<and> Lookup t h = None}"

definition route_quarantined :: "Table \<Rightarrow> string \<Rightarrow> bool" where
  "route_quarantined t h = (case Lookup t h of None \<Rightarrow> False | Some r \<Rightarrow> Quarantined r)"

definition gw_init :: "sys \<Rightarrow> bool" where
  "gw_init s \<longleftrightarrow>
     s = \<lparr>s_table = OnRetired (OnQuarantine Route_Table.New True) True, s_tracker = NewTracker,
          s_pending = [], s_phase = (\<lambda>c. Idle), s_cut = {}, s_orphan = {}\<rparr>"

inductive gw_step :: "sys \<Rightarrow> sys \<Rightarrow> bool" where
  update: "s_pending s = [] \<Longrightarrow> Update (s_table s) rs v = (t, changed, calls) \<Longrightarrow>
     gw_step s (s\<lparr>s_table := t, s_pending := quarantine_hosts calls,
       s_orphan := s_orphan s \<union> routeless t (s_phase s)\<rparr>)"
| hook: "s_pending s = h # hs \<Longrightarrow> CutHost (Some (s_tracker s)) h = (Some tr, res) \<Longrightarrow>
     gw_step s (s\<lparr>s_tracker := tr, s_pending := hs, s_cut := s_cut s \<union> set (cut_closed res)\<rparr>)"
| dial: "s_phase s c = Idle \<Longrightarrow> Lookup (s_table s) h = Some r \<Longrightarrow> \<not> Quarantined r \<Longrightarrow>
     gw_step s (s\<lparr>s_phase := (s_phase s)(c := Dialed h)\<rparr>)"
| track: "s_phase s c = Dialed h \<Longrightarrow> tr_next (s_tracker s) + 1 \<noteq> 0 \<Longrightarrow>
     Track (Some (s_tracker s)) h kind c = (Some tr, release.Release h' i False) \<Longrightarrow>
     gw_step s (s\<lparr>s_tracker := tr, s_phase := (s_phase s)(c := Registering h i),
       s_orphan := (if Lookup (s_table s) h = None then insert c (s_orphan s) else s_orphan s)\<rparr>)"
| recheck_open: "s_phase s c = Registering h i \<Longrightarrow> \<not> route_quarantined (s_table s) h \<Longrightarrow>
     gw_step s (s\<lparr>s_phase := (s_phase s)(c := Opened h i)\<rparr>)"
| recheck_refuse: "s_phase s c = Registering h i \<Longrightarrow> route_quarantined (s_table s) h \<Longrightarrow>
     run_release (Some (s_tracker s)) (release.Release (ToLower h) i False) = (Some tr, rel) \<Longrightarrow>
     gw_step s (s\<lparr>s_tracker := tr, s_phase := (s_phase s)(c := Ended)\<rparr>)"
| finish: "s_phase s c = Registering h i \<or> s_phase s c = Opened h i \<Longrightarrow>
     run_release (Some (s_tracker s)) (release.Release (ToLower h) i False) = (Some tr, rel) \<Longrightarrow>
     gw_step s (s\<lparr>s_tracker := tr, s_phase := (s_phase s)(c := Ended)\<rparr>)"

inductive_cases gw_stepE: "gw_step s t"

section \<open>The invariant\<close>

definition held :: "sys \<Rightarrow> nat \<Rightarrow> string \<Rightarrow> 64 word \<Rightarrow> bool" where
  "held s c h i = (s_phase s c = Registering h i \<or> s_phase s c = Opened h i)"

definition gw_inv :: "sys \<Rightarrow> bool" where
  "gw_inv s \<longleftrightarrow>
     table_ok (s_table s) \<and> t_onQuarantine (s_table s) = Some True \<and> tracker_ok (s_tracker s)
     \<and> (\<forall>c h i. held s c h i \<longrightarrow> i \<le> tr_next (s_tracker s))
     \<and> (\<forall>c c' h h' i. held s c h i \<longrightarrow> held s c' h' i \<longrightarrow> c = c')
     \<and> (\<forall>c h i. held s c h i \<longrightarrow> c \<notin> s_cut s \<longrightarrow>
          (\<exists>e. entry (s_tracker s) (ToLower h) i = Some e \<and> tk_close e = c))
     \<and> (\<forall>c h i. s_phase s c = Opened h i \<longrightarrow> c \<notin> s_cut s \<longrightarrow> c \<notin> s_orphan s \<longrightarrow>
          route_quarantined (s_table s) h \<longrightarrow> ToLower h \<in> set (s_pending s))
     \<and> (\<forall>c h i. held s c h i \<longrightarrow> c \<notin> s_orphan s \<longrightarrow> Lookup (s_table s) h \<noteq> None)"

lemma gw_invD:
  assumes "gw_inv s"
  shows "table_ok (s_table s)" "t_onQuarantine (s_table s) = Some True" "tracker_ok (s_tracker s)"
    and "held s c h i \<Longrightarrow> i \<le> tr_next (s_tracker s)"
    and "held s c h i \<Longrightarrow> held s c' h' i \<Longrightarrow> c = c'"
    and "held s c h i \<Longrightarrow> c \<notin> s_cut s \<Longrightarrow> \<exists>e. entry (s_tracker s) (ToLower h) i = Some e \<and> tk_close e = c"
    and "s_phase s c = Opened h i \<Longrightarrow> c \<notin> s_cut s \<Longrightarrow> c \<notin> s_orphan s \<Longrightarrow>
      route_quarantined (s_table s) h \<Longrightarrow> ToLower h \<in> set (s_pending s)"
    and "held s c h i \<Longrightarrow> c \<notin> s_orphan s \<Longrightarrow> Lookup (s_table s) h \<noteq> None"
  using assms unfolding gw_inv_def by blast+

lemma gw_invI:
  assumes "table_ok (s_table s)" "t_onQuarantine (s_table s) = Some True" "tracker_ok (s_tracker s)"
    and "\<And>c h i. held s c h i \<Longrightarrow> i \<le> tr_next (s_tracker s)"
    and "\<And>c c' h h' i. held s c h i \<Longrightarrow> held s c' h' i \<Longrightarrow> c = c'"
    and "\<And>c h i. held s c h i \<Longrightarrow> c \<notin> s_cut s \<Longrightarrow>
      \<exists>e. entry (s_tracker s) (ToLower h) i = Some e \<and> tk_close e = c"
    and "\<And>c h i. s_phase s c = Opened h i \<Longrightarrow> c \<notin> s_cut s \<Longrightarrow> c \<notin> s_orphan s \<Longrightarrow>
      route_quarantined (s_table s) h \<Longrightarrow> ToLower h \<in> set (s_pending s)"
    and "\<And>c h i. held s c h i \<Longrightarrow> c \<notin> s_orphan s \<Longrightarrow> Lookup (s_table s) h \<noteq> None"
  shows "gw_inv s"
  using assms unfolding gw_inv_def by blast

lemma set_quarantine_hosts: "h \<in> set (quarantine_hosts calls) \<longleftrightarrow> CallQuarantine h \<in> set calls"
  by (induction calls) (auto simp: quarantine_hosts_def split: hook_call.split)

lemma route_quarantined_iff:
  "route_quarantined t h \<longleftrightarrow> (\<exists>r. Lookup t h = Some r \<and> Quarantined r)"
  by (simp add: route_quarantined_def split: option.split)

lemma inv_update:
  assumes inv: "gw_inv s" and idle: "s_pending s = []"
    and up: "Update (s_table s) rs v = (t, changed, calls)"
  shows "gw_inv (s\<lparr>s_table := t, s_pending := quarantine_hosts calls,
    s_orphan := s_orphan s \<union> routeless t (s_phase s)\<rparr>)" (is "gw_inv ?s")
proof (rule gw_invI)
  note D = gw_invD [OF inv]
  have t: "t = fst (Update (s_table s) rs v)" and calls: "calls = snd (snd (Update (s_table s) rs v))"
    by (simp_all add: up)
  have held: "held ?s c h i = held s c h i" for c h i by (simp add: held_def)
  show "table_ok (s_table ?s)" by (simp add: t table_ok_Update D(1))
  show "t_onQuarantine (s_table ?s) = Some True" by (simp add: t D(2))
  show "tracker_ok (s_tracker ?s)" by (simp add: D(3))
  fix c c' h h' i
  show "i \<le> tr_next (s_tracker ?s)" if "held ?s c h i" using D(4) that by (simp add: held)
  show "c = c'" if "held ?s c h i" "held ?s c' h' i" using D(5) that by (simp add: held)
  show "\<exists>e. entry (s_tracker ?s) (ToLower h) i = Some e \<and> tk_close e = c"
    if "held ?s c h i" "c \<notin> s_cut ?s" using D(6) that by (simp add: held)
  show "Lookup (s_table ?s) h \<noteq> None" if "held ?s c h i" "c \<notin> s_orphan ?s"
    using that by (auto simp: held_def routeless_def)
  assume o: "s_phase ?s c = Opened h i" "c \<notin> s_cut ?s" "c \<notin> s_orphan ?s" "route_quarantined (s_table ?s) h"
  then have os: "s_phase s c = Opened h i" "c \<notin> s_cut s" "c \<notin> s_orphan s" by simp_all
  then have "\<not> route_quarantined (s_table s) h" using D(7) [OF os] idle by auto
  moreover have "Lookup (s_table s) h \<noteq> None" using D(8) [of c h i] os by (simp add: held_def)
  ultimately obtain old where "Lookup (s_table s) (ToLower h) = Some old" "\<not> Quarantined old"
    by (auto simp: route_quarantined_iff)
  moreover obtain r where "Lookup t (ToLower h) = Some r" "Quarantined r"
    using o(4) by (auto simp: route_quarantined_iff)
  ultimately have "CallQuarantine (ToLower h) \<in> set calls"
    unfolding calls quarantine_call_iff [OF D(1,2)] using t by auto
  then show "ToLower h \<in> set (s_pending ?s)" by (simp add: set_quarantine_hosts)
qed

lemma inv_hook:
  assumes inv: "gw_inv s" and pend: "s_pending s = h0 # hs"
    and cut: "CutHost (Some (s_tracker s)) h0 = (Some tr, res)"
  shows "gw_inv (s\<lparr>s_tracker := tr, s_pending := hs, s_cut := s_cut s \<union> set (cut_closed res)\<rparr>)"
    (is "gw_inv ?s")
proof (rule gw_invI)
  note D = gw_invD [OF inv]
  have tr: "tr = cut_state (s_tracker s) h0" using cut CutHost_Some [of "s_tracker s" h0] by simp
  have closed: "tk_close e \<in> s_cut ?s" if "entry (s_tracker s) (ToLower h0) j = Some e" for j e
  proof -
    have "(j, e) \<in> set (host_map (s_tracker s) (ToLower h0))"
      using that unfolding entry_def by (rule dict_get_in)
    then have "tk_close e \<in> set (cut_closed res)"
      using cut by (force simp: CutHost_def Let_def)
    then show ?thesis by simp
  qed
  have held: "held ?s c h i = held s c h i" for c h i by (simp add: held_def)
  show "table_ok (s_table ?s)" "t_onQuarantine (s_table ?s) = Some True" using D(1,2) by simp_all
  show "tracker_ok (s_tracker ?s)" by (simp add: tr tracker_ok_cut D(3))
  fix c c' h h' i
  show "i \<le> tr_next (s_tracker ?s)" if "held ?s c h i"
    using D(4) that [unfolded held] by (simp add: tr)
  show "c = c'" if "held ?s c h i" "held ?s c' h' i" using D(5) that by (simp add: held)
  show kept: "\<exists>e. entry (s_tracker ?s) (ToLower h) i = Some e \<and> tk_close e = c"
    if "held ?s c h i" "c \<notin> s_cut ?s"
  proof -
    have "held s c h i" "c \<notin> s_cut s" using that(1) [unfolded held] that(2) by simp_all
    then obtain e where e: "entry (s_tracker s) (ToLower h) i = Some e" "tk_close e = c"
      using D(6) [of c h i] by blast
    then have "ToLower h \<noteq> ToLower h0" using closed [of i e] that(2) by auto
    with e show ?thesis by (simp add: tr entry_cut)
  qed
  show "Lookup (s_table ?s) h \<noteq> None" if "held ?s c h i" "c \<notin> s_orphan ?s"
    using D(8) [of c h i] that by (simp add: held)
  assume o: "s_phase ?s c = Opened h i" "c \<notin> s_cut ?s" "c \<notin> s_orphan ?s" "route_quarantined (s_table ?s) h"
  then have "ToLower h \<in> set (h0 # hs)" using D(7) [of c h i] pend by auto
  moreover have "ToLower h \<noteq> h0"
    using kept o(1,2) by (auto simp: held_def tr entry_cut split: if_splits)
  ultimately show "ToLower h \<in> set (s_pending ?s)" by simp
qed

lemma inv_track:
  assumes inv: "gw_inv s" and ph: "s_phase s c0 = Dialed h0" and room: "tr_next (s_tracker s) + 1 \<noteq> 0"
    and tk: "Track (Some (s_tracker s)) h0 kind c0 = (Some tr, release.Release h1 i0 False)"
  shows "gw_inv (s\<lparr>s_tracker := tr, s_phase := (s_phase s)(c0 := Registering h0 i0),
       s_orphan := (if Lookup (s_table s) h0 = None then insert c0 (s_orphan s) else s_orphan s)\<rparr>)"
    (is "gw_inv ?s")
proof (rule gw_invI)
  note D = gw_invD [OF inv]
  have tr: "tr = tracked_state (s_tracker s) h0 kind c0" and i0: "i0 = tr_next (s_tracker s) + 1"
    using tk Track_Some [of "s_tracker s" h0 kind c0] by simp_all
  have held: "held ?s c h i \<longleftrightarrow> (c = c0 \<and> h = h0 \<and> i = i0) \<or> (c \<noteq> c0 \<and> held s c h i)" for c h i
    by (auto simp: held_def)
  have old: "i \<le> tr_next (s_tracker s) + 1 \<and> i \<noteq> i0" if "held s c h i" for c h i
    using word_le_Suc [OF room D(4) [OF that]] i0 by simp
  show "table_ok (s_table ?s)" "t_onQuarantine (s_table ?s) = Some True" using D(1,2) by simp_all
  show "tracker_ok (s_tracker ?s)" by (simp add: tr tracker_ok_Track D(3) room)
  fix c c' h h' i
  show "i \<le> tr_next (s_tracker ?s)" if "held ?s c h i"
    using that [unfolded held] old by (auto simp: tr i0)
  show "c = c'" if "held ?s c h i" "held ?s c' h' i"
    using that old D(5) by (auto simp: held)
  show "\<exists>e. entry (s_tracker ?s) (ToLower h) i = Some e \<and> tk_close e = c"
    if "held ?s c h i" "c \<notin> s_cut ?s"
    using that(1) [unfolded held] that(2) old D(6) by (auto simp: tr entry_Track i0)
  show "Lookup (s_table ?s) h \<noteq> None" if "held ?s c h i" "c \<notin> s_orphan ?s"
    using that D(8) by (auto simp: held split: if_splits)
  assume o: "s_phase ?s c = Opened h i" "c \<notin> s_cut ?s" "c \<notin> s_orphan ?s" "route_quarantined (s_table ?s) h"
  then show "ToLower h \<in> set (s_pending ?s)"
    using D(7) [of c h i] by (auto split: if_splits)
qed

lemma inv_release:
  assumes inv: "gw_inv s" and ph: "held s c0 h0 i0"
    and rel: "run_release (Some (s_tracker s)) (release.Release (ToLower h0) i0 False) = (Some tr, r)"
  shows "gw_inv (s\<lparr>s_tracker := tr, s_phase := (s_phase s)(c0 := Ended)\<rparr>)" (is "gw_inv ?s")
proof (rule gw_invI)
  note D = gw_invD [OF inv]
  have tr: "tr = do_release (s_tracker s) (ToLower h0) i0" using rel by (simp add: run_release_def)
  have held: "held ?s c h i \<longleftrightarrow> c \<noteq> c0 \<and> held s c h i" for c h i
    by (auto simp: held_def)
  show "table_ok (s_table ?s)" "t_onQuarantine (s_table ?s) = Some True" using D(1,2) by simp_all
  show "tracker_ok (s_tracker ?s)" by (simp add: tr tracker_ok_release D(3))
  fix c c' h h' i
  show "i \<le> tr_next (s_tracker ?s)" if "held ?s c h i"
    using that [unfolded held] D(4) by (auto simp: tr)
  show "c = c'" if "held ?s c h i" "held ?s c' h' i" using that D(5) by (auto simp: held)
  show "\<exists>e. entry (s_tracker ?s) (ToLower h) i = Some e \<and> tk_close e = c"
    if "held ?s c h i" "c \<notin> s_cut ?s"
  proof -
    have "i \<noteq> i0" using that(1) D(5) [OF ph, of c h] by (auto simp: held)
    then show ?thesis using that(1) [unfolded held] that(2) D(6) [of c h i] by (simp add: tr entry_release)
  qed
  show "Lookup (s_table ?s) h \<noteq> None" if "held ?s c h i" "c \<notin> s_orphan ?s"
    using that(1) [unfolded held] that(2) D(8) [of c h i] by simp
  show "ToLower h \<in> set (s_pending ?s)" if "s_phase ?s c = Opened h i" "c \<notin> s_cut ?s"
      "c \<notin> s_orphan ?s" "route_quarantined (s_table ?s) h"
    using that D(7) [of c h i] by (auto split: if_splits)
qed

lemma inv_phase:
  assumes inv: "gw_inv s"
    and ph: "p = Dialed h0 \<and> s_phase s c0 = Idle
      \<or> p = Opened h0 i0 \<and> s_phase s c0 = Registering h0 i0 \<and> \<not> route_quarantined (s_table s) h0"
  shows "gw_inv (s\<lparr>s_phase := (s_phase s)(c0 := p)\<rparr>)" (is "gw_inv ?s")
proof (rule gw_invI)
  note D = gw_invD [OF inv]
  have held: "held ?s c h i \<longleftrightarrow> held s c h i" for c h i
    using ph by (auto simp: held_def)
  show "table_ok (s_table ?s)" "t_onQuarantine (s_table ?s) = Some True" "tracker_ok (s_tracker ?s)"
    using D(1-3) by simp_all
  fix c c' h h' i
  show "i \<le> tr_next (s_tracker ?s)" if "held ?s c h i" using that D(4) by (auto simp: held)
  show "c = c'" if "held ?s c h i" "held ?s c' h' i" using that D(5) by (simp only: held)
  show "\<exists>e. entry (s_tracker ?s) (ToLower h) i = Some e \<and> tk_close e = c"
    if "held ?s c h i" "c \<notin> s_cut ?s" using that D(6) [of c h i] by (simp add: held)
  show "Lookup (s_table ?s) h \<noteq> None" if "held ?s c h i" "c \<notin> s_orphan ?s"
    using that D(8) by (simp add: held)
  show "ToLower h \<in> set (s_pending ?s)" if "s_phase ?s c = Opened h i" "c \<notin> s_cut ?s"
      "c \<notin> s_orphan ?s" "route_quarantined (s_table ?s) h"
    using that ph D(7) [of c h i] by (auto split: if_splits)
qed

lemma gw_inv_step: "gw_inv s \<Longrightarrow> gw_step s t \<Longrightarrow> gw_inv t"
  by (erule gw_stepE)
    (auto intro: inv_update inv_hook inv_track inv_release inv_phase simp: held_def split del: if_split)

lemma gw_inv_init: "gw_init s \<Longrightarrow> gw_inv s"
  by (auto simp: gw_init_def held_def table_ok_New tracker_ok_New OnQuarantine_def OnRetired_def
      intro!: gw_invI) (simp_all add: table_ok_def Route_Table.New_def)

interpretation gw: safety gw_init gw_step gw_inv
  by unfold_locales (rule gw_inv_init, assumption, rule gw_inv_step)

section \<open>Concrete runs\<close>

definition do_update :: "sys \<Rightarrow> Route list \<Rightarrow> string \<Rightarrow> sys" where
  "do_update s rs v = s\<lparr>s_table := fst (Update (s_table s) rs v),
     s_pending := quarantine_hosts (snd (snd (Update (s_table s) rs v))),
     s_orphan := s_orphan s \<union> routeless (fst (Update (s_table s) rs v)) (s_phase s)\<rparr>"

definition do_open :: "sys \<Rightarrow> nat \<Rightarrow> string \<Rightarrow> sys" where
  "do_open s c h = s\<lparr>s_tracker := tracked_state (s_tracker s) h KindSplice c,
     s_phase := (s_phase s)(c := Opened h (tr_next (s_tracker s) + 1))\<rparr>"

lemma reach_update:
  "reach gw_init gw_step s \<Longrightarrow> s_pending s = [] \<Longrightarrow> reach gw_init gw_step (do_update s rs v)"
  unfolding do_update_def
  by (erule reach_step, rule gw_step.update [where changed = "fst (snd (Update (s_table s) rs v))"]) simp_all

lemma reach_open:
  assumes r: "reach gw_init gw_step s" and i: "s_phase s c = Idle" and room: "tr_next (s_tracker s) + 1 \<noteq> 0"
    and l: "Lookup (s_table s) h = Some route" and q: "\<not> Quarantined route"
  shows "reach gw_init gw_step (do_open s c h)"
proof -
  let ?i = "tr_next (s_tracker s) + 1" and ?tr = "tracked_state (s_tracker s) h KindSplice c"
  let ?s1 = "s\<lparr>s_phase := (s_phase s)(c := Dialed h)\<rparr>"
  let ?s2 = "?s1\<lparr>s_tracker := ?tr, s_phase := (s_phase ?s1)(c := Registering h ?i),
    s_orphan := (if Lookup (s_table ?s1) h = None then insert c (s_orphan ?s1) else s_orphan ?s1)\<rparr>"
  let ?s3 = "?s2\<lparr>s_phase := (s_phase ?s2)(c := Opened h ?i)\<rparr>"
  have "reach gw_init gw_step ?s1" by (rule reach_step [OF r gw_step.dial [OF i l q]])
  then have "reach gw_init gw_step ?s2"
    by (rule reach_step) (rule gw_step.track [where h' = "ToLower h" and kind = KindSplice];
      simp add: room Track_Some)
  then have "reach gw_init gw_step ?s3"
    by (rule reach_step) (rule gw_step.recheck_open; simp add: route_quarantined_def l q)
  moreover have "?s3 = do_open s c h" by (simp add: do_open_def l)
  ultimately show ?thesis by simp
qed

definition start :: sys where
  "start = \<lparr>s_table = OnRetired (OnQuarantine Route_Table.New True) True, s_tracker = NewTracker,
     s_pending = [], s_phase = (\<lambda>c. Idle), s_cut = {}, s_orphan = {}\<rparr>"

definition run_open :: sys where
  "run_open = do_open (do_update start [plain_route ''a.x'' ''u''] ''v1'') 0 ''a.x''"

definition run_readded :: sys where
  "run_readded = do_update (do_update run_open [] ''v2'')
     [(plain_route ''a.x'' ''u'')\<lparr>State := ''quarantined''\<rparr>] ''v3''"

lemma lower_ax: "ToLower ''a.x'' = ''a.x''"
  by code_simp

lemma lookup_run_open: "Lookup (s_table run_open) ''a.x'' = Some (plain_route ''a.x'' ''u'')"
  by (simp add: run_open_def do_open_def do_update_def start_def Lookup_Update last_route_def lower_ax
      plain_route_def OnRetired_def OnQuarantine_def Route_Table.New_def)

lemma no_hosts: "(\<And>h. CallQuarantine h \<notin> set calls) \<Longrightarrow> quarantine_hosts calls = []"
  using set_quarantine_hosts by (metis list.set_intros(1) neq_Nil_conv)

lemma reach_run_open: "reach gw_init gw_step run_open" "s_pending run_open = []"
proof -
  have s: "reach gw_init gw_step start" by (rule reach_init) (simp add: gw_init_def start_def)
  have p: "s_pending (do_update start [plain_route ''a.x'' ''u''] ''v1'') = []"
    using gw_invD(1,2) [OF gw_inv_init, of start]
    by (auto simp: do_update_def gw_init_def start_def quarantine_call_iff intro!: no_hosts)
      (simp add: Lookup_def OnRetired_def OnQuarantine_def Route_Table.New_def)
  then show "s_pending run_open = []" by (simp add: run_open_def do_open_def)
  have "reach gw_init gw_step (do_update start [plain_route ''a.x'' ''u''] ''v1'')"
    by (rule reach_update [OF s]) (simp add: start_def)
  then show "reach gw_init gw_step run_open"
    unfolding run_open_def
    by (rule reach_open [where route = "plain_route ''a.x'' ''u''"])
      (use lookup_run_open in \<open>simp_all add: run_open_def do_open_def do_update_def start_def
        NewTracker_def plain_route_def Quarantined_def StateQuarantined_def\<close>)
qed

section \<open>Properties\<close>

text \<open>
  C1. Quarantine reaches open traffic under every interleaving of updates, hook calls,
  lookups, registrations and releases: once the hooks of the last update have run, no traffic
  is open and uncut whose host's route is quarantined, provided its host had a route in every
  table since it registered. In particular a quarantine that lands between a handler's first
  lookup and its registration, or between registration and second lookup, is not missed.
\<close>

theorem quarantine_cuts_open_traffic:
  assumes "reach gw_init gw_step s" and "s_pending s = []"
    and "s_phase s c = Opened h i" and "c \<notin> s_cut s" and "c \<notin> s_orphan s"
  shows "\<not> (\<exists>r. Lookup (s_table s) h = Some r \<and> Quarantined r)"
  using gw_invD(7) [OF gw.reach_inv [OF assms(1)] assms(3-5)] assms(2)
  by (auto simp: route_quarantined_iff)

theorem quarantine_cuts_open_traffic_witness:
  "\<not> (\<exists>r. Lookup (s_table run_open) ''a.x'' = Some r \<and> Quarantined r)"
  by (rule quarantine_cuts_open_traffic [OF reach_run_open, where c = 0 and i = 1])
    (simp_all add: run_open_def do_open_def do_update_def start_def NewTracker_def routeless_def)

text \<open>
  The proviso is needed: there is a run in which a host is dropped from the feed while
  traffic is open and comes back quarantined; the update that brings it back announces
  nothing, so the traffic stays open, uncut, to a quarantined enclave with no hook call left.
\<close>

theorem readded_quarantine_is_not_cut:
  "\<exists>s c h i r. reach gw_init gw_step s \<and> s_pending s = [] \<and> s_phase s c = Opened h i
     \<and> c \<notin> s_cut s \<and> Lookup (s_table s) h = Some r \<and> Quarantined r"
proof -
  let ?q = "(plain_route ''a.x'' ''u'')\<lparr>State := ''quarantined''\<rparr>"
  let ?s2 = "do_update run_open [] ''v2''"
  note inv = gw_invD(1,2) [OF gw.reach_inv]
  have r2: "reach gw_init gw_step ?s2" by (rule reach_update [OF reach_run_open])
  have l2: "Lookup (s_table ?s2) h = None" for h
    by (simp add: do_update_def run_open_def do_open_def start_def OnRetired_def OnQuarantine_def
        Route_Table.New_def Update_fresh(1) Lookup_def dict_get_load)
  have p2: "s_pending ?s2 = []"
    using inv [OF reach_run_open(1)] l2 unfolding do_update_def [of run_open]
    by (auto simp: quarantine_call_iff intro!: no_hosts)
  have p3: "s_pending run_readded = []"
    unfolding run_readded_def do_update_def [of ?s2]
    using inv [OF r2] l2 by (auto simp: quarantine_call_iff intro!: no_hosts)
  have "reach gw_init gw_step run_readded"
    unfolding run_readded_def by (rule reach_update [OF r2 p2])
  moreover have "Lookup (s_table run_readded) ''a.x'' = Some ?q"
    by (simp add: run_readded_def do_update_def lower_ax plain_route_def run_open_def do_open_def start_def
        OnRetired_def OnQuarantine_def Route_Table.New_def Update_fresh(1) Lookup_def dict_get_load)
  moreover have "s_phase run_readded 0 = Opened ''a.x'' 1" "0 \<notin> s_cut run_readded"
    by (simp_all add: run_readded_def run_open_def do_open_def do_update_def start_def NewTracker_def)
  moreover have "Quarantined ?q" by (simp add: Quarantined_def StateQuarantined_def)
  ultimately show ?thesis using p3 by blast
qed

end
