(* ===== verification/Cors.thy ===== *)
theory Cors
  imports Quarantine Tunnel
begin

text \<open>
  The CORS layer of \<^verbatim>\<open>internal/terminate/terminate.go\<close>: the origin allow-list with its wildcard
  entries, the preflight answer, and the three header rewrites around the reverse proxy: the
  gateway's injection, the stripping of the upstream's CORS headers and the reconciliation of
  responses the enclave marked public.
\<close>

section \<open>The allow-list\<close>

definition parseWildcardOrigin :: "string \<Rightarrow> string option" where
  "parseWildcardOrigin spec =
     (let s = TrimSpace spec;
          s = (case Index s ''://'' of Some i \<Rightarrow> drop (i + 3) s | None \<Rightarrow> s);
          s = (case Index s '':'' of Some i \<Rightarrow> take i s | None \<Rightarrow> s);
          s = (case Index s ''/'' of Some i \<Rightarrow> take i s | None \<Rightarrow> s)
      in if \<not> HasPrefix s ''*.'' then None
         else let suf = ToLower (TrimPrefix s ''*.'') in if suf = [] then None else Some suf)"

definition originHost :: "string \<Rightarrow> string" where
  "originHost origin =
     (let s = origin;
          s = (case Index s ''://'' of Some i \<Rightarrow> drop (i + 3) s | None \<Rightarrow> s);
          s = (case Index s ''/'' of Some i \<Rightarrow> take i s | None \<Rightarrow> s);
          s = (case Index s '':'' of Some i \<Rightarrow> take i s | None \<Rightarrow> s)
      in ToLower s)"

text \<open>The two fields of \<^verbatim>\<open>Handler\<close> that \<open>New\<close> fills from the configured origins.\<close>

record cors =
  corsOrigins :: "(string, unit) dict"
  corsSuffixes :: "string list"

definition load_origin :: "string \<Rightarrow> cors \<Rightarrow> cors" where
  "load_origin entry c =
     (let o' = TrimSpace entry in
      if o' = [] then c
      else case parseWildcardOrigin o' of
        Some suf \<Rightarrow> c\<lparr>corsSuffixes := corsSuffixes c @ [suf]\<rparr>
      | None \<Rightarrow> c\<lparr>corsOrigins := dict_set (corsOrigins c) o' ()\<rparr>)"

definition load_origins :: "string list \<Rightarrow> cors" where
  "load_origins entries = fold load_origin entries \<lparr>corsOrigins = [], corsSuffixes = []\<rparr>"

definition isAllowedOrigin :: "cors \<Rightarrow> string \<Rightarrow> bool" where
  "isAllowedOrigin c origin =
     (if origin = [] then False
      else if dict_get (corsOrigins c) origin \<noteq> None then True
      else if length (corsSuffixes c) = 0 then False
      else let host = originHost origin in
        if host = [] then False
        else list_ex (\<lambda>suf. host = suf \<or> HasSuffix host (''.'' @ suf)) (corsSuffixes c))"

section \<open>Preflight\<close>

definition writeCORSPreflight :: "Request \<Rightarrow> string" where
  "writeCORSPreflight req =
     (let origin = h_get (req_Header req) ''Origin'';
          method = h_get (req_Header req) ''Access-Control-Request-Method'';
          method = (if method = [] then ''GET, POST, PUT, DELETE, OPTIONS'' else method);
          headers = h_get (req_Header req) ''Access-Control-Request-Headers'';
          headers = (if headers = [] then ''Authorization, Content-Type, Accept'' else headers)
      in ''HTTP/1.1 204 No Content'' @ crlf
         @ ''Access-Control-Allow-Origin: '' @ origin @ crlf
         @ ''Access-Control-Allow-Methods: '' @ method @ crlf
         @ ''Access-Control-Allow-Headers: '' @ headers @ crlf
         @ ''Access-Control-Allow-Credentials: true'' @ crlf
         @ ''Access-Control-Max-Age: 600'' @ crlf
         @ ''Vary: Origin'' @ crlf
         @ ''Content-Length: 0'' @ crlf
         @ crlf)"

section \<open>Header rewrites\<close>

definition publicTransportHeader :: string where
  "publicTransportHeader = ''X-Privasys-Transport''"

definition isPublicResponse :: "Header \<Rightarrow> bool" where
  "isPublicResponse h = (h_get h publicTransportHeader = ''public'')"

text \<open>The merge of the exposed-header lists: tokens in order, the first of equal ones up to case.\<close>

definition merge_token :: "string \<Rightarrow> string list \<times> string list \<Rightarrow> string list \<times> string list" where
  "merge_token tok sm = (case sm of (seen, merged) \<Rightarrow>
     let t = TrimSpace tok in
     if t = [] \<or> ToLower t \<in> set seen then (seen, merged)
     else (ToLower t # seen, merged @ [t]))"

definition merge_lines :: "string list \<Rightarrow> string list" where
  "merge_lines vs = snd (fold (\<lambda>l sm. fold merge_token (Split l (CHR '','')) sm) vs ([], []))"

definition reconcilePublicCORS :: "Header \<Rightarrow> Header" where
  "reconcilePublicCORS h =
     (if \<not> isPublicResponse h then h
      else
        let h = h_del h ''Access-Control-Allow-Credentials'';
            open' = list_ex (\<lambda>v. TrimSpace v = ''*'') (h_values h ''Access-Control-Allow-Origin'');
            h = (if open' then h_del (h_set h ''Access-Control-Allow-Origin'' ''*'') ''Vary'' else h);
            vs = h_values h ''Access-Control-Expose-Headers''
        in if length vs > 1
           then h_set h ''Access-Control-Expose-Headers'' (Join (merge_lines vs) '', '')
           else h)"

text \<open>The response headers \<open>serveHTTP\<close> sets on the writer before the proxy runs.\<close>

definition inject_cors :: "cors \<Rightarrow> string \<Rightarrow> Header" where
  "inject_cors c origin =
     (if origin \<noteq> [] \<and> isAllowedOrigin c origin then
        h_set (h_set (h_set (h_set [] ''Access-Control-Allow-Origin'' origin) ''Vary'' ''Origin'')
          ''Access-Control-Allow-Credentials'' ''true'')
          ''Access-Control-Expose-Headers''
          ''X-Privasys-Reason, X-Privasys-EncAuth-Reject, X-Privasys-Inner-Status, X-Privasys-Edge''
      else [])"

text \<open>\<open>ModifyResponse\<close> of the reverse proxy.\<close>

definition stripped_headers :: "string list" where
  "stripped_headers =
     [''Access-Control-Allow-Origin'', ''Access-Control-Allow-Credentials'', ''Access-Control-Allow-Methods'',
      ''Access-Control-Allow-Headers'', ''Access-Control-Expose-Headers'', ''Access-Control-Max-Age'']"

definition kept_tokens :: "string \<Rightarrow> string list" where
  "kept_tokens l = filter (\<lambda>t. \<not> (t = [] \<or> EqualFold t ''Origin'')) (map TrimSpace (Split l (CHR '','')))"

definition strip_vary :: "Header \<Rightarrow> Header" where
  "strip_vary h =
     (let vs = h_values h ''Vary'' in
      if length vs > 0 then
        fold (\<lambda>l h. if length (kept_tokens l) > 0 then h_add h ''Vary'' (Join (kept_tokens l) '', '') else h)
          vs (h_del h ''Vary'')
      else h)"

definition ModifyResponse :: "Header \<Rightarrow> Header" where
  "ModifyResponse h =
     (if isPublicResponse h then h_del h ''Access-Control-Allow-Credentials''
      else strip_vary (fold (\<lambda>k h. h_del h k) stripped_headers h))"

text \<open>
  \<open>Director\<close>: what the gateway does to the forwarded request after the library's own rewrite.
\<close>

definition Director :: "string \<Rightarrow> Request \<Rightarrow> Request" where
  "Director upstreamName req =
     (let h = h_set (h_del (req_Header req) ''X-Forwarded-Proto'') ''X-Forwarded-Proto'' ''https'';
          h = h_set (h_del h ''X-Privasys-Edge'') ''X-Privasys-Edge'' ''terminate''
      in req\<lparr>req_Host := upstreamName, req_Header := h\<rparr>)"

text \<open>The refusal headers of \<open>refuseQuarantined\<close>.\<close>

definition refusal_cors :: "cors \<Rightarrow> Request \<Rightarrow> Header" where
  "refusal_cors c req =
     (let origin = h_get (req_Header req) ''Origin'' in
      if origin \<noteq> [] \<and> isAllowedOrigin c origin then
        h_set (h_set (h_set (h_set [] ''Access-Control-Allow-Origin'' origin)
          ''Access-Control-Allow-Credentials'' ''true'')
          ''Access-Control-Expose-Headers'' ''Retry-After'') ''Vary'' ''Origin''
      else [])"

text \<open>
  \<^verbatim>\<open>httputil.ReverseProxy\<close> copies the response's headers onto the writer's: every value is added
  under its key.
\<close>

definition copyHeader :: "Header \<Rightarrow> Header \<Rightarrow> Header" where
  "copyHeader dst src = fold (\<lambda>(k, vs) d. fold (\<lambda>v d. h_add d k v) vs d) src dst"

definition terminate_writeStatus :: "nat \<Rightarrow> string \<Rightarrow> string" where
  "terminate_writeStatus code msg =
     (let body = Itoa code @ '' '' @ msg @ [CHR 0x0A] in
      ''HTTP/1.1 '' @ Itoa code @ '' '' @ StatusText code @ crlf
      @ ''Content-Type: text/plain; charset=utf-8'' @ crlf
      @ ''Content-Length: '' @ Itoa (length body) @ crlf
      @ ''Connection: close'' @ crlf @ crlf @ body)"

section \<open>Header keys\<close>

lemma canon [simp]:
  "CanonicalHeaderKey ''Access-Control-Allow-Origin'' = ''Access-Control-Allow-Origin''"
  "CanonicalHeaderKey ''Access-Control-Allow-Credentials'' = ''Access-Control-Allow-Credentials''"
  "CanonicalHeaderKey ''Access-Control-Allow-Methods'' = ''Access-Control-Allow-Methods''"
  "CanonicalHeaderKey ''Access-Control-Allow-Headers'' = ''Access-Control-Allow-Headers''"
  "CanonicalHeaderKey ''Access-Control-Expose-Headers'' = ''Access-Control-Expose-Headers''"
  "CanonicalHeaderKey ''Access-Control-Max-Age'' = ''Access-Control-Max-Age''"
  "CanonicalHeaderKey ''Vary'' = ''Vary''"
  "CanonicalHeaderKey ''X-Privasys-Transport'' = ''X-Privasys-Transport''"
  "CanonicalHeaderKey ''X-Privasys-Edge'' = ''X-Privasys-Edge''"
  "CanonicalHeaderKey ''X-Forwarded-Proto'' = ''X-Forwarded-Proto''"
  "CanonicalHeaderKey ''Origin'' = ''Origin''"
  by code_simp+

section \<open>The allow-list\<close>

lemma Index_single: "Index s [c] = (if c \<in> set s then Some (length (takeWhile (\<lambda>x. x \<noteq> c) s)) else None)"
  by (induction s) (auto simp: HasPrefix_def)

lemma load_origins_fold:
  "fold load_origin es c = c\<lparr>
     corsOrigins := fold (\<lambda>e m. dict_set m e ())
       (filter (\<lambda>e. e \<noteq> [] \<and> parseWildcardOrigin e = None) (map TrimSpace es)) (corsOrigins c),
     corsSuffixes := corsSuffixes c @ map (\<lambda>e. the (parseWildcardOrigin e))
       (filter (\<lambda>e. e \<noteq> [] \<and> parseWildcardOrigin e \<noteq> None) (map TrimSpace es))\<rparr>"
proof (induction es arbitrary: c)
  case (Cons e es)
  show ?case
    by (simp add: Cons load_origin_def [of e] Let_def split: option.split)
qed simp

lemma load_origins_eq:
  "dict_get (corsOrigins (load_origins es)) x \<noteq> None \<longleftrightarrow>
     x \<in> TrimSpace ` set es \<and> x \<noteq> [] \<and> parseWildcardOrigin x = None"
  "suf \<in> set (corsSuffixes (load_origins es)) \<longleftrightarrow>
     (\<exists>e \<in> set es. TrimSpace e \<noteq> [] \<and> parseWildcardOrigin (TrimSpace e) = Some suf)"
proof -
  have "dict_get (fold (\<lambda>e m. dict_set m e ()) xs d) x \<noteq> None \<longleftrightarrow> x \<in> set xs \<or> dict_get d x \<noteq> None" for xs d
    by (induction xs arbitrary: d) auto
  from this [of "filter (\<lambda>e. e \<noteq> [] \<and> parseWildcardOrigin e = None) (map TrimSpace es)" "[]"]
  show "dict_get (corsOrigins (load_origins es)) x \<noteq> None \<longleftrightarrow>
     x \<in> TrimSpace ` set es \<and> x \<noteq> [] \<and> parseWildcardOrigin x = None"
    by (auto simp: load_origins_def load_origins_fold)
  show "suf \<in> set (corsSuffixes (load_origins es)) \<longleftrightarrow>
     (\<exists>e \<in> set es. TrimSpace e \<noteq> [] \<and> parseWildcardOrigin (TrimSpace e) = Some suf)"
    by (force simp: load_origins_def load_origins_fold)
qed

lemma wildcard_nonempty: "parseWildcardOrigin s = Some suf \<Longrightarrow> suf \<noteq> [] \<and> ToLower suf = suf"
  by (auto simp: parseWildcardOrigin_def Let_def split: if_splits)

section \<open>Header rewrites\<close>

lemma h_values_fold_del:
  "h_values (fold (\<lambda>k h. h_del h k) ks h) j =
     (if CanonicalHeaderKey j \<in> CanonicalHeaderKey ` set ks then [] else h_values h j)"
  by (induction ks arbitrary: h) auto

lemma h_values_fold_add:
  "h_values (fold (\<lambda>v d. h_add d k v) vs d) j =
     (if CanonicalHeaderKey j = CanonicalHeaderKey k then h_values d j @ vs else h_values d j)"
  by (induction vs arbitrary: d) auto

lemma h_values_copyHeader:
  assumes "canonical_header src"
  shows "h_values (copyHeader dst src) j = h_values dst j @ h_values src j"
  using assms
proof (induction src arbitrary: dst)
  case (Cons kv src)
  obtain k vs where kv: "kv = (k, vs)" by (cases kv)
  from Cons.prems have src: "canonical_header src" and k: "CanonicalHeaderKey k = k" "k \<notin> fst ` set src"
    by (auto simp: canonical_header_def dict_ok_def kv)
  have "h_values src k = []"
    using k dict_get_None_iff [of src k] by (simp add: h_values_def)
  moreover have "h_values (kv # src) j = (if CanonicalHeaderKey j = k then vs else h_values src j)"
    by (simp add: h_values_def kv dict_get_def)
  ultimately show ?case
    using Cons.IH [OF src, of "fold (\<lambda>v d. h_add d k v) vs dst"] k(1)
    by (auto simp: copyHeader_def kv h_values_fold_add) (simp add: h_values_def)
qed (simp add: copyHeader_def)

lemma h_values_strip_fold:
  "CanonicalHeaderKey j \<noteq> ''Vary'' \<Longrightarrow>
   h_values (fold (\<lambda>l h. if kept_tokens l \<noteq> [] then h_add h ''Vary'' (Join (kept_tokens l) '', '') else h) vs h) j
     = h_values h j"
  by (induction vs arbitrary: h) auto

lemma h_values_strip_vary:
  "CanonicalHeaderKey j \<noteq> ''Vary'' \<Longrightarrow> h_values (strip_vary h) j = h_values h j"
  "h_values (strip_vary h) ''Vary'' =
     map (\<lambda>l. Join (kept_tokens l) '', '') (filter (\<lambda>l. kept_tokens l \<noteq> []) (h_values h ''Vary''))"
proof -
  show "CanonicalHeaderKey j \<noteq> ''Vary'' \<Longrightarrow> h_values (strip_vary h) j = h_values h j"
    by (simp add: strip_vary_def Let_def h_values_strip_fold)
  have "h_values (fold (\<lambda>l h. if length (kept_tokens l) > 0 then h_add h ''Vary'' (Join (kept_tokens l) '', '')
      else h) vs h) ''Vary'' = h_values h ''Vary''
      @ map (\<lambda>l. Join (kept_tokens l) '', '') (filter (\<lambda>l. kept_tokens l \<noteq> []) vs)" for vs h
    by (induction vs arbitrary: h) auto
  then show "h_values (strip_vary h) ''Vary'' =
     map (\<lambda>l. Join (kept_tokens l) '', '') (filter (\<lambda>l. kept_tokens l \<noteq> []) (h_values h ''Vary''))"
    by (simp add: strip_vary_def Let_def)
qed

lemma canonical_header_ops:
  "canonical_header h \<Longrightarrow> canonical_header (h_del h k)"
  "canonical_header h \<Longrightarrow> canonical_header (h_set h k v)"
  "canonical_header h \<Longrightarrow> canonical_header (h_add h k v)"
proof -
  have "list_all (\<lambda>(k, vs). CanonicalHeaderKey k = k) h \<Longrightarrow>
      list_all (\<lambda>(k, vs). CanonicalHeaderKey k = k) (AList.update (CanonicalHeaderKey k) vs h)" for vs
    by (induction h) auto
  then have "canonical_header h \<Longrightarrow> canonical_header (dict_set h (CanonicalHeaderKey k) vs)" for vs
    using gomap.ok_put [of h "CanonicalHeaderKey k" vs] by (simp add: canonical_header_def dict_set_def)
  then show "canonical_header h \<Longrightarrow> canonical_header (h_set h k v)" "canonical_header h \<Longrightarrow> canonical_header (h_add h k v)"
    by (simp_all add: h_set_def h_add_def)
  show "canonical_header h \<Longrightarrow> canonical_header (h_del h k)"
    unfolding canonical_header_def h_del_def
    by (auto simp: dict_del_def AList.delete_eq list_all_iff dict_ok_def distinct_map_filter)
qed

lemma canonical_ModifyResponse: "canonical_header h \<Longrightarrow> canonical_header (ModifyResponse h)"
proof -
  assume h: "canonical_header h"
  have del: "canonical_header h \<Longrightarrow> canonical_header (fold (\<lambda>k h. h_del h k) ks h)" for ks h
    by (induction ks arbitrary: h) (auto intro: canonical_header_ops)
  have "canonical_header h \<Longrightarrow> canonical_header (fold (\<lambda>l h. if kept_tokens l \<noteq> [] then
      h_add h ''Vary'' (Join (kept_tokens l) '', '') else h) vs h)" for vs h
    by (induction vs arbitrary: h) (auto intro: canonical_header_ops)
  then have "canonical_header h \<Longrightarrow> canonical_header (strip_vary h)" for h
    by (simp add: strip_vary_def Let_def canonical_header_ops)
  with h show ?thesis
    by (simp add: ModifyResponse_def canonical_header_ops del)
qed

lemma ModifyResponse_values:
  "h_values (ModifyResponse h) j =
     (if isPublicResponse h
      then if CanonicalHeaderKey j = ''Access-Control-Allow-Credentials'' then [] else h_values h j
      else if CanonicalHeaderKey j \<in> set stripped_headers then []
      else if CanonicalHeaderKey j = ''Vary''
      then map (\<lambda>l. Join (kept_tokens l) '', '') (filter (\<lambda>l. kept_tokens l \<noteq> []) (h_values h ''Vary''))
      else h_values h j)"
proof (cases "isPublicResponse h")
  case False
  have keys: "CanonicalHeaderKey ` set stripped_headers = set stripped_headers" "''Vary'' \<notin> set stripped_headers"
    by (simp_all add: stripped_headers_def)
  show ?thesis
  proof (cases "CanonicalHeaderKey j = ''Vary''")
    case True
    then have "h_values h' j = h_values h' ''Vary''" for h'
      by (simp add: h_values_def)
    with False True keys show ?thesis
      by (simp add: ModifyResponse_def h_values_strip_vary h_values_fold_del)
  next
    case other: False
    with False keys show ?thesis
      by (simp add: ModifyResponse_def h_values_strip_vary h_values_fold_del)
  qed
qed (simp add: ModifyResponse_def)

lemma isPublic_values: "isPublicResponse h \<longleftrightarrow> (\<exists>vs. h_values h ''X-Privasys-Transport'' = ''public'' # vs)"
  by (auto simp: isPublicResponse_def publicTransportHeader_def h_get_def split: list.split)

text \<open>
  The headers that reach the client for a proxied response: the gateway's injection, the
  modified upstream headers copied onto it, and the reconciliation when they are written.
\<close>

definition client_headers :: "cors \<Rightarrow> string \<Rightarrow> Header \<Rightarrow> Header" where
  "client_headers c origin upstream =
     reconcilePublicCORS (copyHeader (inject_cors c origin) (ModifyResponse upstream))"

section \<open>Properties\<close>

text \<open>
  C23. The allow-list is exact: a non-empty origin is allowed if and only if it is literally one
  of the configured entries that are not wildcards, or the lower-cased host of the origin is
  the suffix of a configured wildcard or ends in a dot followed by it. A host that merely ends
  in the same letters is not allowed.
\<close>

theorem isAllowedOrigin_exact:
  "isAllowedOrigin (load_origins entries) origin \<longleftrightarrow>
     origin \<noteq> [] \<and>
     ((origin \<in> TrimSpace ` set entries \<and> parseWildcardOrigin origin = None)
      \<or> (\<exists>suf \<in> {suf. \<exists>e \<in> set entries. parseWildcardOrigin (TrimSpace e) = Some suf \<and> TrimSpace e \<noteq> []}.
           originHost origin = suf \<or> (\<exists>sub. originHost origin = sub @ ''.'' @ suf)))"
proof -
  let ?c = "load_origins entries" and ?h = "originHost origin"
  have "suf \<noteq> []" if "suf \<in> set (corsSuffixes ?c)" for suf
    using that wildcard_nonempty by (auto simp: load_origins_eq)
  then have ne: "?h \<noteq> []" if "suf \<in> set (corsSuffixes ?c)" "?h = suf \<or> HasSuffix ?h (''.'' @ suf)" for suf
    using that by (auto simp: HasSuffix_def)
  have "isAllowedOrigin ?c origin \<longleftrightarrow> origin \<noteq> [] \<and>
      (dict_get (corsOrigins ?c) origin \<noteq> None
       \<or> (\<exists>suf \<in> set (corsSuffixes ?c). ?h = suf \<or> HasSuffix ?h (''.'' @ suf)))"
    using ne by (auto simp: isAllowedOrigin_def Let_def list_ex_iff HasSuffix_def)
  moreover have "set (corsSuffixes ?c) =
      {suf. \<exists>e \<in> set entries. parseWildcardOrigin (TrimSpace e) = Some suf \<and> TrimSpace e \<noteq> []}"
    by (auto simp: load_origins_eq)
  ultimately show ?thesis
    using load_origins_eq(1) [of entries origin] by (auto simp: HasSuffix_iff)
qed

theorem isAllowedOrigin_exact_witness:
  "isAllowedOrigin (load_origins [''https://*.privasys.org'']) ''https://chat.privasys.org''"
proof -
  have "parseWildcardOrigin (TrimSpace ''https://*.privasys.org'') = Some ''privasys.org''"
    "TrimSpace ''https://*.privasys.org'' \<noteq> []" "originHost ''https://chat.privasys.org'' = ''chat'' @ ''.'' @ ''privasys.org''"
    by code_simp+
  with isAllowedOrigin_exact [of "[''https://*.privasys.org'']" "''https://chat.privasys.org''"]
  show ?thesis by auto
qed

lemma inject_values:
  "h_values (inject_cors c origin) j =
     (if origin = [] \<or> \<not> isAllowedOrigin c origin then []
      else if CanonicalHeaderKey j = ''Access-Control-Allow-Origin'' then [origin]
      else if CanonicalHeaderKey j = ''Access-Control-Allow-Credentials'' then [''true'']
      else if CanonicalHeaderKey j = ''Access-Control-Expose-Headers''
      then [''X-Privasys-Reason, X-Privasys-EncAuth-Reject, X-Privasys-Inner-Status, X-Privasys-Edge'']
      else if CanonicalHeaderKey j = ''Vary'' then [''Origin''] else [])"
  by (simp add: inject_cors_def)

lemma reconcile_values:
  assumes "isPublicResponse h"
  shows "h_values (reconcilePublicCORS h) j =
     (let star = list_ex (\<lambda>v. TrimSpace v = ''*'') (h_values h ''Access-Control-Allow-Origin'') in
      if CanonicalHeaderKey j = ''Access-Control-Allow-Credentials'' then []
      else if CanonicalHeaderKey j = ''Access-Control-Allow-Origin'' \<and> star then [''*'']
      else if CanonicalHeaderKey j = ''Vary'' \<and> star then []
      else if CanonicalHeaderKey j = ''Access-Control-Expose-Headers'' \<and> length (h_values h j) > 1
      then [Join (merge_lines (h_values h j)) '', '']
      else h_values h j)"
proof -
  have "h_values h j = h_values h k" if "CanonicalHeaderKey j = k" "CanonicalHeaderKey k = k" for k
    using that by (simp add: h_values_def)
  note expose = this [of "''Access-Control-Expose-Headers''"]
  show ?thesis
    using assms expose by (auto simp: reconcilePublicCORS_def Let_def)
qed



text \<open>
  The \<open>Director\<close> itself: whatever the client sent, it sets the terminate marker and the
  forwarded protocol to one value each and the host to the upstream's name, and keeps the rest.
\<close>

lemma Director_values:
  "h_values (req_Header (Director name req)) k =
     (if CanonicalHeaderKey k = ''X-Privasys-Edge'' then [''terminate'']
      else if CanonicalHeaderKey k = ''X-Forwarded-Proto'' then [''https'']
      else h_values (req_Header req) k)
   \<and> req_Host (Director name req) = name
   \<and> req_Method (Director name req) = req_Method req \<and> req_Path (Director name req) = req_Path req"
  by (simp add: Director_def Let_def)

end
