(* ===== verification/Response_Writer.thy ===== *)
theory Response_Writer
  imports Cors
begin

text \<open>
  \<^verbatim>\<open>internal/terminate/io.go\<close>: the response writer of terminate mode, which frames an HTTP/1.1
  response on the client's TLS connection itself. Underneath it is Go's \<^verbatim>\<open>bufio.Writer\<close>: a 4096
  byte buffer in front of a connection that may stop accepting bytes at any point, with the
  error sticking to the writer. The wire text is a Go byte string. The replaying connection of
  the same file is in \<open>Conn_Replay\<close>.
\<close>

section \<open>The buffered connection\<close>

text \<open>
  \<open>bw_room\<close> is how many more bytes the connection accepts before its writes fail, \<^term>\<open>None\<close> when
  they never do.
\<close>

record bufio_Writer =
  bw_wire :: string
  bw_room :: "nat option"
  bw_buf :: string
  bw_err :: bool

definition bufSize :: nat where "bufSize = 4096"

definition conn_Write :: "bufio_Writer \<Rightarrow> string \<Rightarrow> bufio_Writer \<times> nat \<times> bool" where
  "conn_Write b p =
     (let n = (case bw_room b of None \<Rightarrow> length p | Some k \<Rightarrow> min k (length p))
      in (b\<lparr>bw_wire := bw_wire b @ take n p, bw_room := map_option (\<lambda>k. k - n) (bw_room b)\<rparr>, n, n = length p))"

definition bw_Flush :: "bufio_Writer \<Rightarrow> bufio_Writer \<times> bool" where
  "bw_Flush b =
     (if bw_err b then (b, False)
      else if bw_buf b = [] then (b, True)
      else case conn_Write b (bw_buf b) of (b1, n, ok) \<Rightarrow>
        (b1\<lparr>bw_buf := drop n (bw_buf b), bw_err := \<not> ok\<rparr>, ok))"

definition bw_direct :: "bufio_Writer \<Rightarrow> string \<Rightarrow> bufio_Writer \<times> nat \<times> bool" where
  "bw_direct b p = (case conn_Write b p of (b1, n, ok) \<Rightarrow> (b1\<lparr>bw_err := \<not> ok\<rparr>, n, ok))"

definition bw_Write :: "bufio_Writer \<Rightarrow> string \<Rightarrow> bufio_Writer \<times> nat \<times> bool" where
  "bw_Write b p =
     (if bw_err b then (b, 0, False)
      else let avail = bufSize - length (bw_buf b) in
        if length p \<le> avail then (b\<lparr>bw_buf := bw_buf b @ p\<rparr>, length p, True)
        else if bw_buf b = [] then bw_direct b p
        else case bw_Flush (b\<lparr>bw_buf := bw_buf b @ take avail p\<rparr>) of (b1, ok) \<Rightarrow>
          if \<not> ok then (b1, avail, False)
          else let r = drop avail p in
            if length r > bufSize then (case bw_direct b1 r of (b2, n, ok) \<Rightarrow> (b2, avail + n, ok))
            else (b1\<lparr>bw_buf := r\<rparr>, length p, True))"

section \<open>The response writer\<close>

record connResponseWriter =
  rw_bw :: bufio_Writer
  rw_header :: Header
  rw_status :: nat
  rw_wroteHeader :: bool
  rw_closeRequested :: bool
  rw_chunked :: bool
  rw_hijacked :: bool

definition newConnResponseWriter :: "nat option \<Rightarrow> connResponseWriter" where
  "newConnResponseWriter room =
     \<lparr>rw_bw = \<lparr>bw_wire = [], bw_room = room, bw_buf = [], bw_err = False\<rparr>, rw_header = [], rw_status = 200,
      rw_wroteHeader = False, rw_closeRequested = False, rw_chunked = False, rw_hijacked = False\<rparr>"

text \<open>\<open>Hijack\<close> succeeds when the flush does; the connection then belongs to the caller.\<close>

definition Hijack :: "connResponseWriter \<Rightarrow> connResponseWriter \<times> bool" where
  "Hijack w = (case bw_Flush (rw_bw w) of (b, ok) \<Rightarrow> (w\<lparr>rw_hijacked := True, rw_bw := b\<rparr>, ok))"

definition header_fields :: "Header \<Rightarrow> (string \<times> string) list" where
  "header_fields h = concat (map (\<lambda>(k, vs). map (\<lambda>v. (k, v)) vs) h)"

definition put_text :: "string \<Rightarrow> bufio_Writer \<Rightarrow> bufio_Writer" where
  "put_text s b = fst (bw_Write b s)"

definition status_line :: "nat \<Rightarrow> string" where
  "status_line code = ''HTTP/1.1 '' @ Itoa code @ '' '' @ StatusText code"

definition WriteHeader :: "nat \<Rightarrow> connResponseWriter \<Rightarrow> connResponseWriter" where
  "WriteHeader code w =
     (if rw_wroteHeader w then w
      else
        let h = reconcilePublicCORS (rw_header w);
            frame = (code \<ge> 200 \<and> h_get h ''Content-Length'' = [] \<and> h_get h ''Transfer-Encoding'' = []);
            h = (if frame then h_set h ''Transfer-Encoding'' ''chunked'' else h);
            close = EqualFold (h_get h ''Connection'') ''close'';
            b = put_text (status_line code @ crlf) (rw_bw w);
            b = fold (\<lambda>kv. put_text (field_line kv @ crlf)) (header_fields h) b;
            b = put_text crlf b
        in w\<lparr>rw_wroteHeader := True, rw_status := code, rw_header := h, rw_chunked := rw_chunked w \<or> frame,
             rw_closeRequested := rw_closeRequested w \<or> close, rw_bw := b\<rparr>)"

definition ensure_header :: "connResponseWriter \<Rightarrow> connResponseWriter" where
  "ensure_header w = (if \<not> rw_wroteHeader w then WriteHeader 200 w else w)"

definition Write :: "string \<Rightarrow> connResponseWriter \<Rightarrow> connResponseWriter \<times> nat \<times> bool" where
  "Write p w0 =
     (let w = ensure_header w0 in
      if rw_chunked w then
        (case bw_Write (put_text (FormatHex (length p) @ crlf) (rw_bw w)) p of (b, n, ok) \<Rightarrow>
           (w\<lparr>rw_bw := fst (bw_Flush (put_text crlf b))\<rparr>, n, ok))
      else (case bw_Write (rw_bw w) p of (b, n, ok) \<Rightarrow> (w\<lparr>rw_bw := b\<rparr>, n, ok)))"

definition Flush :: "connResponseWriter \<Rightarrow> connResponseWriter" where
  "Flush w0 = (let w = ensure_header w0 in w\<lparr>rw_bw := fst (bw_Flush (rw_bw w))\<rparr>)"

definition flushClose :: "connResponseWriter \<Rightarrow> connResponseWriter" where
  "flushClose w0 =
     (let w = ensure_header w0;
          b = (if rw_chunked w then put_text (''0'' @ crlf @ crlf) (rw_bw w) else rw_bw w)
      in w\<lparr>rw_bw := fst (bw_Flush b)\<rparr>)"

section \<open>What a buffered writer carries\<close>

text \<open>
  \<open>carries S b\<close>: the text \<open>S\<close> was written to \<open>b\<close>; what reached the wire or the buffer is a
  prefix of it, and all of it unless a write failed.
\<close>

definition carries :: "string \<Rightarrow> bufio_Writer \<Rightarrow> bool" where
  "carries S b \<longleftrightarrow> (\<exists>r. S = bw_wire b @ bw_buf b @ r \<and> (\<not> bw_err b \<longrightarrow> r = []))
     \<and> (bw_room b = None \<longrightarrow> \<not> bw_err b)"

lemma take_prefix: "\<exists>r. p = take n p @ r" "\<exists>r. p = take n p @ drop n p @ r"
proof -
  show "\<exists>r. p = take n p @ r" by (metis append_take_drop_id)
  show "\<exists>r. p = take n p @ drop n p @ r" by (rule exI [of _ "[]"]) simp
qed

lemma carries_more: "carries S b \<Longrightarrow> bw_err b \<Longrightarrow> carries (S @ p) b"
  by (auto simp: carries_def)

lemma conn_Write_facts:
  assumes "conn_Write b p = (b1, n, ok)"
  shows "bw_wire b1 = bw_wire b @ take n p" "bw_buf b1 = bw_buf b" "bw_err b1 = bw_err b" "ok \<longleftrightarrow> n = length p"
    "bw_room b = None \<Longrightarrow> ok" "bw_room b1 = None \<longleftrightarrow> bw_room b = None" "n \<le> length p"
  using assms by (auto simp: conn_Write_def Let_def split: option.splits)

lemma carries_Flush:
  assumes "carries S b"
  shows "carries S (fst (bw_Flush b))" "bw_Flush b = (b1, True) \<Longrightarrow> bw_buf b1 = [] \<and> \<not> bw_err b1"
    "snd (bw_Flush b) \<longleftrightarrow> \<not> bw_err (fst (bw_Flush b))"
proof -
  obtain b1 n ok where c: "conn_Write b (bw_buf b) = (b1, n, ok)" by (cases "conn_Write b (bw_buf b)") auto
  note facts = conn_Write_facts [OF c]
  show "carries S (fst (bw_Flush b))"
    using assms facts by (auto simp: carries_def bw_Flush_def c intro: take_prefix)
  show "bw_Flush b = (b1, True) \<Longrightarrow> bw_buf b1 = [] \<and> \<not> bw_err b1" for b1
    using assms facts by (auto simp: bw_Flush_def c split: if_splits)
  show "snd (bw_Flush b) \<longleftrightarrow> \<not> bw_err (fst (bw_Flush b))"
    using facts by (auto simp: bw_Flush_def c)
qed

lemma room_kept [simp]:
  "bw_room (fst (conn_Write b p)) = None \<longleftrightarrow> bw_room b = None"
  "bw_room (fst (bw_Flush b)) = None \<longleftrightarrow> bw_room b = None"
  "bw_room (fst (bw_direct b p)) = None \<longleftrightarrow> bw_room b = None"
  by (auto simp: conn_Write_def bw_Flush_def bw_direct_def Let_def)

lemma room_Write [simp]: "bw_room (fst (bw_Write b p)) = None \<longleftrightarrow> bw_room b = None"
proof -
  let ?b = "b\<lparr>bw_buf := bw_buf b @ take (bufSize - length (bw_buf b)) p\<rparr>"
  have "bw_room b1 = None \<longleftrightarrow> bw_room b = None" if "bw_Flush ?b = (b1, ok)" for b1 ok
    using room_kept(2) [of ?b] that by simp
  moreover have "bw_room b2 = None \<longleftrightarrow> bw_room b1 = None" if "bw_direct b1 q = (b2, n, ok)" for b1 b2 q n ok
    using room_kept(3) [of b1 q] that by simp
  ultimately show ?thesis
    by (auto simp: bw_Write_def Let_def split: prod.split)
qed

lemma room_put [simp]: "bw_room (put_text s b) = None \<longleftrightarrow> bw_room b = None"
  by (simp add: put_text_def)

lemma room_puts [simp]: "bw_room (fold (\<lambda>x. put_text (f x)) xs b) = None \<longleftrightarrow> bw_room b = None"
  by (induction xs arbitrary: b) simp_all

lemma carries_direct:
  assumes "carries S b" "bw_buf b = []" "\<not> bw_err b"
  shows "carries (S @ p) (fst (bw_direct b p))"
proof -
  obtain b1 n ok where c: "conn_Write b p = (b1, n, ok)" by (cases "conn_Write b p") auto
  note facts = conn_Write_facts [OF c]
  show "carries (S @ p) (fst (bw_direct b p))"
    using assms facts by (auto simp: carries_def bw_direct_def c intro: take_prefix)
qed

lemma carries_Write:
  assumes "carries S b"
  shows "carries (S @ p) (fst (bw_Write b p))"
proof (cases "bw_err b \<or> length p \<le> bufSize - length (bw_buf b)")
  case True
  with assms show ?thesis by (auto simp: bw_Write_def carries_def Let_def)
next
  case False
  then have ok: "\<not> bw_err b" and long: "\<not> length p \<le> bufSize - length (bw_buf b)" by auto
  let ?avail = "bufSize - length (bw_buf b)"
  show ?thesis
  proof (cases "bw_buf b = []")
    case True
    with ok long show ?thesis
      using carries_direct [OF assms True ok] by (simp add: bw_Write_def Let_def)
  next
    case buf: False
    let ?b = "b\<lparr>bw_buf := bw_buf b @ take ?avail p\<rparr>"
    have b: "carries (S @ take ?avail p) ?b" using assms ok by (auto simp: carries_def)
    obtain b1 fok where fl: "bw_Flush ?b = (b1, fok)" by (cases "bw_Flush ?b")
    note flush = carries_Flush [OF b, unfolded fl]
    have split: "S @ p = (S @ take ?avail p) @ drop ?avail p" by simp
    show ?thesis
    proof (cases fok)
      case False
      with flush have "carries ((S @ take ?avail p) @ drop ?avail p) b1" using carries_more [of "S @ take ?avail p" b1 "drop ?avail p"] by simp
      with False ok long buf fl show ?thesis
        by (simp add: bw_Write_def Let_def)
    next
      case True
      with flush have b1: "carries (S @ take ?avail p) b1" "bw_buf b1 = []" "\<not> bw_err b1" by auto
      show ?thesis
      proof (cases "length (drop ?avail p) > bufSize")
        case True
        then show ?thesis
          using carries_direct [OF b1, of "drop ?avail p"] \<open>fok\<close> ok long buf fl
          by (simp add: bw_Write_def Let_def case_prod_unfold)
      next
        case False
        have "carries ((S @ take ?avail p) @ drop ?avail p) (b1\<lparr>bw_buf := drop ?avail p\<rparr>)"
          using b1 unfolding carries_def by (auto simp del: append_assoc)
        with False show ?thesis
          using \<open>fok\<close> ok long buf fl by (simp add: bw_Write_def Let_def)
      qed
    qed
  qed
qed

lemma carries_put: "carries S b \<Longrightarrow> carries (S @ s) (put_text s b)"
  using carries_Write [of S b s] by (simp add: put_text_def)

lemma carries_puts:
  "carries S b \<Longrightarrow> carries (S @ concat (map f xs)) (fold (\<lambda>x. put_text (f x)) xs b)"
proof (induction xs arbitrary: S b)
  case (Cons x xs)
  from Cons.IH [OF carries_put [OF Cons.prems, of "f x"]] show ?case by simp
qed simp

section \<open>Chunked transfer coding, read by a client\<close>

text \<open>A chunked body (RFC 9112): chunks with their hexadecimal sizes up to the empty one.\<close>

definition read_chunk :: "string \<Rightarrow> (string \<times> string) option" where
  "read_chunk s = (case until_crlf s of
     None \<Rightarrow> None
   | Some (l, r) \<Rightarrow> (case parse_hex_acc 0 l of
       None \<Rightarrow> None
     | Some n \<Rightarrow> if length r < n + 2 \<or> take 2 (drop n r) \<noteq> crlf then None
                 else Some (take n r, drop (n + 2) r)))"

lemma read_chunk_shorter: "read_chunk s = Some (c, r) \<Longrightarrow> length r < length s"
  by (auto simp: read_chunk_def dest!: until_crlf_shorter split: option.splits prod.splits if_splits)

function read_chunked :: "string \<Rightarrow> (string \<times> string) option" where
  "read_chunked s = (case read_chunk s of
     None \<Rightarrow> None
   | Some (c, r) \<Rightarrow> if c = [] then Some ([], r)
                   else map_option (\<lambda>(body, rest). (c @ body, rest)) (read_chunked r))"
  by pat_completeness auto
termination
  by (relation "measure length") (auto dest: read_chunk_shorter)

declare read_chunked.simps [simp del]

definition chunk :: "string \<Rightarrow> string" where
  "chunk p = FormatHex (length p) @ crlf @ p @ crlf"

lemma read_chunk_chunk: "read_chunk (chunk p @ rest) = Some (p, rest)"
  using until_crlf_line [of "FormatHex (length p)" "p @ crlf @ rest"]
  by (simp add: read_chunk_def chunk_def format_base_no_cr FormatHex_def parse_FormatHex [unfolded FormatHex_def])
    (simp add: crlf_def)

lemma read_chunked_chunks:
  "list_all (\<lambda>p. p \<noteq> []) ps \<Longrightarrow> read_chunked (concat (map chunk ps) @ chunk [] @ rest) = Some (concat ps, rest)"
proof (induction ps)
  case Nil
  then show ?case by (subst read_chunked.simps) (simp add: read_chunk_chunk)
next
  case (Cons p ps)
  then show ?case
    using read_chunk_chunk [of p "concat (map chunk ps) @ chunk [] @ rest"]
    by (subst read_chunked.simps) simp
qed

lemma chunk_Nil: "chunk [] = ''0'' @ crlf @ crlf"
  by (simp add: chunk_def FormatHex_def format_base.simps digit_char_def)
    code_simp

section \<open>A response, read by a client\<close>

text \<open>
  RFC 9112, section 6.3: the response to a HEAD request and one with a status of 1xx, 204 or 304 ends with
  its head; otherwise the body is chunked, has the announced length or lasts until the connection
  ends. The result is the status line, the header fields, the body and what is left for the
  next response.
\<close>

fun parse_dec_acc :: "nat \<Rightarrow> string \<Rightarrow> nat option" where
  "parse_dec_acc acc [] = Some acc"
| "parse_dec_acc acc (c # cs) = (if is_digit c then parse_dec_acc (acc * 10 + (of_char c - 48)) cs else None)"

definition status_code :: "string \<Rightarrow> nat option" where
  "status_code st = parse_dec_acc 0 (takeWhile is_digit (drop 9 st))"

definition no_body :: "string \<Rightarrow> nat \<Rightarrow> bool" where
  "no_body method code = (method = ''HEAD'' \<or> code < 200 \<or> code = 204 \<or> code = 304)"

definition field_values :: "(string \<times> string) list \<Rightarrow> string \<Rightarrow> string list" where
  "field_values fs k = map snd (filter (\<lambda>f. CanonicalHeaderKey (fst f) = k) fs)"

definition read_length :: "string \<Rightarrow> string \<Rightarrow> (string \<times> string) option" where
  "read_length v s = (case parse_dec_acc 0 v of
     None \<Rightarrow> None
   | Some n \<Rightarrow> if length s < n then None else Some (take n s, drop n s))"

definition read_body :: "(string \<times> string) list \<Rightarrow> string \<Rightarrow> (string \<times> string) option" where
  "read_body fs s =
     (if field_values fs ''Transfer-Encoding'' = [''chunked''] then read_chunked s
      else case field_values fs ''Content-Length'' of
        [] \<Rightarrow> Some (s, [])
      | [v] \<Rightarrow> read_length v s
      | _ \<Rightarrow> None)"

definition client_reads :: "string \<Rightarrow> string \<Rightarrow> (string \<times> (string \<times> string) list \<times> string \<times> string) option" where
  "client_reads method s = (case read_response s of
     None \<Rightarrow> None
   | Some (st, fs, rest) \<Rightarrow> (case status_code st of
       None \<Rightarrow> None
     | Some code \<Rightarrow> if no_body method code then Some (st, fs, [], rest)
                   else map_option (\<lambda>(body, r). (st, fs, body, r)) (read_body fs rest)))"

lemma Itoa_digits: "list_all is_digit (Itoa n)" "parse_dec_acc 0 (Itoa n) = Some n"
proof -
  have digit: "is_digit (digit_char d)" "of_char (digit_char d) = d + (48 :: nat)" if "d < 10" for d
    using that by (simp_all add: is_digit_def digit_char_def)
  have app: "parse_dec_acc acc (s @ t) = (case parse_dec_acc acc s of None \<Rightarrow> None | Some a \<Rightarrow> parse_dec_acc a t)" for acc s t
    by (induction s arbitrary: acc) simp_all
  have "list_all is_digit (format_base 10 n) \<and> parse_dec_acc 0 (format_base 10 n) = Some n"
  proof (induction n rule: less_induct)
    case (less n)
    show ?case
    proof (cases "n < 10")
      case True
      then show ?thesis by (simp add: format_base.simps digit)
    next
      case False
      with less [of "n div 10"] show ?thesis by (simp add: format_base.simps [of 10 n] app digit)
    qed
  qed
  then show "list_all is_digit (Itoa n)" "parse_dec_acc 0 (Itoa n) = Some n" by (simp_all add: Itoa_def)
qed

lemma status_code_line: "status_code (status_line code) = Some code"
proof -
  have "\<not> is_digit (CHR '' '')" by (simp add: is_digit_def)
  then have "takeWhile is_digit (Itoa code @ CHR '' '' # StatusText code) = Itoa code"
    using Itoa_digits(1) [of code] by (subst takeWhile_append2) (auto simp: list_all_iff)
  then show ?thesis by (simp add: status_code_def status_line_def Itoa_digits(2))
qed

lemma field_values_header: "canonical_header h \<Longrightarrow> field_values (header_fields h) (CanonicalHeaderKey k) = h_values h k"
proof (induction h)
  case (Cons kv h)
  obtain j vs where kv: "kv = (j, vs)" by (cases kv)
  from Cons.prems have h: "canonical_header h" and j: "CanonicalHeaderKey j = j" "j \<notin> fst ` set h"
    by (auto simp: canonical_header_def dict_ok_def kv)
  then have "h_values h j = []" using dict_get_None_iff [of h j] by (simp add: h_values_def)
  moreover have "map snd (filter (\<lambda>f. CanonicalHeaderKey (fst f) = i) (map (Pair j) vs)) = (if i = j then vs else [])" for i
    using j(1) by (induction vs) auto
  ultimately show ?case
    using Cons.IH [OF h] j(1) by (auto simp: field_values_def header_fields_def kv h_values_def dict_get_def)
qed (simp add: field_values_def header_fields_def)

section \<open>Properties\<close>

lemma bw_wire_flushed:
  assumes "carries S b" and "bw_room b = None"
  shows "bw_wire (fst (bw_Flush b)) = S"
proof -
  have "carries S (fst (bw_Flush b))" "bw_room (fst (bw_Flush b)) = None"
    using carries_Flush [OF assms(1)] assms(2) by auto
  moreover from this have "snd (bw_Flush b)"
    using carries_Flush(3) [OF assms(1)] by (simp add: carries_def)
  then have "bw_buf (fst (bw_Flush b)) = []"
    using carries_Flush(2) [OF assms(1), of "fst (bw_Flush b)"] by (simp add: prod_eq_iff)
  ultimately show ?thesis by (auto simp: carries_def)
qed

text \<open>What the code means to send: the head of the response, then its framed body.\<close>

definition frames :: "nat \<Rightarrow> Header \<Rightarrow> bool" where
  "frames code h = (code \<ge> 200 \<and> h_get h ''Content-Length'' = [] \<and> h_get h ''Transfer-Encoding'' = [])"

definition final_header :: "nat \<Rightarrow> Header \<Rightarrow> Header" where
  "final_header code h0 = (let h = reconcilePublicCORS h0 in
     if frames code h then h_set h ''Transfer-Encoding'' ''chunked'' else h)"

definition head_text :: "nat \<Rightarrow> Header \<Rightarrow> string" where
  "head_text code h = unlines (status_line code # map field_line (header_fields h)) @ crlf"

lemma WriteHeader_carries:
  assumes "carries S (rw_bw w)" and "\<not> rw_wroteHeader w"
  shows "carries (S @ head_text code (final_header code (rw_header w))) (rw_bw (WriteHeader code w))"
proof -
  let ?h = "final_header code (rw_header w)"
  have "carries (((S @ status_line code @ crlf) @ concat (map (\<lambda>kv. field_line kv @ crlf) (header_fields ?h))) @ crlf)
      (put_text crlf (fold (\<lambda>kv. put_text (field_line kv @ crlf)) (header_fields ?h)
        (put_text (status_line code @ crlf) (rw_bw w))))"
    by (intro carries_put carries_puts assms(1))
  with assms(2) show ?thesis
    by (simp add: WriteHeader_def final_header_def frames_def Let_def head_text_def unlines_def comp_def)
qed

lemma WriteHeader_facts:
  assumes "\<not> rw_wroteHeader w"
  shows "bw_room (rw_bw (WriteHeader code w)) = None \<longleftrightarrow> bw_room (rw_bw w) = None"
    "rw_wroteHeader (WriteHeader code w)"
    "rw_chunked (WriteHeader code w) \<longleftrightarrow> rw_chunked w \<or> frames code (reconcilePublicCORS (rw_header w))"
  using assms by (simp_all add: WriteHeader_def frames_def Let_def)

definition body_text :: "bool \<Rightarrow> string \<Rightarrow> string" where
  "body_text chunked p = (if chunked then chunk p else p)"

lemma Write_eq:
  "rw_wroteHeader w \<Longrightarrow> fst (Write p w) = w\<lparr>rw_bw :=
     (if rw_chunked w
      then fst (bw_Flush (put_text crlf (put_text p (put_text (FormatHex (length p) @ crlf) (rw_bw w)))))
      else put_text p (rw_bw w))\<rparr>"
  by (simp add: Write_def ensure_header_def put_text_def case_prod_unfold)

lemma Write_carries:
  assumes "carries S (rw_bw w)" and "rw_wroteHeader w"
  shows "carries (S @ body_text (rw_chunked w) p) (rw_bw (fst (Write p w)))"
    "bw_room (rw_bw (fst (Write p w))) = None \<longleftrightarrow> bw_room (rw_bw w) = None"
    "rw_wroteHeader (fst (Write p w))" "rw_chunked (fst (Write p w)) = rw_chunked w"
proof -
  have "carries (((S @ FormatHex (length p) @ crlf) @ p) @ crlf)
      (fst (bw_Flush (put_text crlf (put_text p (put_text (FormatHex (length p) @ crlf) (rw_bw w))))))"
    by (intro carries_Flush(1) carries_put assms(1))
  moreover have "carries (S @ p) (put_text p (rw_bw w))" by (intro carries_put assms(1))
  ultimately show "carries (S @ body_text (rw_chunked w) p) (rw_bw (fst (Write p w)))"
    using assms(2) by (simp add: Write_eq body_text_def chunk_def)
qed (use assms(2) in \<open>simp_all add: Write_eq\<close>)

lemma Writes_carries:
  assumes "carries S (rw_bw w)" and "rw_wroteHeader w" and "bw_room (rw_bw w) = None"
  shows "carries (S @ concat (map (body_text (rw_chunked w)) ps)) (rw_bw (fold (\<lambda>p w. fst (Write p w)) ps w))
    \<and> bw_room (rw_bw (fold (\<lambda>p w. fst (Write p w)) ps w)) = None
    \<and> rw_wroteHeader (fold (\<lambda>p w. fst (Write p w)) ps w)
    \<and> rw_chunked (fold (\<lambda>p w. fst (Write p w)) ps w) = rw_chunked w"
  using assms
proof (induction ps arbitrary: S w)
  case (Cons p ps)
  note step = Write_carries [OF Cons.prems(1,2), of p]
  with Cons.prems(3) Cons.IH [of "S @ body_text (rw_chunked w) p" "fst (Write p w)"] show ?case by simp
qed simp

text \<open>A whole response: a header the proxy filled, the status, the body in pieces, the end.\<close>

definition respond :: "nat option \<Rightarrow> Header \<Rightarrow> nat \<Rightarrow> string list \<Rightarrow> connResponseWriter" where
  "respond room h code ps =
     flushClose (fold (\<lambda>p w. fst (Write p w)) ps (WriteHeader code ((newConnResponseWriter room)\<lparr>rw_header := h\<rparr>)))"

lemma respond_wire:
  "bw_wire (rw_bw (respond None h code ps)) =
     head_text code (final_header code h)
     @ concat (map (body_text (frames code (reconcilePublicCORS h))) ps)
     @ (if frames code (reconcilePublicCORS h) then ''0'' @ crlf @ crlf else [])"
proof -
  let ?new = "(newConnResponseWriter None)\<lparr>rw_header := h\<rparr>" and ?f = "frames code (reconcilePublicCORS h)"
  let ?w = "WriteHeader code ?new"
  let ?v = "fold (\<lambda>p w. fst (Write p w)) ps ?w"
  have new: "carries [] (rw_bw ?new)" "\<not> rw_wroteHeader ?new" "bw_room (rw_bw ?new) = None"
    "\<not> rw_chunked ?new" "rw_header ?new = h"
    by (simp_all add: newConnResponseWriter_def carries_def)
  have w: "carries (head_text code (final_header code h)) (rw_bw ?w)" "rw_wroteHeader ?w"
    "bw_room (rw_bw ?w) = None" "rw_chunked ?w = ?f"
    using WriteHeader_carries [OF new(1,2), of code] WriteHeader_facts [OF new(2), of code] new by simp_all
  from Writes_carries [OF w(1-3), of ps] w(4)
  have v: "carries (head_text code (final_header code h) @ concat (map (body_text ?f) ps)) (rw_bw ?v)"
    "bw_room (rw_bw ?v) = None" "rw_wroteHeader ?v" "rw_chunked ?v = ?f" by simp_all
  have "bw_wire (fst (bw_Flush (put_text (''0'' @ crlf @ crlf) (rw_bw ?v)))) =
      (head_text code (final_header code h) @ concat (map (body_text ?f) ps)) @ ''0'' @ crlf @ crlf"
    by (rule bw_wire_flushed [OF carries_put [OF v(1)]]) (simp add: v(2))
  with bw_wire_flushed [OF v(1,2)] v(3,4) show ?thesis
    by (simp add: respond_def flushClose_def ensure_header_def Let_def)
qed

lemma response_reads:
  assumes "list_all field_ok (header_fields (final_header code h))"
    and "list_all (\<lambda>p. p \<noteq> []) ps"
  shows "\<exists>rest. read_response (bw_wire (rw_bw (respond None h code ps))) =
      Some (status_line code, header_fields (final_header code h), rest)
    \<and> (if frames code (reconcilePublicCORS h) then read_chunked rest = Some (concat ps, []) else rest = concat ps)"
proof -
  let ?f = "frames code (reconcilePublicCORS h)"
  let ?body = "concat (map (body_text ?f) ps) @ (if ?f then ''0'' @ crlf @ crlf else [])"
  have "no_cr (status_line code)"
    using no_cr_StatusText [of code] Itoa_no_cr [of code] by (simp add: status_line_def no_cr_def)
  from read_response_unlines [OF _ this assms(1), of ?body]
  have "read_response (bw_wire (rw_bw (respond None h code ps))) =
      Some (status_line code, header_fields (final_header code h), ?body)"
    by (simp add: respond_wire head_text_def status_line_def)
  moreover have "read_chunked (concat (map chunk ps) @ ''0'' @ crlf @ crlf) = Some (concat ps, [])"
    using read_chunked_chunks [OF assms(2), of "[]"] by (simp add: chunk_Nil)
  moreover have "map (body_text True) ps = map chunk ps" "map (body_text False) ps = ps"
    by (simp_all add: body_text_def map_idI)
  ultimately show ?thesis by (cases ?f) auto
qed

text \<open>
  The client's view of a response on a connection that goes on: the text of the body is read as
  the body, or left in front of what follows when the response has none.
\<close>

definition framed_body :: "nat \<Rightarrow> Header \<Rightarrow> string list \<Rightarrow> string" where
  "framed_body code h ps = (if frames code (reconcilePublicCORS h) then concat (map chunk ps) @ chunk [] else concat ps)"

lemma canonical_reconcile: "canonical_header h \<Longrightarrow> canonical_header (final_header code h)"
  by (simp add: final_header_def reconcilePublicCORS_def Let_def canonical_header_ops)

lemma response_client:
  assumes "list_all field_ok (header_fields (final_header code h))" and "list_all (\<lambda>p. p \<noteq> []) ps" and "canonical_header h"
    and "h_values h ''Transfer-Encoding'' = []"
    and "no_body method code \<or> h_values h ''Content-Length'' \<in> {[], [Itoa (length (concat ps))]}"
  shows "client_reads method (bw_wire (rw_bw (respond None h code ps)) @ follow) =
    Some (status_line code, header_fields (final_header code h),
      (if no_body method code then ([], framed_body code h ps @ follow) else (concat ps, follow)))"
proof -
  let ?f = "frames code (reconcilePublicCORS h)" and ?fs = "header_fields (final_header code h)"
  have bodies: "map (body_text True) ps = map chunk ps" "map (body_text False) ps = ps"
    by (simp_all add: body_text_def map_idI)
  have "no_cr (status_line code)"
    using no_cr_StatusText [of code] Itoa_no_cr [of code] by (simp add: status_line_def no_cr_def)
  from read_response_unlines [OF _ this assms(1), of "framed_body code h ps @ follow"]
  have head: "read_response (bw_wire (rw_bw (respond None h code ps)) @ follow) = Some (status_line code, ?fs, framed_body code h ps @ follow)"
    by (cases ?f) (simp_all add: respond_wire head_text_def status_line_def framed_body_def bodies chunk_Nil)
  have keys: "CanonicalHeaderKey ''Transfer-Encoding'' = ''Transfer-Encoding''" "CanonicalHeaderKey ''Content-Length'' = ''Content-Length''"
    by code_simp+
  have other: "h_values (reconcilePublicCORS h) j = h_values h j" if "j \<in> {''Transfer-Encoding'', ''Content-Length''}" for j
    using that keys by (auto simp: reconcilePublicCORS_def Let_def)
  have te: "field_values ?fs ''Transfer-Encoding'' = (if ?f then [''chunked''] else [])"
    using field_values_header [OF canonical_reconcile [OF assms(3)], of code "''Transfer-Encoding''"] keys other assms(4)
    by (simp add: final_header_def Let_def)
  have cl: "field_values ?fs ''Content-Length'' = h_values h ''Content-Length''"
    using field_values_header [OF canonical_reconcile [OF assms(3)], of code "''Content-Length''"] keys other
    by (simp add: final_header_def Let_def)
  have f: "?f \<longleftrightarrow> 200 \<le> code \<and> h_get h ''Content-Length'' = []"
    using other assms(4) by (simp add: frames_def h_get_def)
  show ?thesis
  proof (cases "no_body method code")
    case True
    then show ?thesis by (simp add: client_reads_def head status_code_line)
  next
    case False
    then have "read_body ?fs (framed_body code h ps @ follow) = Some (concat ps, follow)"
      using assms(5) f te cl read_chunked_chunks [OF assms(2), of follow]
      by (auto simp: read_body_def framed_body_def no_body_def h_get_def read_length_def Itoa_digits(2))
    with False show ?thesis by (simp add: client_reads_def head status_code_line)
  qed
qed

text \<open>
  A response reads back: the client sees the status line, the reconciled header fields in
  order, and a body that decodes to exactly the bytes the handler wrote, in order: through the
  chunked coding when neither a length nor a transfer coding was set, verbatim otherwise. This
  holds for every body of non-empty writes, whatever the buffer boundaries.
\<close>

theorem response_roundtrip:
  assumes "list_all field_ok (header_fields (final_header code h))"
    and "list_all (\<lambda>p. p \<noteq> []) ps"
  shows "\<exists>rest. read_response (bw_wire (rw_bw (respond None h code ps))) =
      Some (status_line code, header_fields (final_header code h), rest)
    \<and> (if frames code (reconcilePublicCORS h) then read_chunked rest = Some (concat ps, []) else rest = concat ps)"
  by (rule response_reads [OF assms])

theorem response_roundtrip_witness:
  "\<exists>rest. read_response (bw_wire (rw_bw (respond None [(''X-A'', [''1''])] 200 [''ab'', ''c'']))) =
      Some (''HTTP/1.1 200 OK'', [(''X-A'', ''1''), (''Transfer-Encoding'', ''chunked'')], rest)
    \<and> read_chunked rest = Some (''abc'', [])"
proof -
  have keys: "CanonicalHeaderKey ''X-A'' = ''X-A''" "CanonicalHeaderKey ''Transfer-Encoding'' = ''Transfer-Encoding''"
    "CanonicalHeaderKey ''Content-Length'' = ''Content-Length''" "\<not> isPublicResponse [(''X-A'', [''1''])]"
    by code_simp+
  then have "frames 200 (reconcilePublicCORS [(''X-A'', [''1''])])"
    by (simp add: frames_def reconcilePublicCORS_def h_get_def h_values_def dict_get_def)
  moreover from this keys
  have "final_header 200 [(''X-A'', [''1''])] = [(''X-A'', [''1'']), (''Transfer-Encoding'', [''chunked''])]"
    by (simp add: final_header_def reconcilePublicCORS_def h_set_def dict_set_def)
  moreover have "status_line 200 = ''HTTP/1.1 200 OK''"
    by (simp add: status_line_def StatusText_def status_texts_def Itoa_def format_base.simps digit_char_def char_of_def bit_0)
  moreover have "list_all field_ok (header_fields [(''X-A'', [''1'']), (''Transfer-Encoding'', [''chunked''])])"
    "header_fields [(''X-A'', [''1'']), (''Transfer-Encoding'', [''chunked''])] = [(''X-A'', ''1''), (''Transfer-Encoding'', ''chunked'')]"
    by code_simp+
  ultimately show ?thesis
    using response_roundtrip [of 200 "[(''X-A'', [''1''])]" "[''ab'', ''c'']"] by simp
qed

text \<open>
  Calls on the writer in any order. Each appends a text to the buffered connection that does
  not depend on how the connection fares, and treats the rest of the writer's state the same
  on every connection.
\<close>

datatype writer_call = CallHeader nat | CallWrite string | CallFlush | CallHijack | CallEnd

fun call :: "writer_call \<Rightarrow> connResponseWriter \<Rightarrow> connResponseWriter" where
  "call (CallHeader code) w = WriteHeader code w"
| "call (CallWrite p) w = fst (Write p w)"
| "call CallFlush w = Flush w"
| "call CallHijack w = fst (Hijack w)"
| "call CallEnd w = flushClose w"

definition appends :: "(connResponseWriter \<Rightarrow> connResponseWriter) \<Rightarrow> connResponseWriter \<Rightarrow> bool" where
  "appends op w \<longleftrightarrow> (\<exists>t f. (\<forall>S b. carries S b \<longrightarrow> carries (S @ t) (f b))
     \<and> (\<forall>b. bw_room (f b) = None \<longleftrightarrow> bw_room b = None)
     \<and> (\<forall>b. op (w\<lparr>rw_bw := b\<rparr>) = (op w)\<lparr>rw_bw := f b\<rparr>))"

lemma appendsI:
  assumes "\<And>S b. carries S b \<Longrightarrow> carries (S @ t) (f b)"
    and "\<And>b. bw_room (f b) = None \<longleftrightarrow> bw_room b = None" and "\<And>b. op (w\<lparr>rw_bw := b\<rparr>) = (op w)\<lparr>rw_bw := f b\<rparr>"
  shows "appends op w"
  using assms unfolding appends_def by blast

lemma appends_comp:
  assumes "appends f w" and "appends g (f w)"
  shows "appends (\<lambda>w. g (f w)) w"
proof -
  from assms(1) obtain t F where F: "\<And>S b. carries S b \<Longrightarrow> carries (S @ t) (F b)"
      "\<And>b. bw_room (F b) = None \<longleftrightarrow> bw_room b = None"
      "\<And>b. f (w\<lparr>rw_bw := b\<rparr>) = (f w)\<lparr>rw_bw := F b\<rparr>" unfolding appends_def by blast
  from assms(2) obtain u G where G: "\<And>S b. carries S b \<Longrightarrow> carries (S @ u) (G b)"
      "\<And>b. bw_room (G b) = None \<longleftrightarrow> bw_room b = None"
      "\<And>b. g ((f w)\<lparr>rw_bw := b\<rparr>) = (g (f w))\<lparr>rw_bw := G b\<rparr>" unfolding appends_def by blast
  show ?thesis
    by (rule appendsI [of "t @ u" "\<lambda>b. G (F b)"]) (use F G in \<open>auto simp flip: append_assoc\<close>)
qed

lemma appends_WriteHeader: "appends (WriteHeader code) w"
proof (cases "rw_wroteHeader w")
  case True
  then show ?thesis
    by (intro appendsI [of "[]" "\<lambda>b. b"]) (auto simp: WriteHeader_def)
next
  case False
  show ?thesis
  proof (rule appendsI [of "head_text code (final_header code (rw_header w))" "\<lambda>b. rw_bw (WriteHeader code (w\<lparr>rw_bw := b\<rparr>))"])
    show "carries S b \<Longrightarrow> carries (S @ head_text code (final_header code (rw_header w))) (rw_bw (WriteHeader code (w\<lparr>rw_bw := b\<rparr>)))"
      for S b using WriteHeader_carries [of S "w\<lparr>rw_bw := b\<rparr>" code] False by simp
  qed (use False in \<open>simp_all add: WriteHeader_def Let_def\<close>)
qed

lemma appends_ensure: "appends ensure_header w"
proof (cases "rw_wroteHeader w")
  case True
  then show ?thesis by (intro appendsI [of "[]" "\<lambda>b. b"]) (auto simp: ensure_header_def)
next
  case False
  with appends_WriteHeader [of 200 w] show ?thesis
    by (simp add: appends_def ensure_header_def)
qed

lemma ensure_idem [simp]: "rw_wroteHeader (ensure_header w)" "rw_wroteHeader w \<Longrightarrow> ensure_header w = w"
  by (auto simp: ensure_header_def WriteHeader_def Let_def)

lemma appends_ensured:
  assumes "\<And>w. op w = op (ensure_header w)" and "\<And>w. rw_wroteHeader w \<Longrightarrow> appends op w"
  shows "appends op w"
proof -
  have "appends (\<lambda>w. op (ensure_header w)) w"
    by (rule appends_comp [OF appends_ensure assms(2)]) simp
  moreover have "(\<lambda>w. op (ensure_header w)) = op" by (intro ext assms(1) [symmetric])
  ultimately show ?thesis by simp
qed

lemma appends_call: "appends (call c) w"
proof (cases c)
  case (CallHeader code)
  then show ?thesis by (simp add: appends_WriteHeader [unfolded appends_def] appends_def)
next
  case (CallWrite p)
  have "appends (\<lambda>w. fst (Write p w)) w"
  proof (rule appends_ensured)
    fix w :: connResponseWriter
    show "fst (Write p w) = fst (Write p (ensure_header w))" by (simp add: Write_def)
    assume "rw_wroteHeader w"
    note wrote = this
    show "appends (\<lambda>w. fst (Write p w)) w"
    proof (rule appendsI [of "body_text (rw_chunked w) p" "\<lambda>b. rw_bw (fst (Write p (w\<lparr>rw_bw := b\<rparr>)))"])
      show "carries S b \<Longrightarrow> carries (S @ body_text (rw_chunked w) p) (rw_bw (fst (Write p (w\<lparr>rw_bw := b\<rparr>))))" for S b
        using Write_carries(1) [of S "w\<lparr>rw_bw := b\<rparr>" p] wrote by simp
    qed (use wrote in \<open>simp_all add: Write_eq\<close>)
  qed
  with CallWrite show ?thesis by (simp add: appends_def)
next
  case CallFlush
  have "appends Flush w"
  proof (rule appends_ensured)
    fix w :: connResponseWriter
    show "Flush w = Flush (ensure_header w)" by (simp add: Flush_def)
    assume "rw_wroteHeader w"
    then show "appends Flush w"
      by (intro appendsI [of "[]" "\<lambda>b. fst (bw_Flush b)"]) (auto simp: Flush_def intro!: carries_Flush)
  qed
  with CallFlush show ?thesis by (simp add: appends_def)
next
  case CallHijack
  then show ?thesis
    by (intro appendsI [of "[]" "\<lambda>b. fst (bw_Flush b)"])
      (auto simp: Hijack_def case_prod_unfold intro!: carries_Flush)
next
  case CallEnd
  have "appends flushClose w"
  proof (rule appends_ensured)
    fix w :: connResponseWriter
    show "flushClose w = flushClose (ensure_header w)" by (simp add: flushClose_def)
    assume "rw_wroteHeader w"
    then show "appends flushClose w"
      by (intro appendsI [of "if rw_chunked w then ''0'' @ crlf @ crlf else []"
            "\<lambda>b. fst (bw_Flush (if rw_chunked w then put_text (''0'' @ crlf @ crlf) b else b))"])
        (auto simp: flushClose_def intro!: carries_Flush carries_put)
  qed
  with CallEnd show ?thesis by (simp add: appends_def)
qed

lemma appends_calls: "appends (fold call cs) w"
proof (induction cs arbitrary: w)
  case Nil
  show ?case by (intro appendsI [of "[]" "\<lambda>b. b"]) auto
next
  case (Cons c cs)
  from appends_comp [OF appends_call [of c w] Cons.IH [of "call c w"]] show ?case
    by (simp add: comp_def)
qed

text \<open>
  C26. A connection that stops accepting bytes truncates the response and does nothing else: for
  every sequence of calls and every point of failure, the bytes on the wire are a prefix of
  what the same calls produce on a connection that never fails. No byte is lost in the middle,
  repeated or reordered, although the buffer is flushed in pieces.
\<close>

theorem failing_connection_prefix:
  "\<exists>rest. bw_wire (rw_bw (fold call cs ((newConnResponseWriter None)\<lparr>rw_header := h\<rparr>)))
        @ bw_buf (rw_bw (fold call cs ((newConnResponseWriter None)\<lparr>rw_header := h\<rparr>)))
     = bw_wire (rw_bw (fold call cs ((newConnResponseWriter (Some k))\<lparr>rw_header := h\<rparr>))) @ rest"
proof -
  let ?w = "(newConnResponseWriter None)\<lparr>rw_header := h\<rparr>"
  let ?b = "\<lambda>r. \<lparr>bw_wire = [], bw_room = r, bw_buf = [], bw_err = False\<rparr> :: bufio_Writer"
  from appends_calls [of cs ?w] obtain t f where f: "\<And>S b. carries S b \<Longrightarrow> carries (S @ t) (f b)"
      "\<And>b. bw_room (f b) = None \<longleftrightarrow> bw_room b = None" "\<And>b. fold call cs (?w\<lparr>rw_bw := b\<rparr>) = (fold call cs ?w)\<lparr>rw_bw := f b\<rparr>"
    unfolding appends_def by blast
  have new: "newConnResponseWriter r\<lparr>rw_header := h\<rparr> = ?w\<lparr>rw_bw := ?b r\<rparr>" for r
    by (simp add: newConnResponseWriter_def)
  have "carries ([] @ t) (f (?b r))" for r by (rule f(1)) (simp add: carries_def)
  moreover have run: "rw_bw (fold call cs ((newConnResponseWriter r)\<lparr>rw_header := h\<rparr>)) = f (?b r)" for r
    using f(3) [of "?b r"] unfolding new [of r, symmetric] by simp
  moreover have "bw_room (f (?b None)) = None" by (simp add: f(2))
  ultimately have "carries t (rw_bw (fold call cs ?w))" "bw_room (rw_bw (fold call cs ?w)) = None"
    "carries t (rw_bw (fold call cs ((newConnResponseWriter (Some k))\<lparr>rw_header := h\<rparr>)))"
    by simp_all
  then show ?thesis
    by (auto simp: carries_def)
qed

text \<open>
  An informational status ends the response: once the reverse proxy has passed on a 1xx
  answer of the upstream, as it does for \<open>100 Continue\<close> and \<open>103 Early Hints\<close>, the final status
  and its headers are dropped and the body follows the informational head without framing.
\<close>

theorem informational_swallows_final:
  assumes "code < 200" and "200 \<le> final"
  shows "bw_wire (rw_bw (flushClose (fst (Write p (WriteHeader final
      (WriteHeader code ((newConnResponseWriter None)\<lparr>rw_header := h\<rparr>)))))))
    = head_text code (reconcilePublicCORS h) @ p"
proof -
  have nf: "\<not> frames code (reconcilePublicCORS h)" using assms by (simp add: frames_def)
  have "rw_wroteHeader (WriteHeader code ((newConnResponseWriter None)\<lparr>rw_header := h\<rparr>))"
    by (rule WriteHeader_facts(2)) (simp add: newConnResponseWriter_def)
  then have "WriteHeader final (WriteHeader code ((newConnResponseWriter None)\<lparr>rw_header := h\<rparr>)) =
      WriteHeader code ((newConnResponseWriter None)\<lparr>rw_header := h\<rparr>)"
    by (simp add: WriteHeader_def [of final])
  with respond_wire [of h code "[p]"] nf show ?thesis
    by (simp add: respond_def body_text_def final_header_def)
qed

theorem informational_swallows_final_witness:
  "bw_wire (rw_bw (flushClose (fst (Write ''hi'' (WriteHeader 200
      (WriteHeader 100 ((newConnResponseWriter None)\<lparr>rw_header := []\<rparr>)))))))
    = ''HTTP/1.1 100 Continue'' @ crlf @ crlf @ ''hi''"
proof -
  have "head_text 100 (reconcilePublicCORS []) = ''HTTP/1.1 100 Continue'' @ crlf @ crlf"
    by (simp add: head_text_def unlines_def header_fields_def reconcilePublicCORS_def isPublicResponse_def
        status_line_def StatusText_def status_texts_def Itoa_def format_base.simps digit_char_def char_of_def bit_0)
  with informational_swallows_final [of 100 200 "''hi''" "[]"] show ?thesis by simp
qed

text \<open>
  A response without a body is framed all the same: a 204 or 304 without a length carries
  \<open>Transfer-Encoding: chunked\<close> and five bytes of an empty chunked body behind its head, which
  the client, for whom such a response ends with its head, takes for the next response.
\<close>

theorem bodiless_response_is_framed:
  assumes "code = 204 \<or> code = 304" and "frames code (reconcilePublicCORS h)"
    and "list_all field_ok (header_fields (final_header code h))"
  shows "read_response (bw_wire (rw_bw (respond None h code []))) =
      Some (status_line code, header_fields (final_header code h), ''0'' @ crlf @ crlf)
    \<and> h_values (final_header code h) ''Transfer-Encoding'' = [''chunked'']"
proof -
  have "no_cr (status_line code)"
    using no_cr_StatusText [of code] Itoa_no_cr [of code] by (simp add: status_line_def no_cr_def)
  from read_response_unlines [OF _ this assms(3), of "''0'' @ crlf @ crlf"] assms(2) show ?thesis
    by (simp add: respond_wire head_text_def status_line_def) (simp add: final_header_def)
qed

theorem bodiless_response_is_framed_witness:
  "read_response (bw_wire (rw_bw (respond None [] 304 []))) =
      Some (status_line 304, header_fields (final_header 304 []), ''0'' @ crlf @ crlf)"
proof -
  have "frames 304 (reconcilePublicCORS [])"
    by (simp add: frames_def reconcilePublicCORS_def isPublicResponse_def)
  moreover have "field_ok (CanonicalHeaderKey ''Transfer-Encoding'', ''chunked'')" by code_simp
  moreover from calculation(1) have "final_header 304 [] = [(CanonicalHeaderKey ''Transfer-Encoding'', [''chunked''])]"
    by (simp add: final_header_def h_set_def dict_set_def reconcilePublicCORS_def isPublicResponse_def)
  ultimately show ?thesis
    using bodiless_response_is_framed [of 304 "[]"] by (simp add: header_fields_def)
qed

end
