(* ===== verification/Mux_Frame.thy ===== *)
theory Mux_Frame
  imports Response_Writer
begin

text \<open>
  The wire format of the sealed-WebSocket multiplexer (\<^verbatim>\<open>internal/terminate/wsmux.go\<close>): the
  parameters of a sealed upgrade, the frame codec with its open and close payloads, and
  \<open>writeFrame\<close> over the buffered connection of \<open>Response_Writer\<close>.
\<close>

section \<open>Constants\<close>

definition sealedWSSubprotocol :: string where "sealedWSSubprotocol = ''privasys.sealed.v1''"
definition muxPath :: string where "muxPath = ''/__privasys/ws-mux''"
definition muxProtocol :: string where "muxProtocol = ''privasys-mux/1''"

definition muxTypeOpen :: byte where "muxTypeOpen = 1"
definition muxTypeData :: byte where "muxTypeData = 2"
definition muxTypeClose :: byte where "muxTypeClose = 3"
definition muxTypePing :: byte where "muxTypePing = 4"
definition muxTypePong :: byte where "muxTypePong = 5"

definition muxMaxFrame :: nat where "muxMaxFrame = 16 * 1024 * 1024 + 64 * 1024"
definition gwMuxPoolSize :: nat where "gwMuxPoolSize = 2"
definition gwMuxStreamQueue :: nat where "gwMuxStreamQueue = 4096"
definition gwMuxStreamQueueBytes :: int where "gwMuxStreamQueueBytes = push_bit 20 8"

text \<open>The close codes of the WebSocket library that the gateway names.\<close>

definition StatusNormalClosure :: int where "StatusNormalClosure = 1000"
definition StatusGoingAway :: int where "StatusGoingAway = 1001"
definition StatusProtocolError :: int where "StatusProtocolError = 1002"
definition StatusUnsupportedData :: int where "StatusUnsupportedData = 1003"
definition StatusPolicyViolation :: int where "StatusPolicyViolation = 1008"
definition StatusTryAgainLater :: int where "StatusTryAgainLater = 1013"
definition StatusBadGateway :: int where "StatusBadGateway = 1014"

section \<open>Sealed upgrades\<close>

record sealedWSParams =
  sw_sessionID :: string
  sw_streamID :: "64 word"
  sw_streamHex :: string

text \<open>\<^verbatim>\<open>strconv.ParseUint(s, 16, 64)\<close>: digits only, no sign, an error when it does not fit.\<close>

definition ParseUint16_64 :: "string \<Rightarrow> 64 word option" where
  "ParseUint16_64 s =
     (if s = [] then None
      else case parse_hex_acc 0 s of
        None \<Rightarrow> None
      | Some n \<Rightarrow> if n < 2 ^ 64 then Some (word_of_nat n) else None)"

definition protocol_tokens :: "Header \<Rightarrow> string list" where
  "protocol_tokens h = filter (\<lambda>t. t \<noteq> [])
     (concat (map (\<lambda>line. map TrimSpace (Split line (CHR '',''))) (h_values h ''Sec-WebSocket-Protocol'')))"

definition parseSealedWS :: "Request \<Rightarrow> sealedWSParams option" where
  "parseSealedWS req =
     (if \<not> EqualFold (h_get (req_Header req) ''Upgrade'') ''websocket'' then None
      else
        let tokens = protocol_tokens (req_Header req) in
        if length tokens < 3 \<or> tokens ! 0 \<noteq> sealedWSSubprotocol then None
        else
          let hex = ToLower (tokens ! 2) in
          if length hex \<noteq> 16 then None
          else case ParseUint16_64 hex of
            None \<Rightarrow> None
          | Some i \<Rightarrow> Some \<lparr>sw_sessionID = tokens ! 1, sw_streamID = i, sw_streamHex = hex\<rparr>)"

section \<open>Frames\<close>

record frame =
  fr_typ :: byte
  fr_sid :: string
  fr_stream :: "64 word"
  fr_payload :: bytes

text \<open>The bytes \<open>writeFrame\<close> writes: the length of the session id is cut to one byte.\<close>

definition frame_bytes :: "frame \<Rightarrow> bytes" where
  "frame_bytes f =
     [fr_typ f, word_of_nat (length (fr_sid f))] @ bytes_of_string (fr_sid f)
     @ (PutUint64 (fr_stream f) @ PutUint32 (word_of_nat (length (fr_payload f)))) @ fr_payload f"

datatype mux_error = MuxReadError | FrameTooLarge

definition readMuxFrame :: "bytes \<Rightarrow> mux_error + frame \<times> bytes" where
  "readMuxFrame br =
     (if length br < 2 then Inl MuxReadError
      else
        let typ = br ! 0; sidLen = unat (br ! 1); b = drop 2 br in
        if length b < sidLen + 12 then Inl MuxReadError
        else
          let sid = string_of_bytes (take sidLen b);
              stream = Uint64 (drop sidLen b);
              plen = unat (Uint32 (drop (sidLen + 8) b));
              r = drop (sidLen + 12) b
          in if plen > muxMaxFrame then Inl FrameTooLarge
             else if length r < plen then Inl MuxReadError
             else Inr (\<lparr>fr_typ = typ, fr_sid = sid, fr_stream = stream, fr_payload = take plen r\<rparr>, drop plen r))"

definition encodeMuxOpen :: "string \<Rightarrow> string \<Rightarrow> bytes \<Rightarrow> bytes" where
  "encodeMuxOpen host path openEnv =
     PutUint16 (word_of_nat (length host)) @ bytes_of_string host
     @ PutUint16 (word_of_nat (length path)) @ bytes_of_string path @ openEnv"

definition encodeMuxClose :: "int \<Rightarrow> string \<Rightarrow> bytes" where
  "encodeMuxClose code reason = PutUint16 (word_of_int code) @ bytes_of_string reason"

definition parseMuxClose :: "bytes \<Rightarrow> int \<times> string" where
  "parseMuxClose payload =
     (if length payload < 2 then (StatusNormalClosure, [])
      else
        let code = uint (Uint16 (take 2 payload));
            code = (if code = 0 then StatusNormalClosure else code)
        in (code, string_of_bytes (drop 2 payload)))"

text \<open>The ellipsis is the three bytes of U+2026.\<close>

definition shortSID :: "string \<Rightarrow> string" where
  "shortSID sid = (if length sid > 8 then take 8 sid @ [CHR 0xE2, CHR 0x80, CHR 0xA6] else sid)"

section \<open>Writing frames\<close>

text \<open>
  \<open>writeFrame\<close> on a connection known not to be dead: four buffered writes, each abandoned after
  an error, and a flush. The write lock makes one call atomic.
\<close>

definition write_frame :: "frame \<Rightarrow> bufio_Writer \<Rightarrow> bufio_Writer \<times> bool" where
  "write_frame f b0 =
     (case bw_Write b0 (string_of_bytes [fr_typ f, word_of_nat (length (fr_sid f))]) of (b1, _, ok1) \<Rightarrow>
      if \<not> ok1 then (b1, False)
      else case bw_Write b1 (fr_sid f) of (b2, _, ok2) \<Rightarrow>
      if \<not> ok2 then (b2, False)
      else case bw_Write b2 (string_of_bytes
             (PutUint64 (fr_stream f) @ PutUint32 (word_of_nat (length (fr_payload f))))) of (b3, _, ok3) \<Rightarrow>
      if \<not> ok3 then (b3, False)
      else case bw_Write b3 (string_of_bytes (fr_payload f)) of (b4, _, ok4) \<Rightarrow>
      if \<not> ok4 then (b4, False) else bw_Flush b4)"

section \<open>Round trips\<close>

definition frame_ok :: "frame \<Rightarrow> bool" where
  "frame_ok f = (length (fr_sid f) < 256 \<and> length (fr_payload f) \<le> muxMaxFrame)"

definition frame_header :: "frame \<Rightarrow> bytes" where
  "frame_header f = [fr_typ f, word_of_nat (length (fr_sid f))] @ bytes_of_string (fr_sid f)
     @ PutUint64 (fr_stream f) @ PutUint32 (word_of_nat (length (fr_payload f)))"

lemma frame_bytes_header: "frame_bytes f = frame_header f @ fr_payload f"
  by (simp add: frame_bytes_def frame_header_def)

lemma length_frame_header [simp]: "length (frame_header f) = length (fr_sid f) + 14"
  by (simp add: frame_header_def)

text \<open>Reading behind a complete header succeeds exactly when the payload is complete.\<close>

lemma readMuxFrame_header:
  assumes "frame_ok f"
  shows "readMuxFrame (frame_header f @ r) =
     (if length r < length (fr_payload f) then Inl MuxReadError
      else Inr (f\<lparr>fr_payload := take (length (fr_payload f)) r\<rparr>, drop (length (fr_payload f)) r))"
proof -
  let ?sid = "bytes_of_string (fr_sid f)" and ?n = "length (fr_sid f)" and ?m = "length (fr_payload f)"
  from assms have n: "?n < 256" and m: "?m \<le> muxMaxFrame" by (simp_all add: frame_ok_def)
  then have "?m < 2 ^ 32" by (simp add: muxMaxFrame_def)
  then have plen: "unat (word_of_nat ?m :: 32 word) = ?m" by (simp add: unat_of_nat)
  from n have sidLen: "unat (word_of_nat ?n :: byte) = ?n" by (simp add: unat_word_of_nat_byte)
  show ?thesis
    using m by (simp add: readMuxFrame_def frame_header_def Let_def sidLen plen)
qed

lemma readMuxFrame_frame: "frame_ok f \<Longrightarrow> readMuxFrame (frame_bytes f @ rest) = Inr (f, rest)"
  using readMuxFrame_header [of f "fr_payload f @ rest"] by (simp add: frame_bytes_header)

lemma readMuxFrame_truncated:
  assumes f: "frame_ok f" and k: "k < length (frame_bytes f)"
  shows "readMuxFrame (take k (frame_bytes f)) = Inl MuxReadError"
proof (cases "k < length (frame_header f)")
  case True
  have "take k (frame_bytes f) = take k (frame_header f)"
    using True by (simp add: frame_bytes_header)
  moreover have "readMuxFrame (take k (frame_header f)) = Inl MuxReadError"
  proof (cases "k < 2")
    case False
    then obtain j where j: "k = j + 2" by (metis add.commute le_Suc_ex not_less)
    from f have "unat (word_of_nat (length (fr_sid f)) :: byte) = length (fr_sid f)"
      by (simp add: frame_ok_def unat_word_of_nat_byte)
    moreover have "take k (frame_header f) = [fr_typ f, word_of_nat (length (fr_sid f))] @ take j (drop 2 (frame_header f))"
      by (simp add: frame_header_def j)
    ultimately show ?thesis
      using True j by (simp add: readMuxFrame_def Let_def)
  qed (simp add: readMuxFrame_def)
  ultimately show ?thesis by simp
next
  case False
  then have "take k (frame_bytes f) = frame_header f @ take (k - length (frame_header f)) (fr_payload f)"
    by (simp add: frame_bytes_header)
  with readMuxFrame_header [OF f] k False show ?thesis by (simp add: frame_bytes_header)
qed

lemma readMuxFrame_shorter: "readMuxFrame br = Inr (f, rest) \<Longrightarrow> length rest < length br"
  by (auto simp: readMuxFrame_def Let_def split: if_splits)

text \<open>The frames a reader finds in a byte stream, and the error that ends it.\<close>

function read_frames :: "bytes \<Rightarrow> frame list \<times> mux_error" where
  "read_frames br = (case readMuxFrame br of
     Inl err \<Rightarrow> ([], err)
   | Inr (f, rest) \<Rightarrow> (case read_frames rest of (fs, err) \<Rightarrow> (f # fs, err)))"
  by pat_completeness auto
termination
  by (relation "measure length") (auto dest: readMuxFrame_shorter)

declare read_frames.simps [simp del]

lemma read_frames_append:
  "list_all frame_ok fs \<Longrightarrow>
   read_frames (concat (map frame_bytes fs) @ rest) = (case read_frames rest of (gs, err) \<Rightarrow> (fs @ gs, err))"
proof (induction fs)
  case (Cons f fs)
  then have "readMuxFrame (concat (map frame_bytes (f # fs)) @ rest) = Inr (f, concat (map frame_bytes fs) @ rest)"
    using readMuxFrame_frame [of f "concat (map frame_bytes fs) @ rest"] by simp
  with Cons show ?case by (subst read_frames.simps) (simp split: prod.split)
qed simp

lemma read_frames_prefix:
  "list_all frame_ok fs \<Longrightarrow> \<exists>j. read_frames (take k (concat (map frame_bytes fs))) = (take j fs, MuxReadError)"
proof (induction fs arbitrary: k)
  case Nil
  then show ?case by (simp add: read_frames.simps [of "[]"] readMuxFrame_def)
next
  case (Cons f fs)
  then have f: "frame_ok f" by simp
  show ?case
  proof (cases "k < length (frame_bytes f)")
    case True
    then have "readMuxFrame (take k (concat (map frame_bytes (f # fs)))) = Inl MuxReadError"
      using readMuxFrame_truncated [OF f True] by simp
    then show ?thesis by (intro exI [of _ 0]) (subst read_frames.simps, simp)
  next
    case False
    let ?k = "k - length (frame_bytes f)"
    from Cons obtain j where "read_frames (take ?k (concat (map frame_bytes fs))) = (take j fs, MuxReadError)"
      by fastforce
    with False f have "read_frames (take k (concat (map frame_bytes (f # fs)))) = (take (Suc j) (f # fs), MuxReadError)"
      using read_frames_append [of "[f]" "take ?k (concat (map frame_bytes fs))"] by simp
    then show ?thesis by blast
  qed
qed

lemma bw_Write_ok: "carries S b \<Longrightarrow> bw_Write b p = (b', n, ok) \<Longrightarrow> carries (S @ p) b' \<and> (\<not> ok \<longrightarrow> bw_err b')"
proof -
  assume c: "carries S b" and w: "bw_Write b p = (b', n, ok)"
  have "\<not> ok \<longrightarrow> bw_err b'"
    using w by (auto simp: bw_Write_def bw_direct_def bw_Flush_def conn_Write_def Let_def split: if_splits prod.splits)
  with carries_Write [OF c, of p] w show ?thesis by simp
qed

lemma be_bytes_zero: "be_bytes k 0 = replicate k 0"
  by (induction k) (simp_all add: replicate_append_same)

lemma string_of_bytes_Cons: "string_of_bytes (b # bs) = char_of_byte b # string_of_bytes bs"
  by (simp add: string_of_bytes_def)

lemma write_frame_carries:
  assumes "carries S b"
  shows "carries (S @ string_of_bytes (frame_bytes f)) (fst (write_frame f b))"
proof -
  let ?h1 = "string_of_bytes [fr_typ f, word_of_nat (length (fr_sid f))]"
  let ?h2 = "string_of_bytes (PutUint64 (fr_stream f) @ PutUint32 (word_of_nat (length (fr_payload f))))"
  let ?p = "string_of_bytes (fr_payload f)"
  have all: "string_of_bytes (frame_bytes f) = ?h1 @ fr_sid f @ ?h2 @ ?p"
    by (simp add: frame_bytes_def string_of_bytes_Cons)
  obtain b1 n1 ok1 where w1: "bw_Write b ?h1 = (b1, n1, ok1)" by (cases "bw_Write b ?h1")
  obtain b2 n2 ok2 where w2: "bw_Write b1 (fr_sid f) = (b2, n2, ok2)" by (cases "bw_Write b1 (fr_sid f)")
  obtain b3 n3 ok3 where w3: "bw_Write b2 ?h2 = (b3, n3, ok3)" by (cases "bw_Write b2 ?h2")
  obtain b4 n4 ok4 where w4: "bw_Write b3 ?p = (b4, n4, ok4)" by (cases "bw_Write b3 ?p")
  note c1 = bw_Write_ok [OF assms w1]
  note c2 = bw_Write_ok [OF conjunct1 [OF c1] w2]
  note c3 = bw_Write_ok [OF conjunct1 [OF c2] w3]
  note c4 = bw_Write_ok [OF conjunct1 [OF c3] w4]
  have "\<not> ok1 \<Longrightarrow> carries (S @ string_of_bytes (frame_bytes f)) b1"
    "\<not> ok2 \<Longrightarrow> carries (S @ string_of_bytes (frame_bytes f)) b2"
    "\<not> ok3 \<Longrightarrow> carries (S @ string_of_bytes (frame_bytes f)) b3"
    "carries (S @ string_of_bytes (frame_bytes f)) b4"
    using c1 c2 c3 c4 carries_more [of "S @ ?h1" b1 "fr_sid f @ ?h2 @ ?p"]
      carries_more [of "(S @ ?h1) @ fr_sid f" b2 "?h2 @ ?p"] carries_more [of "((S @ ?h1) @ fr_sid f) @ ?h2" b3 ?p]
    by (simp_all add: all)
  then show ?thesis
    by (simp add: write_frame_def w1 w2 w3 w4 carries_Flush(1) del: string_of_bytes_append)
qed

lemma write_frames_carries:
  "carries S b \<Longrightarrow> carries (S @ string_of_bytes (concat (map frame_bytes fs))) (fold (\<lambda>f b. fst (write_frame f b)) fs b)"
proof (induction fs arbitrary: S b)
  case (Cons f fs)
  from Cons.IH [OF write_frame_carries [OF Cons.prems, of f]] show ?case by simp
qed (simp add: string_of_bytes_def)

section \<open>Properties\<close>

text \<open>
  C27. The mux leg carries frames intact: whatever frames are written in whatever order, over a
  connection that may stop accepting bytes at any point, what the reader at the other end
  decodes is a prefix of exactly those frames, and never a frame that was not written. Without a
  failure the whole stream decodes to all of them.
\<close>

theorem mux_frames_roundtrip:
  assumes "list_all frame_ok fs"
  shows "(\<exists>j. read_frames (bytes_of_string (bw_wire (fold (\<lambda>f b. fst (write_frame f b)) fs
        \<lparr>bw_wire = [], bw_room = room, bw_buf = [], bw_err = False\<rparr>))) = (take j fs, MuxReadError))
    \<and> read_frames (concat (map frame_bytes fs)) = (fs, MuxReadError)"
proof -
  let ?b = "fold (\<lambda>f b. fst (write_frame f b)) fs \<lparr>bw_wire = [], bw_room = room, bw_buf = [], bw_err = False\<rparr>"
  have "carries ([] @ string_of_bytes (concat (map frame_bytes fs))) ?b"
    by (rule write_frames_carries) (simp add: carries_def)
  then obtain r where "string_of_bytes (concat (map frame_bytes fs)) = bw_wire ?b @ r"
    by (auto simp: carries_def)
  then have "concat (map frame_bytes fs) = bytes_of_string (bw_wire ?b) @ bytes_of_string r"
    by (metis bytes_of_string_append bytes_of_string_of_bytes)
  then have "bytes_of_string (bw_wire ?b) = take (length (bw_wire ?b)) (concat (map frame_bytes fs))" by simp
  then show ?thesis
    using read_frames_prefix [OF assms, of "length (bw_wire ?b)"] read_frames_append [OF assms, of "[]"]
    by (simp add: read_frames.simps [of "[]"] readMuxFrame_def)
qed

theorem mux_frames_roundtrip_witness:
  "read_frames (concat (map frame_bytes [\<lparr>fr_typ = 2, fr_sid = ''s'', fr_stream = 7, fr_payload = [1, 2]\<rparr>])) =
     ([\<lparr>fr_typ = 2, fr_sid = ''s'', fr_stream = 7, fr_payload = [1, 2]\<rparr>], MuxReadError)"
  using mux_frames_roundtrip [of "[\<lparr>fr_typ = 2, fr_sid = ''s'', fr_stream = 7, fr_payload = [1, 2]\<rparr>]" None]
  by (simp add: frame_ok_def muxMaxFrame_def)

text \<open>
  C35. A session id of 256 bytes breaks the framing, and its bytes become frames of their own:
  the length byte wraps to zero, so from one written frame the reader decodes an empty frame,
  then any frame \<open>g\<close> the session id spells, and goes on in the middle of the rest.
\<close>

theorem long_session_id_injects_frames:
  assumes "fr_sid f = string_of_bytes (replicate 12 0 @ frame_bytes g @ filler)"
    and "length (fr_sid f) = 256" and "frame_ok g"
  shows "\<exists>rest. readMuxFrame (frame_bytes f) =
        Inr (\<lparr>fr_typ = fr_typ f, fr_sid = [], fr_stream = 0, fr_payload = []\<rparr>, frame_bytes g @ rest)
      \<and> readMuxFrame (frame_bytes g @ rest) = Inr (g, rest)"
proof -
  let ?e = "\<lparr>fr_typ = fr_typ f, fr_sid = [], fr_stream = 0, fr_payload = []\<rparr>"
  let ?rest = "filler @ PutUint64 (fr_stream f) @ PutUint32 (word_of_nat (length (fr_payload f))) @ fr_payload f"
  have zero: "PutUint64 0 @ PutUint32 0 = replicate 12 0"
    using replicate_add [of 8 4 "0 :: byte"] by (simp add: PutUint64_def PutUint32_def be_bytes_zero)
  have wrap: "word_of_nat (length (fr_sid f)) = (0 :: byte)" by (simp add: assms(2))
  have sid: "bytes_of_string (fr_sid f) = (PutUint64 0 @ PutUint32 0) @ frame_bytes g @ filler"
    by (simp only: assms(1) zero bytes_of_string_of_bytes)
  have "frame_bytes f = frame_bytes ?e @ frame_bytes g @ ?rest"
    unfolding frame_bytes_def [of f] frame_bytes_def [of ?e] wrap sid by simp
  moreover have "frame_ok ?e" by (simp add: frame_ok_def muxMaxFrame_def)
  ultimately show ?thesis
    using readMuxFrame_frame [of ?e "frame_bytes g @ ?rest"] readMuxFrame_frame [OF assms(3), of ?rest] by auto
qed

theorem long_session_id_injects_frames_witness:
  "\<exists>f rest. length (fr_sid f) = 256 \<and> readMuxFrame (frame_bytes f) =
      Inr (\<lparr>fr_typ = 1, fr_sid = [], fr_stream = 0, fr_payload = []\<rparr>,
        frame_bytes \<lparr>fr_typ = 3, fr_sid = ''victim'', fr_stream = 9, fr_payload = []\<rparr> @ rest)"
proof -
  let ?g = "\<lparr>fr_typ = 3, fr_sid = ''victim'', fr_stream = 9, fr_payload = []\<rparr> :: frame"
  let ?f = "\<lparr>fr_typ = 1, fr_sid = string_of_bytes (replicate 12 0 @ frame_bytes ?g @ replicate 224 0),
      fr_stream = 1, fr_payload = []\<rparr> :: frame"
  have len: "length (fr_sid ?f) = 256" and "frame_ok ?g" by (simp_all add: frame_bytes_def frame_ok_def muxMaxFrame_def)
  then obtain rest where "readMuxFrame (frame_bytes ?f) =
      Inr (\<lparr>fr_typ = fr_typ ?f, fr_sid = [], fr_stream = 0, fr_payload = []\<rparr>, frame_bytes ?g @ rest)"
    using long_session_id_injects_frames [of ?f ?g "replicate 224 0", OF _ len] by auto
  then have "readMuxFrame (frame_bytes ?f) =
      Inr (\<lparr>fr_typ = 1, fr_sid = [], fr_stream = 0, fr_payload = []\<rparr>, frame_bytes ?g @ rest)" by simp
  with len show ?thesis by blast
qed

text \<open>
  A close payload reads back as the code and reason it was made from, for every code of the
  WebSocket range; a code of zero and a payload without a code read as a normal closure.
\<close>

theorem parseMuxClose_roundtrip:
  "parseMuxClose (encodeMuxClose code reason) =
     (if code mod 65536 = 0 then StatusNormalClosure else code mod 65536, reason)
   \<and> parseMuxClose [] = (StatusNormalClosure, []) \<and> parseMuxClose [b] = (StatusNormalClosure, [])"
proof -
  have "length (encodeMuxClose code reason) = 2 + length reason" by (simp add: encodeMuxClose_def)
  moreover have "uint (word_of_int code :: 16 word) = code mod 65536" by (simp add: uint_word_of_int)
  ultimately show ?thesis
    by (simp add: parseMuxClose_def encodeMuxClose_def Let_def)
qed

end
