(* ===== verification/Ws_Mux.thy ===== *)
theory Ws_Mux
  imports Mux_Frame
begin

text \<open>
  The mux connection of \<^verbatim>\<open>internal/terminate/wsmux.go\<close>: streams and their bounded queues, the
  registration of streams, the demultiplexing read loop and the end of a connection. Streams are
  shared by pointer in the source; here they live in a store indexed by pointer (\<open>mc_heap\<close>), and
  the connection's map holds pointers. Everything the goroutines of a connection do to it is an
  action (\<open>conn_act\<close>), and a run of the connection is any sequence of actions.
\<close>

section \<open>Streams\<close>

type_synonym muxKey = "string \<times> 64 word"

text \<open>
  The pump goroutine of a stream: not started, waiting for a payload, writing one to the browser, or
  ended. The browser's socket is what the gateway does to it: \<open>st_closes\<close> are the calls of its \<open>Close\<close>
  that \<open>finish\<close> makes, \<open>st_direct\<close> those the stream's handler makes itself, and \<open>st_browser\<close> the messages
  the pump wrote to it.
\<close>

datatype pump = PumpIdle | PumpReady | PumpWriting bytes | PumpEnded

record gwStream =
  st_key :: muxKey
  st_outbound :: "bytes list"
  st_queued :: int
  st_done :: bool
  st_closes :: "(int \<times> string) list"
  st_direct :: "(int \<times> string) list"
  st_browser :: "bytes list"
  st_pump :: pump

definition newStream :: "muxKey \<Rightarrow> gwStream" where
  "newStream k = \<lparr>st_key = k, st_outbound = [], st_queued = 0, st_done = False, st_closes = [], st_direct = [], st_browser = [],
     st_pump = PumpIdle\<rparr>"

definition finish :: "int \<Rightarrow> string \<Rightarrow> gwStream \<Rightarrow> gwStream" where
  "finish code reason st =
     (if st_done st then st else st\<lparr>st_done := True, st_closes := st_closes st @ [(code, reason)]\<rparr>)"

text \<open>Queueing a payload for the browser; \<^term>\<open>None\<close> is the overflow.\<close>

definition enqueue :: "bytes \<Rightarrow> gwStream \<Rightarrow> gwStream option" where
  "enqueue payload st =
     (if st_queued st + int (length payload) > gwMuxStreamQueueBytes then None
      else if length (st_outbound st) < gwMuxStreamQueue
      then Some (st\<lparr>st_outbound := st_outbound st @ [payload], st_queued := st_queued st + int (length payload)\<rparr>)
      else None)"

text \<open>
  The pump that writes to the browser: it is started once, takes the oldest payload from the queue,
  and writes it; it ends when the browser does not take it, or, between two payloads, when the
  stream is done.
\<close>

definition pump_start :: "gwStream \<Rightarrow> gwStream" where
  "pump_start st = (if st_pump st = PumpIdle then st\<lparr>st_pump := PumpReady\<rparr> else st)"

definition pump_take :: "gwStream \<Rightarrow> gwStream" where
  "pump_take st =
     (if st_pump st \<noteq> PumpReady then st
      else case st_outbound st of
        [] \<Rightarrow> st
      | payload # rest \<Rightarrow>
          st\<lparr>st_outbound := rest, st_queued := st_queued st - int (length payload), st_pump := PumpWriting payload\<rparr>)"

definition pump_write :: "bool \<Rightarrow> gwStream \<Rightarrow> gwStream" where
  "pump_write written st =
     (case st_pump st of
        PumpWriting payload \<Rightarrow>
          if written then st\<lparr>st_browser := st_browser st @ [payload], st_pump := PumpReady\<rparr>
          else (finish StatusNormalClosure [] st)\<lparr>st_pump := PumpEnded\<rparr>
      | _ \<Rightarrow> st)"

definition pump_done :: "gwStream \<Rightarrow> gwStream" where
  "pump_done st = (if st_done st \<and> st_pump st = PumpReady then st\<lparr>st_pump := PumpEnded\<rparr> else st)"

text \<open>\<open>browser.Close\<close>, called by the handler of the stream and not through \<open>finish\<close>.\<close>

definition close_direct :: "int \<Rightarrow> string \<Rightarrow> gwStream \<Rightarrow> gwStream" where
  "close_direct code reason st = st\<lparr>st_direct := st_direct st @ [(code, reason)]\<rparr>"

section \<open>Connections\<close>

record gwMuxConn =
  mc_bw :: bufio_Writer
  mc_streams :: "(muxKey, nat) dict"
  mc_heap :: "nat \<Rightarrow> gwStream"
  mc_next :: nat
  mc_dead :: bool
  mc_connClosed :: nat
  mc_active :: int

definition newMuxConn :: "nat option \<Rightarrow> gwMuxConn" where
  "newMuxConn room =
     \<lparr>mc_bw = \<lparr>bw_wire = [], bw_room = room, bw_buf = [], bw_err = False\<rparr>, mc_streams = [],
      mc_heap = (\<lambda>_. newStream ([], 0)), mc_next = 0, mc_dead = False, mc_connClosed = 0, mc_active = 1\<rparr>"

definition upd_stream :: "nat \<Rightarrow> (gwStream \<Rightarrow> gwStream) \<Rightarrow> gwMuxConn \<Rightarrow> gwMuxConn" where
  "upd_stream p f c = c\<lparr>mc_heap := (mc_heap c)(p := f (mc_heap c p))\<rparr>"

definition alloc_stream :: "muxKey \<Rightarrow> gwMuxConn \<Rightarrow> nat \<times> gwMuxConn" where
  "alloc_stream k c =
     (mc_next c, c\<lparr>mc_heap := (mc_heap c)(mc_next c := newStream k), mc_next := mc_next c + 1\<rparr>)"

definition mux_register :: "nat \<Rightarrow> gwMuxConn \<Rightarrow> gwMuxConn \<times> bool" where
  "mux_register p c =
     (let k = st_key (mc_heap c p) in
      case dict_get (mc_streams c) k of
        Some _ \<Rightarrow> (c, False)
      | None \<Rightarrow> (c\<lparr>mc_streams := dict_set (mc_streams c) k p\<rparr>, True))"

definition mux_unregister :: "nat \<Rightarrow> bool \<Rightarrow> gwMuxConn \<Rightarrow> gwMuxConn" where
  "mux_unregister p fin c =
     (let k = st_key (mc_heap c p);
          c = (if dict_get (mc_streams c) k = Some p then c\<lparr>mc_streams := dict_del (mc_streams c) k\<rparr> else c)
      in if fin then upd_stream p (finish StatusNormalClosure []) c else c)"

definition streamCount :: "gwMuxConn \<Rightarrow> nat" where
  "streamCount c = length (mc_streams c)"

definition isDead :: "gwMuxConn \<Rightarrow> bool" where
  "isDead c = mc_dead c"

definition kill :: "gwMuxConn \<Rightarrow> gwMuxConn" where
  "kill c =
     (if mc_dead c then c
      else fold (\<lambda>p. upd_stream p (finish StatusGoingAway ''enclave mux connection lost'')) (map snd (mc_streams c))
        (c\<lparr>mc_dead := True, mc_connClosed := mc_connClosed c + 1, mc_active := mc_active c - 1, mc_streams := []\<rparr>))"

definition writeFrame :: "byte \<Rightarrow> string \<Rightarrow> 64 word \<Rightarrow> bytes \<Rightarrow> gwMuxConn \<Rightarrow> gwMuxConn \<times> bool" where
  "writeFrame typ sid stream payload c =
     (if isDead c then (c, False)
      else case write_frame \<lparr>fr_typ = typ, fr_sid = sid, fr_stream = stream, fr_payload = payload\<rparr> (mc_bw c) of
        (b, ok) \<Rightarrow> (c\<lparr>mc_bw := b\<rparr>, ok))"

text \<open>One turn of the read loop: the connection afterwards and whether the loop goes on.\<close>

definition on_data :: "frame \<Rightarrow> gwMuxConn \<Rightarrow> gwMuxConn" where
  "on_data f c =
     (case dict_get (mc_streams c) (fr_sid f, fr_stream f) of
        None \<Rightarrow> fst (writeFrame muxTypeClose (fr_sid f) (fr_stream f) (encodeMuxClose StatusProtocolError ''unknown stream'') c)
      | Some p \<Rightarrow> (case enqueue (fr_payload f) (mc_heap c p) of
          Some st \<Rightarrow> upd_stream p (\<lambda>_. st) c
        | None \<Rightarrow>
            let c = fst (writeFrame muxTypeClose (fr_sid f) (fr_stream f)
                      (encodeMuxClose StatusPolicyViolation ''browser backpressure overflow'') c)
            in upd_stream p (finish StatusPolicyViolation ''backpressure overflow'') (mux_unregister p False c)))"

definition on_close :: "frame \<Rightarrow> gwMuxConn \<Rightarrow> gwMuxConn" where
  "on_close f c =
     (case dict_get (mc_streams c) (fr_sid f, fr_stream f) of
        None \<Rightarrow> c
      | Some p \<Rightarrow> (case parseMuxClose (fr_payload f) of (code, reason) \<Rightarrow>
          upd_stream p (finish code reason) (mux_unregister p False c)))"

definition on_frame :: "frame \<Rightarrow> gwMuxConn \<Rightarrow> gwMuxConn \<times> bool" where
  "on_frame f c =
     (if fr_typ f = muxTypePong then (c, True)
      else if fr_typ f = muxTypePing then (fst (writeFrame muxTypePong [] 0 (fr_payload f) c), True)
      else if fr_typ f = muxTypeData then (on_data f c, True)
      else if fr_typ f = muxTypeClose then (on_close f c, True)
      else (c, False))"

text \<open>\<open>readLoop\<close> on the bytes the connection delivers until its end.\<close>

function readLoop :: "bytes \<Rightarrow> gwMuxConn \<Rightarrow> gwMuxConn" where
  "readLoop br c =
     (case readMuxFrame br of
        Inl _ \<Rightarrow> kill c
      | Inr (f, rest) \<Rightarrow> (case on_frame f c of (c', go) \<Rightarrow> if go then readLoop rest c' else kill c'))"
  by pat_completeness auto
termination
  by (relation "measure (\<lambda>(br, _). length br)") (auto dest: readMuxFrame_shorter)

declare readLoop.simps [simp del]

text \<open>One tick of \<open>keepalive\<close>; it ends when the connection is dead or the ping cannot be written.\<close>

definition keepalive_tick :: "gwMuxConn \<Rightarrow> gwMuxConn \<times> bool" where
  "keepalive_tick c =
     (if isDead c then (c, False)
      else case writeFrame muxTypePing [] 0 [] c of (c', ok) \<Rightarrow> if ok then (c', True) else (kill c', False))"

section \<open>Runs of a connection\<close>

text \<open>
  What the goroutines of a connection do to it: the read loop handles a frame (\<open>ActFrame\<close>); the
  connection ends, by a failed read, by \<open>closeAll\<close> or otherwise (\<open>ActEnd\<close>); the keepalive ticks; and
  the handlers of sealed WebSockets register a stream, leave it, finish it, close its browser
  directly, write a frame for it and start its pump, which then takes payloads and writes them. The
  handling of one frame is one step: what the read loop does with the stream it looked up touches
  that stream alone, and \<open>Ws_Queue\<close> refines its use of the queue.
\<close>

datatype conn_act =
    ActFrame frame
  | ActEnd
  | ActTick
  | ActRegister muxKey
  | ActLeave nat
  | ActFinish nat int string
  | ActClose nat int string
  | ActWrite frame
  | ActPumpStart nat
  | ActTake nat
  | ActWritten nat bool
  | ActPumpDone nat

definition read_turn :: "frame \<Rightarrow> gwMuxConn \<Rightarrow> gwMuxConn" where
  "read_turn f c = (case on_frame f c of (c', go) \<Rightarrow> if go then c' else kill c')"

definition open_stream :: "muxKey \<Rightarrow> gwMuxConn \<Rightarrow> gwMuxConn \<times> nat \<times> bool" where
  "open_stream k c = (case alloc_stream k c of (p, c1) \<Rightarrow> (case mux_register p c1 of (c2, ok) \<Rightarrow> (c2, p, ok)))"

fun conn_step :: "conn_act \<Rightarrow> gwMuxConn \<Rightarrow> gwMuxConn" where
  "conn_step (ActFrame f) c = read_turn f c"
| "conn_step ActEnd c = kill c"
| "conn_step ActTick c = fst (keepalive_tick c)"
| "conn_step (ActRegister k) c = fst (open_stream k c)"
| "conn_step (ActLeave p) c = mux_unregister p True c"
| "conn_step (ActFinish p code reason) c = upd_stream p (finish code reason) c"
| "conn_step (ActWrite f) c = fst (writeFrame (fr_typ f) (fr_sid f) (fr_stream f) (fr_payload f) c)"
| "conn_step (ActClose p code reason) c = upd_stream p (close_direct code reason) c"
| "conn_step (ActPumpStart p) c = upd_stream p pump_start c"
| "conn_step (ActTake p) c = upd_stream p pump_take c"
| "conn_step (ActWritten p written) c = upd_stream p (pump_write written) c"
| "conn_step (ActPumpDone p) c = upd_stream p pump_done c"

definition conn_run :: "conn_act list \<Rightarrow> gwMuxConn \<Rightarrow> gwMuxConn" where
  "conn_run acts c = fold conn_step acts c"

section \<open>Well-formed connections\<close>

declare split_paired_All [simp del] split_paired_Ex [simp del]

text \<open>\<open>finish\<close> closes a browser socket at most once, and exactly when it marks the stream done.\<close>

definition once_ok :: "gwStream \<Rightarrow> bool" where
  "once_ok st = (length (st_closes st) = (if st_done st then 1 else 0))"

definition mux_ok :: "gwMuxConn \<Rightarrow> bool" where
  "mux_ok c \<longleftrightarrow> dict_ok (mc_streams c)
     \<and> (\<forall>k p. dict_get (mc_streams c) k = Some p \<longrightarrow> st_key (mc_heap c p) = k \<and> p < mc_next c)
     \<and> (\<forall>p. once_ok (mc_heap c p))"

lemma mux_okD:
  assumes "mux_ok c"
  shows "dict_ok (mc_streams c)" "dict_get (mc_streams c) k = Some p \<Longrightarrow> st_key (mc_heap c p) = k" "once_ok (mc_heap c p)"
    "dict_get (mc_streams c) k = Some p \<Longrightarrow> p < mc_next c"
  using assms by (auto simp: mux_ok_def)

lemma finish_simps [simp]:
  "st_key (finish code r st) = st_key st" "st_done (finish code r st)"
  "st_outbound (finish code r st) = st_outbound st" "st_queued (finish code r st) = st_queued st"
  "st_done st \<Longrightarrow> finish code r st = st"
  by (simp_all add: finish_def)

lemma once_ok_simps [simp]:
  "once_ok st \<Longrightarrow> once_ok (finish code r st)" "once_ok (st\<lparr>st_outbound := q, st_queued := n\<rparr>) = once_ok st"
  by (simp_all add: once_ok_def finish_def)

lemma upd_stream_simps [simp]:
  "mc_streams (upd_stream p f c) = mc_streams c" "mc_dead (upd_stream p f c) = mc_dead c"
  "mc_connClosed (upd_stream p f c) = mc_connClosed c" "mc_active (upd_stream p f c) = mc_active c"
  "mc_next (upd_stream p f c) = mc_next c" "mc_bw (upd_stream p f c) = mc_bw c"
  "mc_heap (upd_stream p f c) q = (if q = p then f (mc_heap c p) else mc_heap c q)"
  by (simp_all add: upd_stream_def)

lemma writeFrame_simps [simp]:
  "mc_streams (fst (writeFrame t s i pl c)) = mc_streams c" "mc_heap (fst (writeFrame t s i pl c)) = mc_heap c"
  "mc_dead (fst (writeFrame t s i pl c)) = mc_dead c" "mc_connClosed (fst (writeFrame t s i pl c)) = mc_connClosed c"
  "mc_active (fst (writeFrame t s i pl c)) = mc_active c" "mc_next (fst (writeFrame t s i pl c)) = mc_next c"
  by (simp_all add: writeFrame_def split: prod.split)

lemma unregister_simps [simp]:
  "mc_heap (mux_unregister p False c) = mc_heap c" "mc_dead (mux_unregister p False c) = mc_dead c"
  "mc_connClosed (mux_unregister p False c) = mc_connClosed c" "mc_next (mux_unregister p False c) = mc_next c"
  "mc_bw (mux_unregister p False c) = mc_bw c" "mc_active (mux_unregister p False c) = mc_active c"
  "dict_get (mc_streams (mux_unregister p False c)) k =
     (if k = st_key (mc_heap c p) \<and> dict_get (mc_streams c) k = Some p then None else dict_get (mc_streams c) k)"
  "dict_ok (mc_streams c) \<Longrightarrow> dict_ok (mc_streams (mux_unregister p False c))"
  by (auto simp: mux_unregister_def Let_def)

lemma enqueue_Some:
  "enqueue pl st = Some st' \<Longrightarrow> st' = st\<lparr>st_outbound := st_outbound st @ [pl], st_queued := st_queued st + int (length pl)\<rparr>"
  by (simp add: enqueue_def split: if_splits)

text \<open>
  A frame keeps the connection well formed and alive; a stream stays registered or is finished,
  and only the frame's own stream is touched at all.
\<close>

definition frame_effect :: "frame \<Rightarrow> gwMuxConn \<Rightarrow> gwMuxConn \<Rightarrow> bool" where
  "frame_effect f c c' \<longleftrightarrow> mux_ok c' \<and> mc_dead c' = mc_dead c \<and> mc_connClosed c' = mc_connClosed c
    \<and> mc_next c' = mc_next c \<and> mc_active c' = mc_active c
    \<and> (\<forall>k p. dict_get (mc_streams c) k = Some p \<longrightarrow>
        dict_get (mc_streams c') k = Some p \<or> st_done (mc_heap c' p))
    \<and> (\<forall>p. st_done (mc_heap c p) \<longrightarrow> st_done (mc_heap c' p))
    \<and> (\<forall>k. k \<noteq> (fr_sid f, fr_stream f) \<longrightarrow> dict_get (mc_streams c') k = dict_get (mc_streams c) k)
    \<and> (\<forall>p. dict_get (mc_streams c) (fr_sid f, fr_stream f) \<noteq> Some p \<longrightarrow> mc_heap c' p = mc_heap c p)"

lemma frame_effectD:
  assumes "frame_effect f c c'"
  shows "mux_ok c'" "mc_dead c' = mc_dead c" "mc_connClosed c' = mc_connClosed c"
    "dict_get (mc_streams c) k = Some p \<Longrightarrow> dict_get (mc_streams c') k = Some p \<or> st_done (mc_heap c' p)"
    "st_done (mc_heap c p) \<Longrightarrow> st_done (mc_heap c' p)"
    "k \<noteq> (fr_sid f, fr_stream f) \<Longrightarrow> dict_get (mc_streams c') k = dict_get (mc_streams c) k"
    "dict_get (mc_streams c) (fr_sid f, fr_stream f) \<noteq> Some p \<Longrightarrow> mc_heap c' p = mc_heap c p"
    "mc_next c' = mc_next c" "mc_active c' = mc_active c"
  using assms by (simp_all add: frame_effect_def)

lemma effect_same:
  "mux_ok c \<Longrightarrow> mc_streams c' = mc_streams c \<Longrightarrow> mc_heap c' = mc_heap c \<Longrightarrow> mc_dead c' = mc_dead c \<Longrightarrow>
   mc_connClosed c' = mc_connClosed c \<Longrightarrow> mc_next c' = mc_next c \<Longrightarrow> mc_active c' = mc_active c \<Longrightarrow> frame_effect f c c'"
  by (simp add: frame_effect_def mux_ok_def)

lemma effect_closed:
  assumes "mux_ok c" and "dict_get (mc_streams c) (fr_sid f, fr_stream f) = Some p"
    and "mc_streams c1 = mc_streams c" "mc_heap c1 = mc_heap c" "mc_dead c1 = mc_dead c" "mc_connClosed c1 = mc_connClosed c"
      "mc_next c1 = mc_next c" "mc_active c1 = mc_active c"
  shows "frame_effect f c (upd_stream p (finish code r) (mux_unregister p False c1))"
proof -
  let ?c' = "upd_stream p (finish code r) (mux_unregister p False c1)"
  have key: "dict_get (mc_streams c) j = Some p \<longleftrightarrow> j = (fr_sid f, fr_stream f)" for j
    using mux_okD(2) [OF assms(1)] assms(2) by metis
  then have get: "dict_get (mc_streams ?c') j =
      (if j = (fr_sid f, fr_stream f) then None else dict_get (mc_streams c) j)" for j
    using assms mux_okD(2) [OF assms(1,2)] by simp
  have "dict_ok (mc_streams ?c')" "once_ok (mc_heap ?c' q)" for q
    using mux_okD [OF assms(1)] assms(3,4) by simp_all
  moreover have "dict_get (mc_streams c) j = Some q \<Longrightarrow> st_key (mc_heap ?c' q) = j \<and> q < mc_next ?c'" for j q
    using mux_okD(2,4) [OF assms(1)] assms(4,7) by simp
  ultimately have "mux_ok ?c'"
    unfolding mux_ok_def get by simp
  then show ?thesis
    unfolding frame_effect_def get using assms(2-) by simp
qed

lemma on_data_effect: "mux_ok c \<Longrightarrow> frame_effect f c (on_data f c)"
proof (cases "dict_get (mc_streams c) (fr_sid f, fr_stream f)")
  case None
  then show "mux_ok c \<Longrightarrow> ?thesis" by (simp add: on_data_def effect_same)
next
  case (Some p)
  assume ok: "mux_ok c"
  show ?thesis
  proof (cases "enqueue (fr_payload f) (mc_heap c p)")
    case None
    with Some ok show ?thesis by (simp add: on_data_def Let_def effect_closed)
  next
    case st: (Some st)
    note st' = enqueue_Some [OF st]
    have "mux_ok (upd_stream p (\<lambda>_. st) c)"
      using ok st' unfolding mux_ok_def by simp
    with Some st st' show ?thesis
      by (simp add: on_data_def frame_effect_def)
  qed
qed

lemma on_close_effect: "mux_ok c \<Longrightarrow> frame_effect f c (on_close f c)"
  by (simp add: on_close_def effect_same effect_closed split: option.split prod.split)

lemma on_frame_effect: "mux_ok c \<Longrightarrow> frame_effect f c (fst (on_frame f c))"
  by (simp add: on_frame_def on_data_effect on_close_effect effect_same)

section \<open>The end of a connection\<close>

lemma heap_finish_all:
  "mc_heap (fold (\<lambda>p. upd_stream p (finish code r)) ps c) q =
     (if q \<in> set ps then finish code r (mc_heap c q) else mc_heap c q)"
  "mc_streams (fold (\<lambda>p. upd_stream p (finish code r)) ps c) = mc_streams c"
  "mc_dead (fold (\<lambda>p. upd_stream p (finish code r)) ps c) = mc_dead c"
  "mc_connClosed (fold (\<lambda>p. upd_stream p (finish code r)) ps c) = mc_connClosed c"
  "mc_next (fold (\<lambda>p. upd_stream p (finish code r)) ps c) = mc_next c"
  "mc_bw (fold (\<lambda>p. upd_stream p (finish code r)) ps c) = mc_bw c"
  "mc_active (fold (\<lambda>p. upd_stream p (finish code r)) ps c) = mc_active c"
  by (induction ps arbitrary: c) simp_all

lemma kill_effect:
  assumes "mux_ok c" and "\<not> mc_dead c"
  shows "mux_ok (kill c)" "mc_dead (kill c)" "mc_streams (kill c) = []" "mc_connClosed (kill c) = mc_connClosed c + 1"
    "dict_get (mc_streams c) k = Some p \<Longrightarrow> st_done (mc_heap (kill c) p)"
    "st_done (mc_heap c p) \<Longrightarrow> st_done (mc_heap (kill c) p)"
proof -
  show "mux_ok (kill c)" "mc_dead (kill c)" "mc_streams (kill c) = []" "mc_connClosed (kill c) = mc_connClosed c + 1"
    using assms by (simp_all add: kill_def heap_finish_all mux_ok_def)
  show "dict_get (mc_streams c) k = Some p \<Longrightarrow> st_done (mc_heap (kill c) p)"
    using assms(2) by (force simp: kill_def heap_finish_all dest: dict_get_in)
  show "st_done (mc_heap c p) \<Longrightarrow> st_done (mc_heap (kill c) p)"
    using assms(2) by (simp add: kill_def heap_finish_all)
qed

lemma readLoop_end:
  "mux_ok c \<Longrightarrow> \<not> mc_dead c \<Longrightarrow>
   mux_ok (readLoop br c) \<and> mc_dead (readLoop br c) \<and> mc_streams (readLoop br c) = []
   \<and> mc_connClosed (readLoop br c) = mc_connClosed c + 1
   \<and> (\<forall>p. (\<exists>k. dict_get (mc_streams c) k = Some p) \<or> st_done (mc_heap c p) \<longrightarrow> st_done (mc_heap (readLoop br c) p))"
proof (induction br c rule: readLoop.induct)
  case (1 br c)
  show ?case
  proof (cases "readMuxFrame br")
    case (Inl err)
    then show ?thesis
      using kill_effect [OF "1.prems"] by (subst (1 2 3 4 5) readLoop.simps) auto
  next
    case (Inr fr)
    obtain f rest where fr: "fr = (f, rest)" by (cases fr)
    obtain c' go where step: "on_frame f c = (c', go)" by (cases "on_frame f c")
    note eff = frame_effectD [OF on_frame_effect [OF "1.prems"(1), of f], unfolded step fst_conv]
    from eff(2) "1.prems" have alive: "\<not> mc_dead c'" by simp
    have eq: "readLoop br c = (if go then readLoop rest c' else kill c')"
      by (subst readLoop.simps) (simp add: Inr fr step)
    show ?thesis
    proof (cases go)
      case True
      with "1.IH" [OF Inr fr [symmetric] step [symmetric] True eff(1) alive] eff eq show ?thesis
        by (metis (no_types, lifting))
    next
      case False
      with kill_effect [OF eff(1) alive] eff eq show ?thesis
        by (metis (no_types, lifting))
    qed
  qed
qed

section \<open>Demultiplexing\<close>

definition on_frames :: "frame list \<Rightarrow> gwMuxConn \<Rightarrow> gwMuxConn" where
  "on_frames fs c = fold (\<lambda>f c. fst (on_frame f c)) fs c"

definition data_for :: "muxKey \<Rightarrow> frame list \<Rightarrow> bytes list" where
  "data_for k fs = map fr_payload (filter (\<lambda>f. fr_typ f = muxTypeData \<and> (fr_sid f, fr_stream f) = k) fs)"

lemma types_distinct [simp]:
  "muxTypeData \<noteq> muxTypePong" "muxTypeData \<noteq> muxTypePing" "muxTypeClose \<noteq> muxTypePong" "muxTypeClose \<noteq> muxTypePing"
  "muxTypeData \<noteq> muxTypeClose" "muxTypePing \<noteq> muxTypePong"
  by (simp_all add: muxTypePong_def muxTypePing_def muxTypeData_def muxTypeClose_def)

lemma on_frame_own_data:
  assumes "dict_get (mc_streams c) k = Some p" and "(fr_sid f, fr_stream f) = k" and "fr_typ f = muxTypeData"
    and "enqueue (fr_payload f) (mc_heap c p) = Some st"
  shows "mc_heap (fst (on_frame f c)) p = st" "dict_get (mc_streams (fst (on_frame f c))) k = Some p"
  using assms by (simp_all add: on_frame_def on_data_def)

lemma on_frame_own_other:
  assumes "(fr_sid f, fr_stream f) = k" and "fr_typ f \<noteq> muxTypeData" and "fr_typ f \<noteq> muxTypeClose"
  shows "mc_heap (fst (on_frame f c)) p = mc_heap c p" "mc_streams (fst (on_frame f c)) = mc_streams c"
  using assms by (simp_all add: on_frame_def)

lemma on_frames_stream:
  assumes "mux_ok c" and "dict_get (mc_streams c) k = Some p"
    and "list_all (\<lambda>f. (fr_sid f, fr_stream f) = k \<longrightarrow> fr_typ f \<noteq> muxTypeClose) fs"
    and "st_queued (mc_heap c p) + int (length (concat (data_for k fs))) \<le> gwMuxStreamQueueBytes"
    and "length (st_outbound (mc_heap c p)) + length (data_for k fs) \<le> gwMuxStreamQueue"
  shows "dict_get (mc_streams (on_frames fs c)) k = Some p
    \<and> st_outbound (mc_heap (on_frames fs c) p) = st_outbound (mc_heap c p) @ data_for k fs
    \<and> st_done (mc_heap (on_frames fs c) p) = st_done (mc_heap c p)"
  using assms
proof (induction fs arbitrary: c)
  case Nil
  then show ?case by (simp add: on_frames_def data_for_def)
next
  case (Cons f fs)
  let ?c = "fst (on_frame f c)"
  note eff = frame_effectD [OF on_frame_effect [OF Cons.prems(1), of f]]
  have fold: "on_frames (f # fs) c = on_frames fs ?c" by (simp add: on_frames_def)
  show ?case
  proof (cases "(fr_sid f, fr_stream f) = k \<and> fr_typ f = muxTypeData")
    case True
    then have data: "data_for k (f # fs) = fr_payload f # data_for k fs" by (simp add: data_for_def)
    with Cons.prems(4,5) have "enqueue (fr_payload f) (mc_heap c p) = Some ((mc_heap c p)\<lparr>
        st_outbound := st_outbound (mc_heap c p) @ [fr_payload f],
        st_queued := st_queued (mc_heap c p) + int (length (fr_payload f))\<rparr>)"
      by (simp add: enqueue_def)
    note own = on_frame_own_data [OF Cons.prems(2) conjunct1 [OF True] conjunct2 [OF True] this]
    show ?thesis
      using Cons.IH [OF eff(1) own(2)] Cons.prems(3-5) own(1) data unfolding fold by (simp add: algebra_simps)
  next
    case False
    then have data: "data_for k (f # fs) = data_for k fs" by (auto simp: data_for_def)
    have same: "mc_heap ?c p = mc_heap c p" "dict_get (mc_streams ?c) k = Some p"
    proof -
      have "(fr_sid f, fr_stream f) = k \<Longrightarrow> fr_typ f \<noteq> muxTypeData \<and> fr_typ f \<noteq> muxTypeClose"
        using False Cons.prems(3) by auto
      moreover have "(fr_sid f, fr_stream f) \<noteq> k \<Longrightarrow> dict_get (mc_streams c) (fr_sid f, fr_stream f) \<noteq> Some p"
        using mux_okD(2) [OF Cons.prems(1)] Cons.prems(2) by metis
      ultimately show "mc_heap ?c p = mc_heap c p" "dict_get (mc_streams ?c) k = Some p"
        using on_frame_own_other [where f = f and k = k and c = c] eff(6) [of k] eff(7) [of p] Cons.prems(2) by metis+
    qed
    show ?thesis
      using Cons.IH [OF eff(1) same(2)] Cons.prems(3-5) same(1) data unfolding fold by simp
  qed
qed

section \<open>Invariants of runs\<close>

text \<open>
  A connection is closed and its gauge lowered exactly when it is dead, once. Together with the
  well-formedness above this is kept by every action.
\<close>

definition conn_ok :: "gwMuxConn \<Rightarrow> bool" where
  "conn_ok c \<longleftrightarrow> mux_ok c \<and> mc_connClosed c = (if mc_dead c then 1 else 0) \<and> mc_active c = (if mc_dead c then 0 else 1)"

lemma conn_okD: "conn_ok c \<Longrightarrow> mux_ok c"
  by (simp add: conn_ok_def)

lemma conn_ok_new: "conn_ok (newMuxConn room)"
  by (simp add: conn_ok_def mux_ok_def newMuxConn_def newStream_def once_ok_def)

lemma kill_dead: "mc_dead c \<Longrightarrow> kill c = c"
  by (simp add: kill_def)

lemma kill_simps [simp]: "mc_dead (kill c)" "mc_next (kill c) = mc_next c" "mc_bw (kill c) = mc_bw c"
  by (simp_all add: kill_def heap_finish_all)

lemma kill_heap:
  "\<not> mc_dead c \<Longrightarrow> mc_heap (kill c) p =
     (if p \<in> snd ` set (mc_streams c) then finish StatusGoingAway ''enclave mux connection lost'' (mc_heap c p) else mc_heap c p)"
  by (simp add: kill_def heap_finish_all)

lemma conn_ok_kill: "conn_ok c \<Longrightarrow> conn_ok (kill c)"
proof (cases "mc_dead c")
  case False
  assume "conn_ok c"
  with kill_effect [of c] False show ?thesis
    by (simp add: conn_ok_def) (simp add: kill_def heap_finish_all)
qed (simp add: kill_dead)

lemmas pump_defs = pump_start_def pump_take_def pump_write_def pump_done_def close_direct_def

lemma once_ok_pump [simp]:
  "once_ok st \<Longrightarrow> once_ok (pump_start st)" "once_ok st \<Longrightarrow> once_ok (pump_take st)" "once_ok st \<Longrightarrow> once_ok (pump_write w st)"
  "once_ok st \<Longrightarrow> once_ok (pump_done st)" "once_ok st \<Longrightarrow> once_ok (close_direct code r st)"
  by (auto simp: once_ok_def pump_defs finish_def split: list.split pump.split)

lemma pump_key [simp]:
  "st_key (pump_start st) = st_key st" "st_key (pump_take st) = st_key st" "st_key (pump_write w st) = st_key st"
  "st_key (pump_done st) = st_key st" "st_key (close_direct code r st) = st_key st"
  by (auto simp: pump_defs split: list.split pump.split)

lemma mux_ok_upd:
  assumes "mux_ok c" and "\<And>st. st_key (f st) = st_key st" and "\<And>st. once_ok st \<Longrightarrow> once_ok (f st)"
  shows "mux_ok (upd_stream p f c)"
  using assms by (auto simp: mux_ok_def)

lemma conn_ok_upd:
  "conn_ok c \<Longrightarrow> (\<And>st. st_key (f st) = st_key st) \<Longrightarrow> (\<And>st. once_ok st \<Longrightarrow> once_ok (f st)) \<Longrightarrow>
   conn_ok (upd_stream p f c)"
  by (simp add: conn_ok_def mux_ok_upd)

lemma conn_ok_write: "conn_ok c \<Longrightarrow> conn_ok (fst (writeFrame t s i pl c))"
  by (simp add: conn_ok_def mux_ok_def)

lemma unregister_True: "mux_unregister p True c = upd_stream p (finish StatusNormalClosure []) (mux_unregister p False c)"
  by (simp add: mux_unregister_def Let_def)

lemma conn_ok_unregister: "conn_ok c \<Longrightarrow> conn_ok (mux_unregister p False c)"
  by (auto simp: conn_ok_def mux_ok_def)

lemma open_stream_simps:
  "open_stream k c = (c', p, ok) \<Longrightarrow> p = mc_next c \<and> mc_next c' = mc_next c + 1 \<and> mc_dead c' = mc_dead c
     \<and> mc_bw c' = mc_bw c \<and> mc_connClosed c' = mc_connClosed c \<and> mc_active c' = mc_active c
     \<and> mc_heap c' = (mc_heap c)(p := newStream k) \<and> ok = (dict_get (mc_streams c) k = None)
     \<and> mc_streams c' = (if ok then dict_set (mc_streams c) k p else mc_streams c)"
  by (auto simp: open_stream_def alloc_stream_def mux_register_def newStream_def Let_def split: option.splits prod.splits)

lemma conn_ok_open:
  assumes "conn_ok c"
  shows "conn_ok (fst (open_stream k c))"
proof -
  obtain c' p ok where o: "open_stream k c = (c', p, ok)" by (cases "open_stream k c")
  note new = open_stream_simps [OF o]
  have ok: "mux_ok c" using assms by (rule conn_okD)
  have "once_ok (newStream k)" "st_key (newStream k) = k" by (simp_all add: once_ok_def newStream_def)
  then have "mux_ok c'"
    using new ok unfolding mux_ok_def by (auto split: if_splits) (metis less_SucI nat_neq_iff)+
  with assms new o show ?thesis by (simp add: conn_ok_def)
qed

lemma conn_ok_read: "conn_ok c \<Longrightarrow> conn_ok (read_turn f c)"
proof -
  assume ok: "conn_ok c"
  obtain c' go where step: "on_frame f c = (c', go)" by (cases "on_frame f c")
  note eff = frame_effectD [OF on_frame_effect [OF conn_okD [OF ok], of f], unfolded step fst_conv]
  from ok eff have "conn_ok c'" by (simp add: conn_ok_def)
  then show ?thesis by (simp add: read_turn_def step conn_ok_kill)
qed

lemma conn_ok_tick: "conn_ok c \<Longrightarrow> conn_ok (fst (keepalive_tick c))"
proof -
  assume ok: "conn_ok c"
  obtain c' sent where w: "writeFrame muxTypePing [] 0 [] c = (c', sent)" by (cases "writeFrame muxTypePing [] 0 [] c")
  with conn_ok_write [OF ok, of muxTypePing "[]" 0 "[]"] have "conn_ok c'" by simp
  with ok show ?thesis by (simp add: keepalive_tick_def w conn_ok_kill)
qed

lemma conn_ok_step: "conn_ok c \<Longrightarrow> conn_ok (conn_step a c)"
  by (cases a) (simp_all add: conn_ok_read conn_ok_kill conn_ok_open conn_ok_upd conn_ok_write conn_ok_tick
      unregister_True conn_ok_unregister)

lemma conn_ok_run: "conn_ok c \<Longrightarrow> conn_ok (conn_run acts c)"
  unfolding conn_run_def by (induction acts arbitrary: c) (simp_all add: conn_ok_step)

section \<open>What a run delivers to a browser\<close>

text \<open>
  The payloads \<open>T\<close> that went into a stream's queue are the messages its browser got, then the one the
  pump is writing or, when it has ended, at most one the browser did not take, then those still
  queued.
\<close>

definition in_flight :: "gwStream \<Rightarrow> bytes list" where
  "in_flight st = (case st_pump st of PumpWriting payload \<Rightarrow> [payload] | _ \<Rightarrow> [])"

definition delivered :: "bytes list \<Rightarrow> gwStream \<Rightarrow> bool" where
  "delivered T st \<longleftrightarrow> (\<exists>lost. T = st_browser st @ lost @ st_outbound st
     \<and> (if st_pump st = PumpEnded then length lost \<le> 1 else lost = in_flight st))"

lemma delivered_simps [simp]:
  "delivered T (finish code r st) = delivered T st"
  "delivered T (close_direct code r st) = delivered T st"
  "delivered T st \<Longrightarrow> delivered T (pump_start st)"
  "delivered T st \<Longrightarrow> delivered T (pump_take st)"
  "delivered T st \<Longrightarrow> delivered T (pump_write w st)"
  "delivered T st \<Longrightarrow> delivered T (pump_done st)"
  "delivered T st \<Longrightarrow> enqueue pl st = Some st' \<Longrightarrow> delivered (T @ [pl]) st'"
proof -
  note [simp] = delivered_def in_flight_def
  show "delivered T (finish code r st) = delivered T st" by (simp add: finish_def)
  show "delivered T (close_direct code r st) = delivered T st" by (simp add: close_direct_def)
  show "delivered T st \<Longrightarrow> delivered T (pump_start st)" by (auto simp: pump_start_def)
  show "delivered T st \<Longrightarrow> delivered T (pump_take st)" by (auto simp: pump_take_def split: list.split)
  show "delivered T st \<Longrightarrow> delivered T (pump_write w st)"
    by (cases "st_pump st") (auto simp: pump_write_def finish_def)
  show "delivered T st \<Longrightarrow> delivered T (pump_done st)" by (auto simp: pump_done_def)
  show "delivered T st \<Longrightarrow> enqueue pl st = Some st' \<Longrightarrow> delivered (T @ [pl]) st'"
    by (auto dest!: enqueue_Some)
qed

definition inflow :: "muxKey \<Rightarrow> conn_act \<Rightarrow> bytes list" where
  "inflow k a = (case a of ActFrame f \<Rightarrow> data_for k [f] | _ \<Rightarrow> [])"

definition registered :: "muxKey \<Rightarrow> nat \<Rightarrow> gwMuxConn \<Rightarrow> bool" where
  "registered k p c \<longleftrightarrow> dict_get (mc_streams c) k = Some p"

lemma kill_stream: "delivered T (mc_heap c p) \<Longrightarrow> delivered T (mc_heap (kill c) p)"
  by (cases "mc_dead c") (simp_all add: kill_dead kill_heap)

lemma kill_reg: "registered k p (kill c) \<Longrightarrow> registered k p c"
  by (cases "mc_dead c") (simp_all add: kill_dead kill_def heap_finish_all registered_def)

text \<open>Frames only ever take streams out of the map.\<close>

lemma on_frame_reg: "registered k p (fst (on_frame f c)) \<Longrightarrow> registered k p c"
  by (auto simp: on_frame_def on_data_def on_close_def registered_def Let_def
      split: if_splits option.splits prod.splits)

lemma read_turn_cases:
  obtains (goes) "read_turn f c = fst (on_frame f c)"
  | (ends) "read_turn f c = kill (fst (on_frame f c))" "fr_typ f \<noteq> muxTypeData"
proof (cases "snd (on_frame f c)")
  case True
  with goes show ?thesis by (cases "on_frame f c") (simp add: read_turn_def)
next
  case False
  then have "fr_typ f \<noteq> muxTypeData" by (auto simp: on_frame_def)
  with False ends show ?thesis by (cases "on_frame f c") (simp add: read_turn_def)
qed

lemma read_turn_reg: "registered k p (read_turn f c) \<Longrightarrow> registered k p c"
  using on_frame_reg kill_reg by (cases rule: read_turn_cases [of f c]) metis+

lemma read_turn_next: "mux_ok c \<Longrightarrow> mc_next (read_turn f c) = mc_next c"
  using frame_effectD(8) [OF on_frame_effect, of c f] by (cases rule: read_turn_cases [of f c]) simp_all

text \<open>A frame for the stream, one for another stream, and every other action.\<close>

lemma own_frame_delivers:
  assumes "mux_ok c" and "delivered T (mc_heap c p)" and "registered k p c" and "(fr_sid f, fr_stream f) = k"
  shows "registered k p (fst (on_frame f c)) \<and> delivered (T @ data_for k [f]) (mc_heap (fst (on_frame f c)) p)
    \<or> \<not> registered k p (fst (on_frame f c)) \<and> delivered T (mc_heap (fst (on_frame f c)) p)"
proof -
  have key: "st_key (mc_heap c p) = k" using mux_okD(2) [OF assms(1)] assms(3) by (simp add: registered_def)
  have get: "dict_get (mc_streams c) (fr_sid f, fr_stream f) = Some p" using assms(3,4) by (simp add: registered_def)
  show ?thesis
  proof (cases "fr_typ f = muxTypeData")
    case True
    with get assms(2,4) key show ?thesis
      by (cases "enqueue (fr_payload f) (mc_heap c p)")
        (simp_all add: on_frame_def on_data_def registered_def data_for_def Let_def)
  next
    case False
    with get assms(2,4) key show ?thesis
      by (simp add: on_frame_def on_close_def registered_def data_for_def split: prod.split)
  qed
qed

lemma foreign_frame:
  assumes "mux_ok c" and "dict_get (mc_streams c) (fr_sid f, fr_stream f) \<noteq> Some p"
  shows "mc_heap (fst (on_frame f c)) p = mc_heap c p"
  by (rule frame_effectD(7) [OF on_frame_effect [OF assms(1)] assms(2)])

lemma read_delivers:
  assumes "mux_ok c" and "delivered T (mc_heap c p)" and "registered k p c"
  shows "registered k p (read_turn f c) \<and> delivered (T @ data_for k [f]) (mc_heap (read_turn f c) p)
    \<or> \<not> registered k p (read_turn f c) \<and> delivered T (mc_heap (read_turn f c) p)"
proof -
  let ?c = "fst (on_frame f c)"
  have frame: "registered k p ?c \<and> delivered (T @ data_for k [f]) (mc_heap ?c p)
      \<or> \<not> registered k p ?c \<and> delivered T (mc_heap ?c p)"
  proof (cases "(fr_sid f, fr_stream f) = k")
    case True
    then show ?thesis by (rule own_frame_delivers [OF assms])
  next
    case False
    then have none: "data_for k [f] = []" by (simp add: data_for_def)
    have "st_key (mc_heap c p) = k" using mux_okD(2) [OF assms(1)] assms(3) by (simp add: registered_def)
    with False have "dict_get (mc_streams c) (fr_sid f, fr_stream f) \<noteq> Some p"
      using mux_okD(2) [OF assms(1), of "(fr_sid f, fr_stream f)" p] by auto
    note same = foreign_frame [OF assms(1) this]
    have "dict_get (mc_streams ?c) k = dict_get (mc_streams c) k"
      using frame_effectD(6) [OF on_frame_effect [OF assms(1)], of k f] False by simp
    with assms(2,3) same none show ?thesis by (simp add: registered_def)
  qed
  show ?thesis
  proof (cases rule: read_turn_cases [of f c])
    case goes
    with frame show ?thesis by simp
  next
    case ends
    then have none: "data_for k [f] = []" by (simp add: data_for_def)
    with frame have d: "delivered T (mc_heap ?c p)" by auto
    from kill_stream [OF d] ends(1) none show ?thesis by auto
  qed
qed

lemma read_keeps:
  assumes "mux_ok c" and "delivered T (mc_heap c p)" and "\<And>k. \<not> registered k p c"
  shows "delivered T (mc_heap (read_turn f c) p)"
proof -
  have "mc_heap (fst (on_frame f c)) p = mc_heap c p"
    using assms(3) by (intro foreign_frame [OF assms(1)]) (simp add: registered_def)
  with assms(2) have d: "delivered T (mc_heap (fst (on_frame f c)) p)" by simp
  from kill_stream [OF d] d show ?thesis by (cases rule: read_turn_cases [of f c]) simp_all
qed

lemma open_stream_reg:
  assumes "p < mc_next c"
  shows "registered k p (fst (open_stream j c)) = registered k p c"
    "mc_heap (fst (open_stream j c)) p = mc_heap c p" "mc_next (fst (open_stream j c)) = mc_next c + 1"
proof -
  obtain c' q ok where o: "open_stream j c = (c', q, ok)" by (cases "open_stream j c")
  from open_stream_simps [OF o] assms o
  show "registered k p (fst (open_stream j c)) = registered k p c"
    "mc_heap (fst (open_stream j c)) p = mc_heap c p" "mc_next (fst (open_stream j c)) = mc_next c + 1"
    by (auto simp: registered_def)
qed

lemma tick_stream:
  assumes "delivered T (mc_heap c p)"
  shows "delivered T (mc_heap (fst (keepalive_tick c)) p)" "registered k p (fst (keepalive_tick c)) \<longrightarrow> registered k p c"
    "mc_next (fst (keepalive_tick c)) = mc_next c"
proof -
  obtain c' sent where w: "writeFrame muxTypePing [] 0 [] c = (c', sent)" by (cases "writeFrame muxTypePing [] 0 [] c")
  have same: "mc_heap c' = mc_heap c" "mc_streams c' = mc_streams c" "mc_next c' = mc_next c"
    using writeFrame_simps [of muxTypePing "[]" 0 "[]" c] by (simp_all add: w)
  with assms have d: "delivered T (mc_heap c' p)" by simp
  from kill_stream [OF d] kill_reg [of k p c'] same assms
  show "delivered T (mc_heap (fst (keepalive_tick c)) p)" "registered k p (fst (keepalive_tick c)) \<longrightarrow> registered k p c"
    "mc_next (fst (keepalive_tick c)) = mc_next c"
    by (simp_all add: keepalive_tick_def w registered_def)
qed

lemma unregister_stream:
  "mc_heap (mux_unregister q True c) p = (if p = q then finish StatusNormalClosure [] (mc_heap c p) else mc_heap c p)"
  "registered k p (mux_unregister q True c) \<longrightarrow> registered k p c"
  "mc_next (mux_unregister q True c) = mc_next c"
  by (auto simp: unregister_True registered_def)

text \<open>The other actions neither register the stream nor touch its payloads.\<close>

lemma act_keeps:
  assumes "delivered T (mc_heap c p)" and "p < mc_next c" and "\<And>f. a \<noteq> ActFrame f"
  shows "delivered T (mc_heap (conn_step a c) p) \<and> (registered k p (conn_step a c) \<longrightarrow> registered k p c)
    \<and> p < mc_next (conn_step a c)"
proof (cases a)
  case ActEnd
  with kill_stream [OF assms(1)] kill_reg [of k p c] assms(2) show ?thesis by simp
next
  case ActTick
  with tick_stream(1,3) [OF assms(1)] tick_stream(2) [OF assms(1), of k] assms(2) show ?thesis by simp
next
  case (ActRegister j)
  with open_stream_reg(1) [OF assms(2), of k j] open_stream_reg(2,3) [OF assms(2), of j] assms(1,2) show ?thesis by simp
next
  case (ActLeave q)
  with unregister_stream(1) [of q c p] unregister_stream(2) [of k p q c] unregister_stream(3) [of q c] assms(1,2) show ?thesis
    by (cases "p = q") simp_all
qed (use assms in \<open>auto simp: registered_def\<close>)

lemma unregistered_keeps:
  assumes "conn_ok c" and "p < mc_next c" and "delivered T (mc_heap c p)"
    and "\<And>k. \<not> registered k p c"
  shows "delivered T (mc_heap (conn_run acts c) p) \<and> \<not> registered k p (conn_run acts c)"
  using assms
proof (induction acts arbitrary: c)
  case (Cons a acts)
  have "delivered T (mc_heap (conn_step a c) p) \<and> (\<forall>k. \<not> registered k p (conn_step a c)) \<and> p < mc_next (conn_step a c)"
  proof (cases "\<exists>f. a = ActFrame f")
    case True
    then obtain f where "conn_step a c = read_turn f c" by auto
    with read_keeps [OF conn_okD [OF Cons.prems(1)] Cons.prems(3,4), of f] Cons.prems(2,4) show ?thesis
      using read_turn_reg [of _ p f c] read_turn_next [OF conn_okD [OF Cons.prems(1)], of f] by metis
  next
    case False
    then show ?thesis using act_keeps [OF Cons.prems(3,2), of a] Cons.prems(4) by auto
  qed
  with Cons.IH [OF conn_ok_step [OF Cons.prems(1), of a]] show ?case by (simp add: conn_run_def)
qed (simp add: conn_run_def)

lemma run_delivers:
  assumes "conn_ok c" and "delivered T (mc_heap c p)" and "registered k p c"
  shows "\<exists>n. delivered (T @ take n (concat (map (inflow k) acts))) (mc_heap (conn_run acts c) p)
    \<and> (registered k p (conn_run acts c) \<longrightarrow> length (concat (map (inflow k) acts)) \<le> n)"
  using assms
proof (induction acts arbitrary: c T)
  case Nil
  then show ?case by (simp add: conn_run_def)
next
  case (Cons a acts)
  let ?c = "conn_step a c"
  have ok: "conn_ok ?c" "mux_ok c" using Cons.prems(1) by (simp_all add: conn_ok_step conn_okD)
  have run: "conn_run (a # acts) c = conn_run acts ?c" by (simp add: conn_run_def)
  have p: "p < mc_next c" and key: "registered j p c \<Longrightarrow> j = k" for j
    using mux_okD [OF ok(2)] Cons.prems(3) unfolding registered_def by metis+
  have step: "(registered k p ?c \<and> delivered (T @ inflow k a) (mc_heap ?c p)
      \<or> \<not> registered k p ?c \<and> delivered T (mc_heap ?c p)) \<and> (\<forall>j. registered j p ?c \<longrightarrow> registered j p c) \<and> p < mc_next ?c"
  proof (cases "\<exists>f. a = ActFrame f")
    case True
    then obtain f where "conn_step a c = read_turn f c" "inflow k a = data_for k [f]" by (auto simp: inflow_def)
    with read_delivers [OF ok(2) Cons.prems(2,3), of f] p show ?thesis
      using read_turn_reg [of _ p f c] read_turn_next [OF ok(2), of f] by metis
  next
    case False
    then have "inflow k a = []" by (simp add: inflow_def split: conn_act.split)
    with act_keeps [OF Cons.prems(2) p, of a] False Cons.prems(3) show ?thesis by auto
  qed
  show ?case
  proof (cases "registered k p ?c")
    case True
    with step have "delivered (T @ inflow k a) (mc_heap ?c p)" by blast
    from Cons.IH [OF ok(1) this True] obtain n where
      "delivered ((T @ inflow k a) @ take n (concat (map (inflow k) acts))) (mc_heap (conn_run acts ?c) p)"
      "registered k p (conn_run acts ?c) \<longrightarrow> length (concat (map (inflow k) acts)) \<le> n" by blast
    then show ?thesis
      unfolding run by (intro exI [of _ "length (inflow k a) + n"]) simp
  next
    case False
    with step key have "delivered T (mc_heap ?c p)" "\<And>j. \<not> registered j p ?c" "p < mc_next ?c" by blast+
    from unregistered_keeps [OF ok(1) this(3,1,2)] show ?thesis
      unfolding run by (intro exI [of _ 0]) simp
  qed
qed

section \<open>What a run writes to the enclave\<close>

text \<open>
  \<open>wrote c fs c'\<close>: between the two states the frames \<open>fs\<close> were written, in this order, to the
  connection's buffered writer.
\<close>

definition frames_text :: "frame list \<Rightarrow> string" where
  "frames_text fs = string_of_bytes (concat (map frame_bytes fs))"

definition wrote :: "gwMuxConn \<Rightarrow> frame list \<Rightarrow> gwMuxConn \<Rightarrow> bool" where
  "wrote c fs c' \<longleftrightarrow> (\<forall>S. carries S (mc_bw c) \<longrightarrow> carries (S @ frames_text fs) (mc_bw c'))"

lemma frames_text_append: "frames_text (fs @ gs) = frames_text fs @ frames_text gs"
  by (simp add: frames_text_def)

lemma wrote_same: "mc_bw c' = mc_bw c \<Longrightarrow> wrote c [] c'"
  by (simp add: wrote_def frames_text_def string_of_bytes_def)

lemma wrote_trans: "wrote c fs c1 \<Longrightarrow> wrote c1 gs c2 \<Longrightarrow> wrote c (fs @ gs) c2"
  by (simp add: wrote_def frames_text_append flip: append_assoc)

lemma wrote_bw: "wrote c fs c1 \<Longrightarrow> mc_bw c2 = mc_bw c1 \<Longrightarrow> wrote c fs c2"
  by (simp add: wrote_def)

lemma writeFrame_wrote:
  "wrote c (if mc_dead c then [] else [\<lparr>fr_typ = t, fr_sid = s, fr_stream = i, fr_payload = pl\<rparr>]) (fst (writeFrame t s i pl c))"
  using write_frame_carries by (auto simp: wrote_def writeFrame_def isDead_def frames_text_def string_of_bytes_def split: prod.split)
    (metis fst_conv string_of_bytes_def)

text \<open>A stream's own open and data frames; the actions of others write none of them.\<close>

definition own :: "muxKey \<Rightarrow> frame \<Rightarrow> bool" where
  "own k f \<longleftrightarrow> fr_typ f \<in> {muxTypeOpen, muxTypeData} \<and> (fr_sid f, fr_stream f) = k"

definition foreign :: "muxKey \<Rightarrow> conn_act \<Rightarrow> bool" where
  "foreign k a \<longleftrightarrow> (case a of ActWrite f \<Rightarrow> \<not> own k f | _ \<Rightarrow> True)"

lemma not_own [simp]:
  "\<not> own k \<lparr>fr_typ = muxTypeClose, fr_sid = s, fr_stream = i, fr_payload = pl\<rparr>"
  "\<not> own k \<lparr>fr_typ = muxTypePong, fr_sid = s, fr_stream = i, fr_payload = pl\<rparr>"
  "\<not> own k \<lparr>fr_typ = muxTypePing, fr_sid = s, fr_stream = i, fr_payload = pl\<rparr>"
  by (simp_all add: own_def muxTypeOpen_def muxTypeData_def muxTypeClose_def muxTypePong_def muxTypePing_def)

definition quiet :: "muxKey \<Rightarrow> gwMuxConn \<Rightarrow> gwMuxConn \<Rightarrow> bool" where
  "quiet k c c' \<longleftrightarrow> (\<exists>fs. filter (own k) fs = [] \<and> wrote c fs c')"

lemma quiet_same: "mc_bw c' = mc_bw c \<Longrightarrow> quiet k c c'"
  unfolding quiet_def using wrote_same by (intro exI [of _ "[]"]) simp

lemma quiet_trans: "quiet k c c1 \<Longrightarrow> quiet k c1 c2 \<Longrightarrow> quiet k c c2"
  unfolding quiet_def by (metis append_Nil filter_append wrote_trans)

lemma quiet_bw: "quiet k c c1 \<Longrightarrow> mc_bw c2 = mc_bw c1 \<Longrightarrow> quiet k c c2"
  unfolding quiet_def using wrote_bw by blast

lemma quiet_write:
  "\<not> own k \<lparr>fr_typ = t, fr_sid = s, fr_stream = i, fr_payload = pl\<rparr> \<Longrightarrow> quiet k c (fst (writeFrame t s i pl c))"
  unfolding quiet_def using writeFrame_wrote [of c t s i pl]
  by (intro exI [of _ "if mc_dead c then [] else [_]"] conjI) auto

lemma quiet_frame: "quiet k c (fst (on_frame f c))"
proof (cases "fr_typ f = muxTypeData")
  case True
  have close: "quiet k c (upd_stream p g (mux_unregister p False (fst (writeFrame muxTypeClose s i pl c))))" for p g s i pl
    by (rule quiet_bw [OF quiet_write]) simp_all
  from True show ?thesis
    by (cases "dict_get (mc_streams c) (fr_sid f, fr_stream f)")
      (auto simp: on_frame_def on_data_def Let_def quiet_same quiet_write close split: option.split)
next
  case False
  then show ?thesis
    by (auto simp: on_frame_def on_close_def quiet_same quiet_write split: option.split prod.split)
qed

lemma quiet_kill: "quiet k c c1 \<Longrightarrow> quiet k c (kill c1)"
  by (rule quiet_bw) simp_all

lemma quiet_step:
  assumes "foreign k a"
  shows "quiet k c (conn_step a c)"
proof (cases a)
  case (ActFrame f)
  then show ?thesis by (cases rule: read_turn_cases [of f c]) (simp_all add: quiet_frame quiet_kill)
next
  case ActTick
  obtain c' sent where w: "writeFrame muxTypePing [] 0 [] c = (c', sent)" by (cases "writeFrame muxTypePing [] 0 [] c")
  with quiet_write [of k muxTypePing "[]" 0 "[]" c] have "quiet k c c'" by simp
  with ActTick show ?thesis by (simp add: keepalive_tick_def w quiet_same quiet_kill)
next
  case (ActRegister j)
  then show ?thesis
    using open_stream_simps [of j c] by (cases "open_stream j c") (auto intro: quiet_same)
next
  case (ActWrite f)
  with assms have "\<not> own k \<lparr>fr_typ = fr_typ f, fr_sid = fr_sid f, fr_stream = fr_stream f, fr_payload = fr_payload f\<rparr>"
    by (simp add: foreign_def own_def)
  with ActWrite show ?thesis by (simp add: quiet_write)
qed (simp_all add: quiet_same unregister_True)

lemma quiet_run: "list_all (foreign k) acts \<Longrightarrow> quiet k c (conn_run acts c)"
proof (induction acts arbitrary: c)
  case (Cons a acts)
  then have "quiet k (conn_step a c) (conn_run acts (conn_step a c))" by simp
  with quiet_step [of k a c] Cons.prems show ?case by (auto simp: conn_run_def intro: quiet_trans)
qed (simp add: conn_run_def quiet_same)

section \<open>Properties\<close>

text \<open>
  C28. The read loop always ends, whatever bytes the enclave sends, and its end leaves nothing
  open: the connection is dead and closed once more than before, no stream is registered, and
  every stream that was registered when it started is done, its browser socket closed by \<open>finish\<close>
  exactly once, for the frame that ended it or for the end of the connection.
\<close>

theorem readLoop_finishes_streams:
  assumes "mux_ok c" and "\<not> mc_dead c" and "dict_get (mc_streams c) k = Some p"
  shows "st_done (mc_heap (readLoop br c) p) \<and> length (st_closes (mc_heap (readLoop br c) p)) = 1
    \<and> mc_dead (readLoop br c) \<and> mc_streams (readLoop br c) = []
    \<and> mc_connClosed (readLoop br c) = mc_connClosed c + 1"
proof -
  note fin = readLoop_end [OF assms(1,2), of br]
  then have "st_done (mc_heap (readLoop br c) p)" using assms(3) by blast
  moreover from fin have "once_ok (mc_heap (readLoop br c) p)" using mux_okD(3) by blast
  ultimately show ?thesis using fin by (simp add: once_ok_def)
qed

definition sample_stream :: gwStream where
  "sample_stream = newStream (''s'', 1)"

definition sample_mux :: gwMuxConn where
  "sample_mux = (newMuxConn None)\<lparr>mc_heap := (\<lambda>_. sample_stream), mc_streams := [((''s'', 1), 4)], mc_next := 5\<rparr>"

lemma sample_mux_ok: "mux_ok sample_mux" "\<not> mc_dead sample_mux" "dict_get (mc_streams sample_mux) (''s'', 1) = Some 4"
  "mc_heap sample_mux = (\<lambda>_. sample_stream)"
  by (auto simp: sample_mux_def mux_ok_def newMuxConn_def sample_stream_def newStream_def once_ok_def dict_ok_def dict_get_def
      split: if_splits)

theorem readLoop_finishes_streams_witness:
  "length (st_closes (mc_heap (readLoop [9, 0] sample_mux) 4)) = 1"
  using readLoop_finishes_streams [OF sample_mux_ok(1-3)] by simp

text \<open>
  Demultiplexing is exact and streams are independent: as long as a stream's own data fits
  its queue and the enclave does not close it, it receives exactly the payloads addressed to
  it, in order, and stays registered and open, whatever happens to every other stream on the
  connection meanwhile (overflow, close, unknown ids, pings).
\<close>

theorem demux_exact:
  assumes "mux_ok c" and "dict_get (mc_streams c) k = Some p" and "\<not> st_done (mc_heap c p)"
    and "list_all (\<lambda>f. (fr_sid f, fr_stream f) = k \<longrightarrow> fr_typ f \<noteq> muxTypeClose) fs"
    and "st_queued (mc_heap c p) + int (length (concat (data_for k fs))) \<le> gwMuxStreamQueueBytes"
    and "length (st_outbound (mc_heap c p)) + length (data_for k fs) \<le> gwMuxStreamQueue"
  shows "st_outbound (mc_heap (on_frames fs c) p) = st_outbound (mc_heap c p) @ data_for k fs
    \<and> dict_get (mc_streams (on_frames fs c)) k = Some p \<and> \<not> st_done (mc_heap (on_frames fs c) p)"
  using on_frames_stream [OF assms(1,2,4-6)] assms(3) by simp

theorem demux_exact_witness:
  "st_outbound (mc_heap (on_frames
     [\<lparr>fr_typ = 2, fr_sid = ''s'', fr_stream = 1, fr_payload = [7]\<rparr>,
      \<lparr>fr_typ = 3, fr_sid = ''t'', fr_stream = 1, fr_payload = []\<rparr>,
      \<lparr>fr_typ = 2, fr_sid = ''s'', fr_stream = 1, fr_payload = [8, 9]\<rparr>] sample_mux) 4) = [[7], [8, 9]]"
proof -
  let ?fs = "[\<lparr>fr_typ = 2, fr_sid = ''s'', fr_stream = 1, fr_payload = [7]\<rparr>,
      \<lparr>fr_typ = 3, fr_sid = ''t'', fr_stream = 1, fr_payload = []\<rparr>,
      \<lparr>fr_typ = 2, fr_sid = ''s'', fr_stream = 1, fr_payload = [8, 9]\<rparr>] :: frame list"
  have "data_for (''s'', 1) ?fs = [[7], [8, 9]]" by (simp add: data_for_def muxTypeData_def)
  then show ?thesis
    using demux_exact [OF sample_mux_ok(1,3), of ?fs]
    by (simp add: sample_mux_ok(4) sample_stream_def newStream_def muxTypeClose_def gwMuxStreamQueueBytes_def gwMuxStreamQueue_def)
qed

text \<open>
  C37. The state of a mux connection stays sound whatever its goroutines do and in whatever order
  (read loop, keepalive, the handlers of its streams, their pumps, cuts, the closing of the pool):
  \<open>finish\<close> closes a stream's browser socket at most once, and exactly when it marks the stream done
  (the closes a handler makes itself, before its stream is done, are counted apart); the
  connection is closed and the gauge lowered once, exactly when it is dead; every registered
  pointer is a stream with the key it is registered under.
\<close>

theorem mux_run_invariant:
  "(\<forall>p. length (st_closes (mc_heap (conn_run acts (newMuxConn room)) p)) =
        (if st_done (mc_heap (conn_run acts (newMuxConn room)) p) then 1 else 0))
   \<and> mc_connClosed (conn_run acts (newMuxConn room)) = (if mc_dead (conn_run acts (newMuxConn room)) then 1 else 0)
   \<and> mc_active (conn_run acts (newMuxConn room)) = (if mc_dead (conn_run acts (newMuxConn room)) then 0 else 1)
   \<and> (\<forall>k p. if dict_get (mc_streams (conn_run acts (newMuxConn room))) k = Some p
        then st_key (mc_heap (conn_run acts (newMuxConn room)) p) = k else True)"
proof -
  have ok: "conn_ok (conn_run acts (newMuxConn room))" by (rule conn_ok_run [OF conn_ok_new])
  then show ?thesis
    using mux_okD(2,3) [OF conn_okD [OF ok]] by (simp add: conn_ok_def once_ok_def)
qed

text \<open>
  C29. What a browser receives, from the moment its stream is registered and under every interleaving
  with the other goroutines of the connection, whether or not the pump has started yet: the
  messages written to the browser are a prefix of the payloads the enclave addressed to this
  stream, in their order, none missing, repeated or taken from another stream. As long as the
  stream is registered, what was written, then at most one payload, then what is queued are all of
  them; until the pump has ended that one payload is exactly what the pump is writing, and
  afterwards it is one the browser did not take.
\<close>

theorem stream_delivery:
  assumes "c = conn_run before (newMuxConn room)" and "dict_get (mc_streams c) k = None" and "p = mc_next c"
    and "st = mc_heap (conn_run acts (conn_step (ActRegister k) c)) p"
  shows "(\<exists>n. st_browser st = take n (concat (map (inflow k) acts)))
    \<and> (dict_get (mc_streams (conn_run acts (conn_step (ActRegister k) c))) k = Some p \<longrightarrow>
        (\<exists>lost. st_browser st @ lost @ st_outbound st = concat (map (inflow k) acts)
          \<and> (if st_pump st = PumpEnded then length lost \<le> 1 else lost = in_flight st)))"
proof -
  let ?D = "concat (map (inflow k) acts)" and ?c = "conn_step (ActRegister k) c"
  have "conn_ok c" unfolding assms(1) by (rule conn_ok_run [OF conn_ok_new])
  then have ok: "conn_ok ?c" by (rule conn_ok_step)
  obtain c' q new where o: "open_stream k c = (c', q, new)" by (cases "open_stream k c")
  with open_stream_simps [OF o] assms(2,3) have "registered k p ?c" "mc_heap ?c p = newStream k"
    by (simp_all add: registered_def)
  moreover from this(2) have "delivered [] (mc_heap ?c p)" by (simp add: delivered_def in_flight_def newStream_def)
  ultimately obtain n where "delivered (take n ?D) st" and all: "registered k p (conn_run acts ?c) \<longrightarrow> length ?D \<le> n"
    using run_delivers [OF ok, of "[]" p k acts] assms(4) by auto
  then obtain lost where
    n: "take n ?D = st_browser st @ lost @ st_outbound st" "if st_pump st = PumpEnded then length lost \<le> 1 else lost = in_flight st"
    unfolding delivered_def by blast
  have "st_browser st = take (length (st_browser st)) (take n ?D)" unfolding n(1) by simp
  then have "\<exists>m. st_browser st = take m ?D" by (metis take_take)
  moreover have "st_browser st @ lost @ st_outbound st = ?D" if "registered k p (conn_run acts ?c)"
    using n(1) all that by (metis take_all)
  ultimately show ?thesis using n(2) unfolding registered_def by blast
qed

theorem stream_delivery_witness:
  "\<exists>n. st_browser (mc_heap (conn_run
      [ActFrame \<lparr>fr_typ = 2, fr_sid = ''s'', fr_stream = 1, fr_payload = [7]\<rparr>, ActPumpStart 0, ActTake 0, ActWritten 0 True]
      (conn_step (ActRegister (''s'', 1)) (newMuxConn None))) 0) = take n [[7]]"
proof -
  let ?f = "\<lparr>fr_typ = 2, fr_sid = ''s'', fr_stream = 1, fr_payload = [7]\<rparr> :: frame"
  have start: "newMuxConn None = conn_run [] (newMuxConn None)" "dict_get (mc_streams (newMuxConn None)) (''s'', 1) = None"
    "0 = mc_next (newMuxConn None)"
    by (simp_all add: conn_run_def newMuxConn_def)
  have "concat (map (inflow (''s'', 1)) [ActFrame ?f, ActPumpStart 0, ActTake 0, ActWritten 0 True]) = [[7]]"
    by (simp add: inflow_def data_for_def muxTypeData_def)
  with stream_delivery [OF start refl, of "[ActFrame ?f, ActPumpStart 0, ActTake 0, ActWritten 0 True]"] show ?thesis by metis
qed

end
