(* ===== verification/Ratls.thy ===== *)
theory Ratls
  imports Go_Http Go_Sha256
begin

text \<open>
  The attestation side of \<^verbatim>\<open>internal/terminate/terminate.go\<close>: the verifier of the enclave's
  RA-TLS certificate, attestation policies and their hashes. Parsing a certificate, reading its
  extensions and verifying its chain are functions of \<^verbatim>\<open>crypto/x509\<close> and decoding a policy one
  of \<^verbatim>\<open>encoding/json\<close>: they are arguments of the definitions that use them.
\<close>

section \<open>Policies\<close>

record PolicyDoc =
  ExpectedOIDs :: "(string, string) dict"

definition parsePolicy :: "(string \<Rightarrow> PolicyDoc option) \<Rightarrow> string \<Rightarrow> PolicyDoc option" where
  "parsePolicy unmarshal raw = (if length raw = 0 then Some \<lparr>ExpectedOIDs = []\<rparr> else unmarshal raw)"

definition hashPolicy :: "string \<Rightarrow> string" where
  "hashPolicy raw = (if length raw = 0 then ''empty'' else hex_string (take 8 (sha256 (bytes_of_string raw))))"

text \<open>\<^verbatim>\<open>hex.DecodeString\<close>: two digits a byte, an error on anything else.\<close>

fun hex_decode :: "string \<Rightarrow> bytes option" where
  "hex_decode [] = Some []"
| "hex_decode [_] = None"
| "hex_decode (a # b # s) =
     (case (hex_digit a, hex_digit b) of
        (Some x, Some y) \<Rightarrow> map_option ((#) (word_of_nat (x * 16 + y))) (hex_decode s)
      | _ \<Rightarrow> None)"

section \<open>The verifier\<close>

definition indexExtensions :: "(string \<times> bytes) list \<Rightarrow> (string, bytes) dict" where
  "indexExtensions exts = fold (\<lambda>(oid, v) m. dict_set m oid v) exts []"

fun bytes_loop :: "bytes \<Rightarrow> bytes \<Rightarrow> bool" where
  "bytes_loop (x # xs) (y # ys) = (if x \<noteq> y then False else bytes_loop xs ys)"
| "bytes_loop _ _ = True"

definition bytesEqual :: "bytes \<Rightarrow> bytes \<Rightarrow> bool" where
  "bytesEqual a b = (if length a \<noteq> length b then False else bytes_loop a b)"

datatype ratls_error =
    NoCertificate | ParseLeafError | ChainInvalid | OIDMissing string | InvalidHex string | OIDMismatch string

text \<open>The loop over the expected OIDs: the first failing entry decides.\<close>

fun check_oids :: "(string, bytes) dict \<Rightarrow> (string, string) dict \<Rightarrow> ratls_error option" where
  "check_oids present [] = None"
| "check_oids present ((oid, expectedHex) # rest) =
     (case dict_get present oid of
        None \<Rightarrow> Some (OIDMissing oid)
      | Some got \<Rightarrow> (case hex_decode (TrimPrefix expectedHex ''0x'') of
          None \<Rightarrow> Some (InvalidHex oid)
        | Some want \<Rightarrow> if \<not> bytesEqual got want then Some (OIDMismatch oid) else check_oids present rest))"

text \<open>The counter label of an outcome; three of them count nothing.\<close>

fun handshake_label :: "ratls_error option \<Rightarrow> string option" where
  "handshake_label None = Some ''ok''"
| "handshake_label (Some NoCertificate) = None"
| "handshake_label (Some ParseLeafError) = Some ''parse_error''"
| "handshake_label (Some ChainInvalid) = Some ''chain_invalid''"
| "handshake_label (Some (OIDMissing _)) = Some ''oid_missing''"
| "handshake_label (Some (InvalidHex _)) = None"
| "handshake_label (Some (OIDMismatch _)) = Some ''oid_mismatch''"

definition makeRATLSVerifier ::
  "(bytes \<Rightarrow> 'cert option) \<Rightarrow> ('cert \<Rightarrow> (string \<times> bytes) list) \<Rightarrow> ('cert \<Rightarrow> 'cert list \<Rightarrow> bool)
     \<Rightarrow> bool \<Rightarrow> bool \<Rightarrow> PolicyDoc \<Rightarrow> bytes list \<Rightarrow> ratls_error option" where
  "makeRATLSVerifier ParseCertificate extensions verify_chain caPool insecureSkip policy rawCerts =
     (case rawCerts of
        [] \<Rightarrow> Some NoCertificate
      | raw # rest \<Rightarrow>
          (case ParseCertificate raw of
             None \<Rightarrow> Some ParseLeafError
           | Some leaf \<Rightarrow>
               if \<not> insecureSkip \<and> caPool \<and> \<not> verify_chain leaf (List.map_filter ParseCertificate rest)
               then Some ChainInvalid
               else if length (ExpectedOIDs policy) > 0
               then check_oids (indexExtensions (extensions leaf)) (ExpectedOIDs policy)
               else None))"

definition isClosedConn :: "string option \<Rightarrow> bool" where
  "isClosedConn err = (case err of
     None \<Rightarrow> False
   | Some s \<Rightarrow> Contains s ''use of closed network connection'' \<or> Contains s ''connection reset by peer'')"

section \<open>Lemmas\<close>

lemma bytesEqual_eq: "bytesEqual a b \<longleftrightarrow> a = b"
proof -
  have "length a = length b \<Longrightarrow> bytes_loop a b \<longleftrightarrow> a = b"
    by (induction a b rule: list_induct2) auto
  then show ?thesis by (auto simp: bytesEqual_def)
qed

text \<open>The value a certificate carries for an OID: that of the last extension with it.\<close>

definition carried :: "(string \<times> bytes) list \<Rightarrow> string \<Rightarrow> bytes option" where
  "carried exts oid = map_option snd (find (\<lambda>e. fst e = oid) (rev exts))"

lemma indexExtensions_get: "dict_get (indexExtensions exts) oid = carried exts oid"
  using gomap.get_fold_put [of fst snd exts "[]" oid]
  by (simp add: indexExtensions_def carried_def case_prod_unfold split: option.split)

lemma check_oids_None:
  "check_oids present oids = None \<longleftrightarrow>
     (\<forall>(oid, hex) \<in> set oids. \<exists>v. dict_get present oid = Some v \<and> hex_decode (TrimPrefix hex ''0x'') = Some v)"
  by (induction oids rule: check_oids.induct) (auto simp: bytesEqual_eq split: option.splits)

text \<open>Decoding inverts the encoding a policy author uses.\<close>

lemma hex_decode_hex_string: "hex_decode (hex_string bs) = Some bs"
proof (induction bs)
  case (Cons b bs)
  have "unat b div 16 < 16" by (rule less_mult_imp_div_less) simp
  moreover have "unat b mod 16 < 16" "unat b div 16 * 16 + unat b mod 16 = unat b" by simp_all
  ultimately show ?case using Cons by (simp add: hex_string_def hex_byte_def hex_digit_digit_char)
qed (simp add: hex_string_def)

lemma verifier_accepts:
  "makeRATLSVerifier ParseCertificate extensions verify_chain caPool insecureSkip policy rawCerts = None \<longleftrightarrow>
     (\<exists>raw rest leaf. rawCerts = raw # rest \<and> ParseCertificate raw = Some leaf
        \<and> (insecureSkip \<or> \<not> caPool \<or> verify_chain leaf (List.map_filter ParseCertificate rest))
        \<and> (\<forall>(oid, hex) \<in> set (ExpectedOIDs policy).
              \<exists>v. carried (extensions leaf) oid = Some v \<and> hex_decode (TrimPrefix hex ''0x'') = Some v))"
  by (auto simp: makeRATLSVerifier_def check_oids_None indexExtensions_get split: list.split option.split)

section \<open>Properties\<close>

text \<open>
  C19. The verifier accepts exactly the certificates the policy describes: there is a leaf that
  parses, its chain verifies against the configured pool unless no pool is configured or
  verification is skipped, and for every OID of the policy the leaf carries an extension whose
  value is the expected one byte for byte. A policy entry that is not hexadecimal accepts
  nothing.
\<close>

theorem ratls_verifier_exact:
  "makeRATLSVerifier ParseCertificate extensions verify_chain caPool insecureSkip policy rawCerts = None \<longleftrightarrow>
     (\<exists>raw rest leaf. rawCerts = raw # rest \<and> ParseCertificate raw = Some leaf
        \<and> (insecureSkip \<or> \<not> caPool \<or> verify_chain leaf (List.map_filter ParseCertificate rest))
        \<and> (\<forall>(oid, hex) \<in> set (ExpectedOIDs policy).
              \<exists>v. carried (extensions leaf) oid = Some v \<and> hex_decode (TrimPrefix hex ''0x'') = Some v))"
  by (rule verifier_accepts)

theorem ratls_verifier_exact_witness:
  "makeRATLSVerifier (\<lambda>raw. Some [(''1.2.3'', raw)]) (\<lambda>c. c) (\<lambda>_ _. True) True False
     \<lparr>ExpectedOIDs = [(''1.2.3'', ''0x0aff'')]\<rparr> [[10, 255]] = None"
proof -
  have "hex_decode (TrimPrefix ''0x0aff'' ''0x'') = Some [10, 255]" by code_simp
  moreover have "carried [(''1.2.3'', [10, 255])] ''1.2.3'' = Some [10, 255]" by (simp add: carried_def)
  ultimately show ?thesis
    using ratls_verifier_exact [of "\<lambda>raw. Some [(''1.2.3'', raw)]" "\<lambda>c. c" "\<lambda>_ _. True" True False
        "\<lparr>ExpectedOIDs = [(''1.2.3'', ''0x0aff'')]\<rparr>" "[[10, 255]]"] by simp
qed

end
