(* ===== verification/Mux_Pool.thy ===== *)
theory Mux_Pool
  imports Ws_Mux Ratls
begin

text \<open>
  The pool of mux connections of \<^verbatim>\<open>internal/terminate/wsmux.go\<close>: dialling one (\<open>dial\<close>), choosing one
  for a new stream (\<open>get\<close>) and closing them all. Pools and connections are shared by pointer and
  live in a store (\<open>mux_store\<close>): a goroutine that holds a pointer to a pool acts on that pool also
  after the handler has dropped it from its map.
\<close>

section \<open>The pool\<close>

text \<open>\<open>mp_verify\<close> is the verifier in the pool's TLS configuration, on the certificates of the peer.\<close>

record gwMuxPool =
  mp_upstream :: string
  mp_sni :: string
  mp_verify :: "bytes list \<Rightarrow> ratls_error option"
  mp_conns :: "nat list"

text \<open>What a pointer that was never allocated refers to in the model: a pool that accepts no peer.\<close>

definition no_pool :: gwMuxPool where
  "no_pool = \<lparr>mp_upstream = [], mp_sni = [], mp_verify = (\<lambda>_. Some NoCertificate), mp_conns = []\<rparr>"

text \<open>
  The connections and pools allocated so far, by pointer. \<open>ms_peer\<close> is the certificates the peer of
  a connection presented, which its TLS state holds.
\<close>

record mux_store =
  ms_conns :: "nat \<Rightarrow> gwMuxConn"
  ms_peer :: "nat \<Rightarrow> bytes list"
  ms_next :: nat
  ms_pools :: "nat \<Rightarrow> gwMuxPool"
  ms_poolNext :: nat

datatype pool_error = DialFailed | HandshakeFailed | UpgradeReadFailed | UpgradeStatus nat | NoConnection

text \<open>
  What \<open>dial\<close> meets: whether the upstream answers, the certificates the peer presents, whether the
  rest of the handshake succeeds, the status of the upgrade response if one is read, and how many
  bytes the connection will accept.
\<close>

record dial_env =
  de_dialed :: bool
  de_certs :: "bytes list"
  de_tls :: bool
  de_response :: "nat option"
  de_room :: "nat option"

definition upgrade_request :: "string \<Rightarrow> string" where
  "upgrade_request sni = ''GET '' @ muxPath @ '' HTTP/1.1'' @ crlf @ ''Host: '' @ sni @ crlf
     @ ''Upgrade: '' @ muxProtocol @ crlf @ ''Connection: Upgrade'' @ crlf @ crlf"

text \<open>The request written and the connection returned.\<close>

definition pool_dial :: "dial_env \<Rightarrow> gwMuxPool \<Rightarrow> string \<times> (pool_error + gwMuxConn)" where
  "pool_dial e p =
     (if \<not> de_dialed e then ([], Inl DialFailed)
      else if mp_verify p (de_certs e) \<noteq> None \<or> \<not> de_tls e then ([], Inl HandshakeFailed)
      else (upgrade_request (mp_sni p),
        case de_response e of
          None \<Rightarrow> Inl UpgradeReadFailed
        | Some status \<Rightarrow> if status \<noteq> 101 then Inl (UpgradeStatus status) else Inr (newMuxConn (de_room e))))"

definition least_loaded :: "(nat \<Rightarrow> gwMuxConn) \<Rightarrow> nat \<Rightarrow> nat option \<Rightarrow> nat option" where
  "least_loaded conn c best =
     (case best of None \<Rightarrow> Some c
      | Some b \<Rightarrow> if streamCount (conn c) < streamCount (conn b) then Some c else Some b)"

text \<open>What \<open>get\<close> computes from the pool it has locked: the pool, the store and its result.\<close>

definition pool_get :: "dial_env \<Rightarrow> gwMuxPool \<Rightarrow> mux_store \<Rightarrow> gwMuxPool \<times> mux_store \<times> (pool_error + nat)" where
  "pool_get e p0 ms =
     (let conn = ms_conns ms;
          live = filter (\<lambda>c. \<not> isDead (conn c)) (mp_conns p0);
          p = p0\<lparr>mp_conns := live\<rparr>;
          best = fold (least_loaded conn) live None
      in if length live < gwMuxPoolSize \<and> (case best of None \<Rightarrow> True | Some b \<Rightarrow> streamCount (conn b) > 0)
         then (case snd (pool_dial e p) of
             Inl err \<Rightarrow> (case best of Some b \<Rightarrow> (p, ms, Inr b) | None \<Rightarrow> (p, ms, Inl err))
           | Inr c \<Rightarrow> (p\<lparr>mp_conns := live @ [ms_next ms]\<rparr>,
               ms\<lparr>ms_conns := conn(ms_next ms := c), ms_peer := (ms_peer ms)(ms_next ms := de_certs e), ms_next := ms_next ms + 1\<rparr>,
               Inr (ms_next ms)))
         else (case best of None \<Rightarrow> (p, ms, Inl NoConnection) | Some b \<Rightarrow> (p, ms, Inr b)))"

text \<open>\<open>get\<close> and \<open>closeAll\<close> on the pool a pointer refers to.\<close>

definition get_at :: "dial_env \<Rightarrow> nat \<Rightarrow> mux_store \<Rightarrow> mux_store \<times> (pool_error + nat)" where
  "get_at e ptr ms =
     (case pool_get e (ms_pools ms ptr) ms of (p, ms, r) \<Rightarrow> (ms\<lparr>ms_pools := (ms_pools ms)(ptr := p)\<rparr>, r))"

definition closeAll :: "nat \<Rightarrow> mux_store \<Rightarrow> mux_store" where
  "closeAll ptr ms =
     (let p = ms_pools ms ptr in
      ms\<lparr>ms_pools := (ms_pools ms)(ptr := p\<lparr>mp_conns := []\<rparr>),
         ms_conns := fold (\<lambda>c conn. conn(c := kill (conn c))) (mp_conns p) (ms_conns ms)\<rparr>)"

section \<open>Pool selection\<close>

lemma least_loaded_fold:
  "fold (least_loaded conn) cs (Some b) = Some m \<Longrightarrow>
     m \<in> insert b (set cs) \<and> (\<forall>c \<in> insert b (set cs). streamCount (conn m) \<le> streamCount (conn c))"
proof (induction cs arbitrary: b)
  case (Cons c cs)
  show ?case
  proof (cases "streamCount (conn c) < streamCount (conn b)")
    case True
    with Cons have "m \<in> insert c (set cs) \<and> (\<forall>x \<in> insert c (set cs). streamCount (conn m) \<le> streamCount (conn x))"
      by (simp add: least_loaded_def)
    with True show ?thesis by auto
  next
    case False
    with Cons have "m \<in> insert b (set cs) \<and> (\<forall>x \<in> insert b (set cs). streamCount (conn m) \<le> streamCount (conn x))"
      by (simp add: least_loaded_def)
    with False show ?thesis by auto
  qed
qed simp

lemma least_loaded_total: "fold (least_loaded conn) cs (Some b) \<noteq> None"
  by (induction cs arbitrary: b) (auto simp: least_loaded_def)

lemma best_cases:
  obtains "cs = []" "fold (least_loaded conn) cs None = None"
  | m where "fold (least_loaded conn) cs None = Some m" "m \<in> set cs"
      "\<And>c. c \<in> set cs \<Longrightarrow> streamCount (conn m) \<le> streamCount (conn c)"
proof (cases cs)
  case (Cons c cs')
  then obtain m where m: "fold (least_loaded conn) cs None = Some m"
    using least_loaded_total [of conn cs' c] by (auto simp: least_loaded_def [of conn c None])
  with Cons have "fold (least_loaded conn) cs' (Some c) = Some m" by (simp add: least_loaded_def [of conn c None])
  from least_loaded_fold [OF this] Cons m that(2) show ?thesis by auto
qed (use that in simp)

section \<open>Soundness of a pool\<close>

text \<open>
  A pool of at most two members, which exist in the store and whose peers presented certificates
  the pool's verifier accepts.
\<close>

definition pool_ok :: "gwMuxPool \<Rightarrow> mux_store \<Rightarrow> bool" where
  "pool_ok p ms \<longleftrightarrow> length (mp_conns p) \<le> gwMuxPoolSize \<and> list_all (\<lambda>c. c < ms_next ms) (mp_conns p)
     \<and> list_all (\<lambda>c. mp_verify p (ms_peer ms c) = None) (mp_conns p)
     \<and> (\<forall>c < ms_next ms. conn_ok (ms_conns ms c))"

lemma pool_get_cases:
  assumes "pool_ok p ms"
  obtains (existing) c p' where "pool_get e p ms = (p', ms, Inr c)" "p' = p\<lparr>mp_conns := filter (\<lambda>c. \<not> isDead (ms_conns ms c)) (mp_conns p)\<rparr>"
      "c \<in> set (mp_conns p')" "\<And>d. d \<in> set (mp_conns p') \<Longrightarrow> streamCount (ms_conns ms c) \<le> streamCount (ms_conns ms d)"
      "length (mp_conns p') = gwMuxPoolSize \<or> streamCount (ms_conns ms c) = 0 \<or> (\<exists>err. snd (pool_dial e p') = Inl err)"
  | (dialed) p' c ms' where "pool_get e p ms = (p'\<lparr>mp_conns := mp_conns p' @ [ms_next ms]\<rparr>, ms', Inr (ms_next ms))"
      "p' = p\<lparr>mp_conns := filter (\<lambda>c. \<not> isDead (ms_conns ms c)) (mp_conns p)\<rparr>" "snd (pool_dial e p') = Inr c"
      "ms' = ms\<lparr>ms_conns := (ms_conns ms)(ms_next ms := c), ms_peer := (ms_peer ms)(ms_next ms := de_certs e),
        ms_next := ms_next ms + 1\<rparr>" "length (mp_conns p') < gwMuxPoolSize"
  | (failed) err p' where "pool_get e p ms = (p', ms, Inl err)" "snd (pool_dial e p') = Inl err" "mp_conns p' = []"
      "\<And>c. c \<in> set (mp_conns p) \<Longrightarrow> mc_dead (ms_conns ms c)" "p' = p\<lparr>mp_conns := []\<rparr>"
proof -
  let ?live = "filter (\<lambda>c. \<not> isDead (ms_conns ms c)) (mp_conns p)"
  have len: "length ?live \<le> gwMuxPoolSize" using assms le_trans [OF length_filter_le] by (auto simp: pool_ok_def)
  show ?thesis
  proof (cases rule: best_cases [of ?live "ms_conns ms"])
    case 1
    then have dead: "\<And>c. c \<in> set (mp_conns p) \<Longrightarrow> mc_dead (ms_conns ms c)" by (simp add: filter_empty_conv isDead_def)
    show ?thesis
    proof (cases "snd (pool_dial e (p\<lparr>mp_conns := []\<rparr>))")
      case (Inl err)
      with 1 dead failed show ?thesis by (simp add: pool_get_def Let_def gwMuxPoolSize_def)
    next
      case (Inr c)
      let ?ms = "ms\<lparr>ms_conns := (ms_conns ms)(ms_next ms := c), ms_peer := (ms_peer ms)(ms_next ms := de_certs e),
        ms_next := ms_next ms + 1\<rparr>"
      have "pool_get e p ms = ((p\<lparr>mp_conns := []\<rparr>)\<lparr>mp_conns := [] @ [ms_next ms]\<rparr>, ?ms, Inr (ms_next ms))"
        using 1 Inr by (simp add: pool_get_def Let_def gwMuxPoolSize_def)
      then show ?thesis using 1(1) Inr by (intro dialed [of "p\<lparr>mp_conns := []\<rparr>" ?ms c]) (simp_all add: gwMuxPoolSize_def)
    qed
  next
    case (2 m)
    show ?thesis
    proof (cases "length ?live < gwMuxPoolSize \<and> streamCount (ms_conns ms m) > 0")
      case True
      show ?thesis
      proof (cases "snd (pool_dial e (p\<lparr>mp_conns := ?live\<rparr>))")
        case (Inl err)
        with True 2 existing [of _ m] show ?thesis by (simp add: pool_get_def Let_def)
      next
        case (Inr c)
        let ?ms = "ms\<lparr>ms_conns := (ms_conns ms)(ms_next ms := c), ms_peer := (ms_peer ms)(ms_next ms := de_certs e),
        ms_next := ms_next ms + 1\<rparr>"
        have "pool_get e p ms = ((p\<lparr>mp_conns := ?live\<rparr>)\<lparr>mp_conns := ?live @ [ms_next ms]\<rparr>, ?ms, Inr (ms_next ms))"
          using True 2 Inr by (simp add: pool_get_def Let_def)
        then show ?thesis using True Inr by (intro dialed [of "p\<lparr>mp_conns := ?live\<rparr>" ?ms c]) simp_all
      qed
    next
      case False
      with 2 len existing [of _ m] show ?thesis by (auto simp: pool_get_def Let_def)
    qed
  qed
qed

lemma pool_dial_Inr:
  "snd (pool_dial e p) = Inr c \<Longrightarrow> mp_verify p (de_certs e) = None \<and> c = newMuxConn (de_room e)"
  by (auto simp: pool_dial_def split: if_splits option.splits)

lemma store_new:
  "\<forall>c < ms_next ms. conn_ok (ms_conns ms c) \<Longrightarrow>
   \<forall>c < Suc (ms_next ms). conn_ok (((ms_conns ms)(ms_next ms := newMuxConn room)) c)"
  by (simp add: conn_ok_new less_Suc_eq)

text \<open>Closing a pool kills every connection of it and leaves the others alone.\<close>

lemma kill_fold:
  "fold (\<lambda>c conn. conn(c := kill (conn c))) cs conn c = (if c \<in> set cs then kill (conn c) else conn c)"
proof (induction cs arbitrary: conn)
  case (Cons d cs)
  have "kill (kill x) = kill x" for x by (simp add: kill_dead)
  with Cons show ?case by simp
qed simp

lemma closeAll_simps [simp]:
  "ms_conns (closeAll ptr ms) c = (if c \<in> set (mp_conns (ms_pools ms ptr)) then kill (ms_conns ms c) else ms_conns ms c)"
  "ms_next (closeAll ptr ms) = ms_next ms" "ms_peer (closeAll ptr ms) = ms_peer ms" "ms_poolNext (closeAll ptr ms) = ms_poolNext ms"
  "ms_pools (closeAll ptr ms) q = (if q = ptr then (ms_pools ms ptr)\<lparr>mp_conns := []\<rparr> else ms_pools ms q)"
  by (simp_all add: closeAll_def kill_fold Let_def)

lemma pool_get_spec:
  assumes "pool_ok p ms" and "pool_get e p ms = (p', ms', r)"
  shows "pool_ok p' ms' \<and> list_all (\<lambda>c. \<not> mc_dead (ms_conns ms' c)) (mp_conns p')
    \<and> (case r of
         Inr c \<Rightarrow> c \<in> set (mp_conns p') \<and>
           (if c \<in> set (mp_conns p) then list_all (\<lambda>d. streamCount (ms_conns ms c) \<le> streamCount (ms_conns ms d)) (mp_conns p')
            else c = ms_next ms \<and> mp_verify p (de_certs e) = None \<and> ms_conns ms' c = newMuxConn (de_room e))
       | Inl err \<Rightarrow> snd (pool_dial e p') = Inl err \<and> list_all (\<lambda>c. mc_dead (ms_conns ms c)) (mp_conns p))"
proof -
  have members: "c \<in> set (mp_conns p) \<Longrightarrow> c < ms_next ms" for c using assms(1) by (simp add: pool_ok_def list_all_iff)
  from assms(1) show ?thesis
  proof (cases rule: pool_get_cases [where e = e])
    case (existing c q)
    then have "p' = q" "ms' = ms" "r = Inr c" using assms(2) by simp_all
    with existing members assms(1) le_trans [OF length_filter_le] show ?thesis
      by (auto simp: pool_ok_def isDead_def list_all_iff)
  next
    case (dialed q c ms1)
    note new = pool_dial_Inr [OF dialed(3)]
    have eq: "p' = q\<lparr>mp_conns := mp_conns q @ [ms_next ms]\<rparr>" "ms' = ms1" "r = Inr (ms_next ms)"
      using dialed(1) assms(2) by simp_all
    have "\<not> mc_dead (newMuxConn (de_room e))" by (simp add: newMuxConn_def)
    with dialed(2,4,5) new eq members assms(1) store_new [of ms "de_room e"] show ?thesis
      by (auto simp: pool_ok_def isDead_def list_all_iff less_Suc_eq)
  next
    case (failed err q)
    then have "p' = q" "ms' = ms" "r = Inl err" using assms(2) by simp_all
    with failed assms(1) show ?thesis by (simp add: pool_ok_def list_all_iff)
  qed
qed

lemma pool_get_others:
  assumes "pool_ok p ms" and "pool_get e p ms = (p', ms', r)"
  shows "(\<forall>q. pool_ok q ms \<longrightarrow> pool_ok q ms') \<and> set (mp_conns p') \<subseteq> insert (ms_next ms) (set (mp_conns p))
    \<and> mp_upstream p' = mp_upstream p \<and> mp_sni p' = mp_sni p \<and> mp_verify p' = mp_verify p
    \<and> ms_next ms \<le> ms_next ms' \<and> (\<forall>c < ms_next ms. ms_conns ms' c = ms_conns ms c)
    \<and> ms_pools ms' = ms_pools ms \<and> ms_poolNext ms' = ms_poolNext ms"
  using assms(1)
proof (cases rule: pool_get_cases [where e = e])
  case (dialed q1 d ms1)
  note new = pool_dial_Inr [OF dialed(3)]
  have eq: "p' = q1\<lparr>mp_conns := mp_conns q1 @ [ms_next ms]\<rparr>" "ms' = ms1" using dialed(1) assms(2) by simp_all
  have "pool_ok q ms \<Longrightarrow> pool_ok q ms'" for q
    using dialed(4) eq(2) new store_new [of ms "de_room e"] by (auto simp: pool_ok_def list_all_iff)
  with dialed(2,4) eq show ?thesis by auto
qed (use assms(2) in auto)

section \<open>The store\<close>

text \<open>Every pool is sound, whether a map holds it or not, and no two share a connection.\<close>

definition store_ok :: "mux_store \<Rightarrow> bool" where
  "store_ok ms \<longleftrightarrow> (\<forall>ptr. pool_ok (ms_pools ms ptr) ms)
     \<and> (\<forall>p q. p \<noteq> q \<longrightarrow> set (mp_conns (ms_pools ms p)) \<inter> set (mp_conns (ms_pools ms q)) = {})"

lemma store_okD:
  assumes "store_ok ms"
  shows "pool_ok (ms_pools ms ptr) ms" "c < ms_next ms \<Longrightarrow> conn_ok (ms_conns ms c)"
    "c \<in> set (mp_conns (ms_pools ms p)) \<Longrightarrow> c < ms_next ms"
    "c \<in> set (mp_conns (ms_pools ms p)) \<Longrightarrow> c \<in> set (mp_conns (ms_pools ms q)) \<Longrightarrow> p = q"
proof -
  show ok: "pool_ok (ms_pools ms ptr) ms" for ptr using assms by (simp add: store_ok_def)
  show "c < ms_next ms \<Longrightarrow> conn_ok (ms_conns ms c)" using ok by (simp add: pool_ok_def)
  show "c \<in> set (mp_conns (ms_pools ms p)) \<Longrightarrow> c < ms_next ms" using ok [of p] by (auto simp: pool_ok_def list_all_iff)
  show "c \<in> set (mp_conns (ms_pools ms p)) \<Longrightarrow> c \<in> set (mp_conns (ms_pools ms q)) \<Longrightarrow> p = q"
    using assms unfolding store_ok_def by blast
qed

text \<open>What a pool was built for never changes.\<close>

definition pool_id :: "gwMuxPool \<Rightarrow> string \<times> string \<times> (bytes list \<Rightarrow> ratls_error option)" where
  "pool_id p = (mp_upstream p, mp_sni p, mp_verify p)"

lemma pool_id_conns [simp]: "pool_id (p\<lparr>mp_conns := cs\<rparr>) = pool_id p"
  by (simp add: pool_id_def)

lemma get_at_id:
  assumes "get_at e ptr ms = (ms', r)"
  shows "pool_id (ms_pools ms' q) = pool_id (ms_pools ms q)" "q \<noteq> ptr \<Longrightarrow> ms_pools ms' q = ms_pools ms q"
    "ms_poolNext ms' = ms_poolNext ms" "ms_next ms \<le> ms_next ms'" "c < ms_next ms \<Longrightarrow> ms_conns ms' c = ms_conns ms c"
  using assms by (auto simp: get_at_def pool_get_def pool_id_def Let_def split: if_splits option.splits sum.splits)

lemma get_at_ok:
  assumes "store_ok ms" and "get_at e ptr ms = (ms', r)"
  shows "store_ok ms'" "r = Inr c \<Longrightarrow> c \<in> set (mp_conns (ms_pools ms' ptr)) \<and> \<not> mc_dead (ms_conns ms' c)"
proof -
  obtain p' ms1 where g: "pool_get e (ms_pools ms ptr) ms = (p', ms1, r)" and ms': "ms' = ms1\<lparr>ms_pools := (ms_pools ms1)(ptr := p')\<rparr>"
    using assms(2) by (auto simp: get_at_def split: prod.splits)
  note spec = pool_get_spec [OF store_okD(1) [OF assms(1)] g] and others = pool_get_others [OF store_okD(1) [OF assms(1)] g]
  have same: "pool_ok q ms' = pool_ok q ms1" for q by (simp add: ms' pool_ok_def)
  have "pool_ok (ms_pools ms' q) ms'" for q
    unfolding same using spec others store_okD(1) [OF assms(1), of q] by (simp add: ms')
  moreover have "set (mp_conns (ms_pools ms' p)) \<inter> set (mp_conns (ms_pools ms' q)) = {}" if "p \<noteq> q" for p q
  proof -
    have "c \<notin> set (mp_conns p')" if "c \<in> set (mp_conns (ms_pools ms q))" "q \<noteq> ptr" for c q
      using that store_okD(3,4) [OF assms(1)] others by blast
    with that store_okD(4) [OF assms(1)] others show ?thesis by (auto simp: ms')
  qed
  ultimately show "store_ok ms'" by (simp add: store_ok_def)
  show "r = Inr c \<Longrightarrow> c \<in> set (mp_conns (ms_pools ms' ptr)) \<and> \<not> mc_dead (ms_conns ms' c)"
    using spec by (auto simp: ms' list_all_iff)
qed

lemma closeAll_ok:
  assumes "store_ok ms"
  shows "store_ok (closeAll ptr ms)"
proof -
  have "pool_ok (ms_pools (closeAll ptr ms) q) (closeAll ptr ms)" for q
    using store_okD(1) [OF assms, of q] by (auto simp: pool_ok_def list_all_iff conn_ok_kill)
  then show ?thesis using store_okD(4) [OF assms] by (auto simp: store_ok_def)
qed

section \<open>Properties\<close>

text \<open>
  C31. The pool hands out live connections only, never grows beyond its size, prefers the member
  that carries the fewest streams, puts a connection into the pool only when the certificates of
  its peer pass the pool's verifier, and fails only when it has no live member and cannot dial;
  and every connection of the store stays well formed.
\<close>

theorem pool_get_correct:
  assumes "pool_ok p ms" and "pool_get e p ms = (p', ms', r)"
  shows "pool_ok p' ms' \<and> list_all (\<lambda>c. \<not> mc_dead (ms_conns ms' c)) (mp_conns p')
    \<and> (case r of
         Inr c \<Rightarrow> c \<in> set (mp_conns p') \<and>
           (if c \<in> set (mp_conns p) then list_all (\<lambda>d. streamCount (ms_conns ms c) \<le> streamCount (ms_conns ms d)) (mp_conns p')
            else c = ms_next ms \<and> mp_verify p (de_certs e) = None \<and> ms_conns ms' c = newMuxConn (de_room e))
       | Inl err \<Rightarrow> snd (pool_dial e p') = Inl err \<and> list_all (\<lambda>c. mc_dead (ms_conns ms c)) (mp_conns p))"
  using assms by (rule pool_get_spec)

theorem pool_get_correct_witness:
  "list_all (\<lambda>c. \<not> mc_dead (ms_conns \<lparr>ms_conns = (\<lambda>_. newMuxConn None), ms_peer = (\<lambda>_. []), ms_next = 4, ms_pools = (\<lambda>_. no_pool), ms_poolNext = 0\<rparr> c)) [3]"
proof -
  let ?p = "\<lparr>mp_upstream = ''u'', mp_sni = ''s'', mp_verify = (\<lambda>_. None), mp_conns = [3]\<rparr>"
  let ?ms = "\<lparr>ms_conns = (\<lambda>_. newMuxConn None), ms_peer = (\<lambda>_. []), ms_next = 4, ms_pools = (\<lambda>_. no_pool), ms_poolNext = 0\<rparr>"
  let ?e = "\<lparr>de_dialed = False, de_certs = [], de_tls = False, de_response = None, de_room = None\<rparr>"
  have "pool_ok ?p ?ms" by (simp add: pool_ok_def gwMuxPoolSize_def conn_ok_new)
  moreover have "pool_get ?e ?p ?ms = (?p, ?ms, Inr 3)"
    by (simp add: pool_get_def isDead_def newMuxConn_def least_loaded_def streamCount_def Let_def)
  ultimately show ?thesis using pool_get_correct [of ?p ?ms ?e ?p ?ms "Inr 3"] by simp
qed

end
