(* ===== verification/Handler_Caches.thy ===== *)
theory Handler_Caches
  imports Mux_Pool Cors Route_Table Tracker
begin

text \<open>
  The state of the terminate handler (\<^verbatim>\<open>internal/terminate/terminate.go\<close> and \<^verbatim>\<open>wsmux.go\<close>): its
  configuration, the reverse proxies and the mux pools it caches per application, their
  replacement when a policy changes and their removal when the route table retires a route.
  The caches are shared by all connections under their mutexes, so that any interleaving of
  connections is a sequence of the atomic operations \<open>handler_op\<close>, one per critical section: looking
  a pool up and taking a connection from it are two of them, and anything may happen in between.
\<close>

section \<open>Libraries\<close>

text \<open>
  The library functions the handler calls: decoding a policy (\<^verbatim>\<open>encoding/json\<close>), parsing a URL
  (\<^verbatim>\<open>net/url\<close>), and parsing, reading and verifying certificates (\<^verbatim>\<open>crypto/x509\<close>).
\<close>

record 'cert libs =
  lib_Unmarshal :: "string \<Rightarrow> PolicyDoc option"
  lib_URLParse :: "string \<Rightarrow> bool"
  lib_ParseCertificate :: "bytes \<Rightarrow> 'cert option"
  lib_Extensions :: "'cert \<Rightarrow> (string \<times> bytes) list"
  lib_Verify :: "'cert \<Rightarrow> 'cert list \<Rightarrow> bool"

section \<open>The handler\<close>

text \<open>
  A reverse proxy is what it was built from: the host of its target URL, the upstream its
  transport dials, the upstream-facing name it presents and rewrites to, and the verifier of its
  transport's TLS configuration.
\<close>

record ReverseProxy =
  rp_target :: string
  rp_dial :: string
  rp_name :: string
  rp_verify :: "bytes list \<Rightarrow> ratls_error option"

record upstreamProxy =
  up_policyHash :: string
  up_rp :: ReverseProxy

text \<open>Durations are in nanoseconds; \<open>h_muxPools\<close> holds pointers to pools; \<open>h_tracker\<close> is a pointer to the tracker; \<open>h_lookup\<close> is whether the live table is consulted.\<close>

record Handler =
  h_cors :: cors
  h_proxies :: "(string, upstreamProxy) dict"
  h_muxPools :: "(string, nat) dict"
  h_caCertPool :: bool
  h_insecureSkip :: bool
  h_dialTimeout :: int
  h_idleTimeout :: int
  h_lookup :: bool
  h_tracker :: "nat option"
  h_dial :: dialer

record Options =
  o_DialTimeout :: int
  o_IdleTimeout :: int
  o_CACertPool :: bool
  o_InsecureSkip :: bool
  o_CORSOrigins :: "string list"
  o_Lookup :: bool
  o_Tracker :: "nat option"
  o_Dial :: "dialer option"

definition New_Handler :: "Options \<Rightarrow> Handler" where
  "New_Handler opts =
     \<lparr>h_cors = load_origins (o_CORSOrigins opts), h_proxies = [], h_muxPools = [],
      h_caCertPool = o_CACertPool opts, h_insecureSkip = o_InsecureSkip opts,
      h_dialTimeout = (if o_DialTimeout opts = 0 then 2000000000 else o_DialTimeout opts),
      h_idleTimeout = (if o_IdleTimeout opts = 0 then 300000000000 else o_IdleTimeout opts),
      h_lookup = o_Lookup opts, h_tracker = o_Tracker opts,
      h_dial = (case o_Dial opts of None \<Rightarrow> DialTCP | Some d \<Rightarrow> d)\<rparr>"

text \<open>\<open>Handler.quarantined\<close>, with the live route table at the time of the call.\<close>

definition quarantined :: "Handler \<Rightarrow> Table \<Rightarrow> Route \<Rightarrow> bool" where
  "quarantined h live route =
     (if Quarantined route then True
      else if \<not> h_lookup h then False
      else case Lookup live (SNI route) of None \<Rightarrow> False | Some r \<Rightarrow> Quarantined r)"

text \<open>\<open>dialUpstream\<close>: the handler's dialer, without a client address.\<close>

definition dialUpstream :: "(string \<Rightarrow> string \<Rightarrow> 'r) \<Rightarrow> string \<Rightarrow> 'r" where
  "dialUpstream dial upstream = dial upstream []"

section \<open>Reverse proxies\<close>

datatype setup_error = ParsePolicyError | ParseURLError

definition proxy_app :: "Route \<Rightarrow> string" where
  "proxy_app route = Upstream route @ ''|'' @ UpstreamName route @ ''|''"

definition proxyFor :: "'cert libs \<Rightarrow> Route \<Rightarrow> Handler \<Rightarrow> Handler \<times> (setup_error + ReverseProxy)" where
  "proxyFor L route h =
     (let policyHash = hashPolicy (AttestationPolicy route);
          upstreamName = UpstreamName route;
          app = Upstream route @ ''|'' @ upstreamName @ ''|'';
          key = app @ policyHash
      in case dict_get (h_proxies h) key of
           Some existing \<Rightarrow> (h, Inr (up_rp existing))
         | None \<Rightarrow>
             let h = h\<lparr>h_proxies := dict_drop (\<lambda>k. HasPrefix k app) (h_proxies h)\<rparr> in
             case parsePolicy (lib_Unmarshal L) (AttestationPolicy route) of
               None \<Rightarrow> (h, Inl ParsePolicyError)
             | Some policy \<Rightarrow>
                 let targetHost = (if HasPrefix (Upstream route) ''tunnel:'' then upstreamName else Upstream route) in
                 if \<not> lib_URLParse L (''https://'' @ targetHost) then (h, Inl ParseURLError)
                 else
                   let rp = \<lparr>rp_target = targetHost, rp_dial = Upstream route, rp_name = upstreamName,
                         rp_verify = makeRATLSVerifier (lib_ParseCertificate L) (lib_Extensions L) (lib_Verify L)
                           (h_caCertPool h) (h_insecureSkip h) policy\<rparr>
                   in (h\<lparr>h_proxies := dict_set (h_proxies h) key \<lparr>up_policyHash = policyHash, up_rp = rp\<rparr>\<rparr>, Inr rp))"

section \<open>Mux pools\<close>

definition mux_app :: "Route \<Rightarrow> string" where
  "mux_app route = Upstream route @ ''|'' @ SNI route @ ''|''"

definition close_pools :: "(string \<Rightarrow> bool) \<Rightarrow> (string, nat) dict \<Rightarrow> mux_store \<Rightarrow> mux_store" where
  "close_pools P pools ms = fold (\<lambda>(k, ptr) ms. if P k then closeAll ptr ms else ms) pools ms"

type_synonym hstate = "Handler \<times> mux_store"

text \<open>A new pool is allocated at the next free pointer.\<close>

definition muxPoolFor :: "'cert libs \<Rightarrow> Route \<Rightarrow> hstate \<Rightarrow> hstate \<times> nat" where
  "muxPoolFor L route s =
     (let h = fst s;
          policyHash = hashPolicy (AttestationPolicy route);
          app = Upstream route @ ''|'' @ SNI route @ ''|'';
          key = app @ policyHash
      in case dict_get (h_muxPools h) key of
           Some ptr \<Rightarrow> (s, ptr)
         | None \<Rightarrow>
             let ms = close_pools (\<lambda>k. HasPrefix k app) (h_muxPools h) (snd s);
                 h = h\<lparr>h_muxPools := dict_drop (\<lambda>k. HasPrefix k app) (h_muxPools h)\<rparr>;
                 policy = (case parsePolicy (lib_Unmarshal L) (AttestationPolicy route) of
                   None \<Rightarrow> \<lparr>ExpectedOIDs = []\<rparr> | Some q \<Rightarrow> q);
                 p = \<lparr>mp_upstream = Upstream route, mp_sni = SNI route,
                      mp_verify = makeRATLSVerifier (lib_ParseCertificate L) (lib_Extensions L) (lib_Verify L)
                        (h_caCertPool h) (h_insecureSkip h) policy,
                      mp_conns = []\<rparr>;
                 ptr = ms_poolNext ms;
                 ms = ms\<lparr>ms_pools := (ms_pools ms)(ptr := p), ms_poolNext := ptr + 1\<rparr>
             in ((h\<lparr>h_muxPools := dict_set (h_muxPools h) key ptr\<rparr>, ms), ptr))"

section \<open>Retirement\<close>

text \<open>\<open>Forget\<close>, with the keys of the proxies whose idle connections it closes.\<close>

definition Forget :: "Route \<Rightarrow> hstate \<Rightarrow> hstate \<times> string list" where
  "Forget route s =
     (let h = fst s;
          proxyPrefix = Upstream route @ ''|'' @ UpstreamName route @ ''|'';
          muxPrefix = Upstream route @ ''|'' @ SNI route @ ''|''
      in ((h\<lparr>h_proxies := dict_drop (\<lambda>k. HasPrefix k proxyPrefix) (h_proxies h),
             h_muxPools := dict_drop (\<lambda>k. HasPrefix k muxPrefix) (h_muxPools h)\<rparr>,
           close_pools (\<lambda>k. HasPrefix k muxPrefix) (h_muxPools h) (snd s)),
          filter (\<lambda>k. HasPrefix k proxyPrefix) (map fst (h_proxies h))))"

section \<open>Sequences of operations\<close>

text \<open>
  One operation per critical section; \<open>OpGet\<close> is \<open>get\<close> by a goroutine that holds the pointer to a
  pool, \<open>OpConn\<close> what a goroutine does to a connection it holds.
\<close>

datatype handler_op = OpProxy Route | OpPool Route | OpGet dial_env nat | OpForget Route | OpConn nat conn_act

definition conn_op :: "nat \<Rightarrow> conn_act \<Rightarrow> mux_store \<Rightarrow> mux_store" where
  "conn_op c a ms = ms\<lparr>ms_conns := (ms_conns ms)(c := conn_step a (ms_conns ms c))\<rparr>"

fun handler_step :: "'cert libs \<Rightarrow> handler_op \<Rightarrow> hstate \<Rightarrow> hstate" where
  "handler_step L (OpProxy r) s = (fst (proxyFor L r (fst s)), snd s)"
| "handler_step L (OpPool r) s = fst (muxPoolFor L r s)"
| "handler_step L (OpGet e ptr) s = (fst s, fst (get_at e ptr (snd s)))"
| "handler_step L (OpForget r) s = fst (Forget r s)"
| "handler_step L (OpConn c a) s = (fst s, conn_op c a (snd s))"

definition handler_run :: "'cert libs \<Rightarrow> handler_op list \<Rightarrow> hstate \<Rightarrow> hstate" where
  "handler_run L ops s = fold (handler_step L) ops s"

lemma handler_run_append: "handler_run L (xs @ ys) s = handler_run L ys (handler_run L xs s)"
  by (simp add: handler_run_def)

lemma handler_run_simps [simp]:
  "handler_run L [] s = s" "handler_run L (op # ops) s = handler_run L ops (handler_step L op s)"
  by (simp_all add: handler_run_def)

text \<open>
  \<^verbatim>\<open>h.muxPoolFor(route).get()\<close>: the lookup, what other goroutines do before the pool is locked, and
  \<open>get\<close> on the pool that was found.
\<close>

definition mux_acquire :: "'cert libs \<Rightarrow> handler_op list \<Rightarrow> dial_env \<Rightarrow> Route \<Rightarrow> hstate \<Rightarrow> hstate \<times> (pool_error + nat)" where
  "mux_acquire L ops e route s =
     (case muxPoolFor L route s of (s, ptr) \<Rightarrow>
        let s = handler_run L ops s in
        case get_at e ptr (snd s) of (ms, r) \<Rightarrow> ((fst s, ms), r))"

lemma mux_acquire_run:
  "fst (mux_acquire L ops e r s) = handler_run L (OpPool r # ops @ [OpGet e (snd (muxPoolFor L r s))]) s"
  by (simp add: mux_acquire_def handler_run_append case_prod_unfold Let_def)

section \<open>Caches keyed by application\<close>

text \<open>
  The contract both caches satisfy: an entry's key begins with the application's prefix, a
  lookup that misses drops the application's entries and adds at most one, and forgetting a
  route drops its application's entries. Prefixes of different applications exclude each other
  when the names carry no separator.
\<close>

locale app_cache =
  fixes app :: "Route \<Rightarrow> string" and key :: "Route \<Rightarrow> string"
    and entries :: "'c \<Rightarrow> string set" and fetch :: "Route \<Rightarrow> 'c \<Rightarrow> 'c" and forget :: "Route \<Rightarrow> 'c \<Rightarrow> 'c"
    and clean :: "Route \<Rightarrow> bool"
  assumes key_app: "HasPrefix (key r) (app r)"
    and app_excl: "clean r \<Longrightarrow> clean s \<Longrightarrow> HasPrefix k (app r) \<Longrightarrow> HasPrefix k (app s) \<Longrightarrow> app r = app s"
    and fetch_hit: "key r \<in> entries c \<Longrightarrow> entries (fetch r c) = entries c"
    and fetch_miss: "key r \<notin> entries c \<Longrightarrow>
      entries (fetch r c) \<subseteq> insert (key r) {k \<in> entries c. \<not> HasPrefix k (app r)}"
    and fetch_other: "key r \<notin> entries c \<Longrightarrow> {k \<in> entries c. \<not> HasPrefix k (app r)} \<subseteq> entries (fetch r c)"
    and forget_entries: "entries (forget r c) = {k \<in> entries c. \<not> HasPrefix k (app r)}"
begin

definition one_per_app :: "'c \<Rightarrow> bool" where
  "one_per_app c \<longleftrightarrow> (\<forall>r k l. clean r \<longrightarrow> k \<in> entries c \<longrightarrow> l \<in> entries c \<longrightarrow>
     HasPrefix k (app r) \<longrightarrow> HasPrefix l (app r) \<longrightarrow> k = l)"

lemma one_fetch:
  assumes "one_per_app c" and "clean r"
  shows "one_per_app (fetch r c)"
proof (cases "key r \<in> entries c")
  case True
  with assms(1) show ?thesis by (simp add: one_per_app_def fetch_hit)
next
  case False
  show ?thesis
    unfolding one_per_app_def
  proof (intro allI impI)
    fix s k l
    assume s: "clean s" and kl: "k \<in> entries (fetch r c)" "l \<in> entries (fetch r c)"
      "HasPrefix k (app s)" "HasPrefix l (app s)"
    from kl fetch_miss [OF False] have cases: "k = key r \<or> k \<in> entries c \<and> \<not> HasPrefix k (app r)"
      "l = key r \<or> l \<in> entries c \<and> \<not> HasPrefix l (app r)" by auto
    show "k = l"
    proof (cases "app s = app r")
      case True
      with cases kl show ?thesis by auto
    next
      case False
      with cases kl key_app [of r] app_excl [OF s assms(2)] have "k \<in> entries c" "l \<in> entries c" by metis+
      with assms(1) s kl show ?thesis unfolding one_per_app_def by blast
    qed
  qed
qed

lemma one_forget: "one_per_app c \<Longrightarrow> one_per_app (forget r c)"
  by (auto simp: one_per_app_def forget_entries)

lemma one_entries: "one_per_app c \<Longrightarrow> entries c' = entries c \<Longrightarrow> one_per_app c'"
  by (simp add: one_per_app_def)

lemma one_card:
  assumes "one_per_app c" and "clean r" and "finite (entries c)"
  shows "card {k \<in> entries c. HasPrefix k (app r)} \<le> 1"
proof -
  have "finite {k \<in> entries c. HasPrefix k (app r)}" using assms(3) by simp
  moreover have "k = l" if "k \<in> {k \<in> entries c. HasPrefix k (app r)}" "l \<in> {k \<in> entries c. HasPrefix k (app r)}" for k l
    using assms(1,2) that unfolding one_per_app_def by blast
  ultimately show ?thesis unfolding One_nat_def by (subst card_le_Suc0_iff_eq) blast+
qed

lemma forget_all: "HasPrefix k (app r) \<Longrightarrow> k \<notin> entries (forget r c)"
  by (simp add: forget_entries)

end

definition no_bar :: "string \<Rightarrow> bool" where
  "no_bar s = (CHR ''|'' \<notin> set s)"

lemma bar_unique:
  assumes "no_bar u" "no_bar v" "u @ CHR ''|'' # x = v @ CHR ''|'' # y"
  shows "u = v \<and> x = y"
proof -
  have "u = v"
    using arg_cong [OF assms(3), of "takeWhile (\<lambda>c. c \<noteq> CHR ''|'')"] assms(1,2)
    by (simp add: no_bar_def takeWhile_dropWhile_sep)
  with assms(3) show ?thesis by simp
qed

lemma bar_prefix:
  assumes "no_bar u" "no_bar v" "no_bar m" "no_bar n"
    and "HasPrefix k (u @ ''|'' @ m @ ''|'')" "HasPrefix k (v @ ''|'' @ n @ ''|'')"
  shows "u = v \<and> m = n"
proof -
  from assms(5,6) obtain x y where "u @ CHR ''|'' # m @ CHR ''|'' # x = v @ CHR ''|'' # n @ CHR ''|'' # y"
    unfolding HasPrefix_iff by (metis append_Cons append_Nil append_assoc)
  with bar_unique [OF assms(1,2)] bar_unique [OF assms(3,4)] show ?thesis by blast
qed

definition proxy_clean :: "Route \<Rightarrow> bool" where
  "proxy_clean r = (no_bar (Upstream r) \<and> no_bar (UpstreamName r))"

definition mux_clean :: "Route \<Rightarrow> bool" where
  "mux_clean r = (no_bar (Upstream r) \<and> no_bar (SNI r))"

lemma fst_dict_set: "fst ` set (dict_set d k v) = insert k (fst ` set d)"
  by (simp add: dict_set_def AList.dom_update)

lemma fst_dict_drop: "fst ` set (dict_drop P d) = {k \<in> fst ` set d. \<not> P k}"
  by (auto simp: dict_drop_def)

lemma in_dict: "k \<in> fst ` set d \<longleftrightarrow> dict_get d k \<noteq> None"
  by (simp add: dict_get_None_iff)

interpretation proxy_cache: app_cache proxy_app "\<lambda>r. proxy_app r @ hashPolicy (AttestationPolicy r)"
  "\<lambda>s. fst ` set (h_proxies (fst s))" "\<lambda>r. handler_step L (OpProxy r)" "\<lambda>r. handler_step L (OpForget r)"
  proxy_clean for L :: "'cert libs"
proof
  show "HasPrefix (proxy_app r @ hashPolicy (AttestationPolicy r)) (proxy_app r)" for r by simp
  show "proxy_clean r \<Longrightarrow> proxy_clean s \<Longrightarrow> HasPrefix k (proxy_app r) \<Longrightarrow> HasPrefix k (proxy_app s) \<Longrightarrow>
      proxy_app r = proxy_app s" for r s k
    using bar_prefix [of "Upstream r" "Upstream s" "UpstreamName r" "UpstreamName s" k]
    by (simp add: proxy_clean_def proxy_app_def)
  show "fst ` set (h_proxies (fst (handler_step L (OpForget r) c))) =
      {k \<in> fst ` set (h_proxies (fst c)). \<not> HasPrefix k (proxy_app r)}" for r c
    by (simp add: Forget_def proxy_app_def Let_def fst_dict_drop)
  show "proxy_app r @ hashPolicy (AttestationPolicy r) \<in> fst ` set (h_proxies (fst c)) \<Longrightarrow>
      fst ` set (h_proxies (fst (handler_step L (OpProxy r) c))) = fst ` set (h_proxies (fst c))" for r c
    by (auto simp: in_dict proxyFor_def proxy_app_def)
  show "proxy_app r @ hashPolicy (AttestationPolicy r) \<notin> fst ` set (h_proxies (fst c)) \<Longrightarrow>
      fst ` set (h_proxies (fst (handler_step L (OpProxy r) c)))
        \<subseteq> insert (proxy_app r @ hashPolicy (AttestationPolicy r)) {k \<in> fst ` set (h_proxies (fst c)). \<not> HasPrefix k (proxy_app r)}"
    "proxy_app r @ hashPolicy (AttestationPolicy r) \<notin> fst ` set (h_proxies (fst c)) \<Longrightarrow>
      {k \<in> fst ` set (h_proxies (fst c)). \<not> HasPrefix k (proxy_app r)} \<subseteq> fst ` set (h_proxies (fst (handler_step L (OpProxy r) c)))" for r c
    by (auto simp: in_dict proxyFor_def proxy_app_def Let_def fst_dict_set fst_dict_drop split: option.split)
qed

interpretation mux_cache: app_cache mux_app "\<lambda>r. mux_app r @ hashPolicy (AttestationPolicy r)"
  "\<lambda>s. fst ` set (h_muxPools (fst s))" "\<lambda>r. handler_step L (OpPool r)" "\<lambda>r. handler_step L (OpForget r)"
  mux_clean for L :: "'cert libs"
proof
  show "HasPrefix (mux_app r @ hashPolicy (AttestationPolicy r)) (mux_app r)" for r by simp
  show "mux_clean r \<Longrightarrow> mux_clean s \<Longrightarrow> HasPrefix k (mux_app r) \<Longrightarrow> HasPrefix k (mux_app s) \<Longrightarrow>
      mux_app r = mux_app s" for r s k
    using bar_prefix [of "Upstream r" "Upstream s" "SNI r" "SNI s" k] by (simp add: mux_clean_def mux_app_def)
  show "fst ` set (h_muxPools (fst (handler_step L (OpForget r) c))) =
      {k \<in> fst ` set (h_muxPools (fst c)). \<not> HasPrefix k (mux_app r)}" for r c
    by (simp add: Forget_def mux_app_def Let_def fst_dict_drop)
  show "mux_app r @ hashPolicy (AttestationPolicy r) \<in> fst ` set (h_muxPools (fst c)) \<Longrightarrow>
      fst ` set (h_muxPools (fst (handler_step L (OpPool r) c))) = fst ` set (h_muxPools (fst c))" for r c
    by (auto simp: in_dict muxPoolFor_def mux_app_def)
  show "mux_app r @ hashPolicy (AttestationPolicy r) \<notin> fst ` set (h_muxPools (fst c)) \<Longrightarrow>
      fst ` set (h_muxPools (fst (handler_step L (OpPool r) c)))
        \<subseteq> insert (mux_app r @ hashPolicy (AttestationPolicy r)) {k \<in> fst ` set (h_muxPools (fst c)). \<not> HasPrefix k (mux_app r)}"
    "mux_app r @ hashPolicy (AttestationPolicy r) \<notin> fst ` set (h_muxPools (fst c)) \<Longrightarrow>
      {k \<in> fst ` set (h_muxPools (fst c)). \<not> HasPrefix k (mux_app r)} \<subseteq> fst ` set (h_muxPools (fst (handler_step L (OpPool r) c)))" for r c
    by (auto simp: in_dict muxPoolFor_def mux_app_def Let_def fst_dict_set fst_dict_drop)
qed

definition op_clean :: "handler_op \<Rightarrow> bool" where
  "op_clean op = (case op of
      OpProxy r \<Rightarrow> proxy_clean r \<and> mux_clean r
    | OpPool r \<Rightarrow> proxy_clean r \<and> mux_clean r
    | _ \<Rightarrow> True)"

lemma other_entries:
  "h_muxPools (fst (handler_step L (OpProxy r) s)) = h_muxPools (fst s)"
  "h_proxies (fst (handler_step L (OpPool r) s)) = h_proxies (fst s)"
  "fst (handler_step L (OpGet e ptr) s) = fst s" "fst (handler_step L (OpConn c a) s) = fst s"
  by (simp_all add: proxyFor_def muxPoolFor_def Let_def split: option.split)

lemma proxy_step: "op_clean op \<Longrightarrow> proxy_cache.one_per_app s \<Longrightarrow> proxy_cache.one_per_app (handler_step L op s)"
  by (cases op) (simp_all only: op_clean_def handler_op.case proxy_cache.one_fetch proxy_cache.one_forget
      proxy_cache.one_entries [of s] other_entries)

lemma mux_step: "op_clean op \<Longrightarrow> mux_cache.one_per_app s \<Longrightarrow> mux_cache.one_per_app (handler_step L op s)"
  by (cases op) (simp_all only: op_clean_def handler_op.case mux_cache.one_fetch mux_cache.one_forget
      mux_cache.one_entries [of s] other_entries)

lemma cache_run:
  "list_all op_clean ops \<Longrightarrow> proxy_cache.one_per_app s \<Longrightarrow> mux_cache.one_per_app s \<Longrightarrow>
   proxy_cache.one_per_app (handler_run L ops s) \<and> mux_cache.one_per_app (handler_run L ops s)"
  by (induction ops arbitrary: s) (simp_all add: proxy_step mux_step del: handler_step.simps)

section \<open>Properties\<close>

text \<open>The state at the start: the configured handler, no connection and no pool.\<close>

definition initial :: "Options \<Rightarrow> hstate" where
  "initial opts = (New_Handler opts, \<lparr>ms_conns = (\<lambda>_. newMuxConn None), ms_peer = (\<lambda>_. []), ms_next = 0,
     ms_pools = (\<lambda>_. no_pool), ms_poolNext = 0\<rparr>)"

lemma initial_one: "proxy_cache.one_per_app (initial opts)" "mux_cache.one_per_app (initial opts)"
  by (simp_all add: initial_def New_Handler_def proxy_cache.one_per_app_def mux_cache.one_per_app_def)

text \<open>
  C21. The caches do not grow with policy changes: after any interleaving of connections, sealed
  streams and retirements there is at most one reverse proxy and at most one mux pool per
  application, and forgetting a route leaves none of its application's.
\<close>

theorem one_cache_entry_per_app:
  assumes "list_all op_clean ops" and "proxy_clean r" and "mux_clean r"
    and "s = handler_run L ops (initial opts)"
  shows "card {k \<in> fst ` set (h_proxies (fst s)). HasPrefix k (proxy_app r)} \<le> 1
    \<and> card {k \<in> fst ` set (h_muxPools (fst s)). HasPrefix k (mux_app r)} \<le> 1
    \<and> {k \<in> fst ` set (h_proxies (fst (fst (Forget r s)))). HasPrefix k (proxy_app r)} = {}
    \<and> {k \<in> fst ` set (h_muxPools (fst (fst (Forget r s)))). HasPrefix k (mux_app r)} = {}"
proof -
  have one: "proxy_cache.one_per_app s" "mux_cache.one_per_app s"
    unfolding assms(4) using cache_run [OF assms(1) initial_one] by blast+
  note proxy_cache.one_card [OF one(1) assms(2)] mux_cache.one_card [OF one(2) assms(3)]
  moreover have "HasPrefix k (proxy_app r) \<Longrightarrow> k \<notin> fst ` set (h_proxies (fst (fst (Forget r s))))"
    "HasPrefix k (mux_app r) \<Longrightarrow> k \<notin> fst ` set (h_muxPools (fst (fst (Forget r s))))" for k
    using proxy_cache.forget_all [of k r L s] mux_cache.forget_all [of k r L s] by simp_all
  ultimately show ?thesis by auto
qed

definition sample_options :: Options where
  "sample_options = \<lparr>o_DialTimeout = 0, o_IdleTimeout = 0, o_CACertPool = True, o_InsecureSkip = False, o_CORSOrigins = [], o_Lookup = True,
     o_Tracker = Some 0, o_Dial = Some (DialRegistry 0)\<rparr>"

definition sample_libs :: "((string \<times> bytes) list) libs" where
  "sample_libs = \<lparr>lib_Unmarshal = (\<lambda>d. if d = ''{'' then None else Some \<lparr>ExpectedOIDs = [(''1.2.3'', ''0x0aff'')]\<rparr>),
     lib_URLParse = (\<lambda>_. True), lib_ParseCertificate = (\<lambda>x. Some [(''1.2.3'', x)]),
     lib_Extensions = (\<lambda>c. c), lib_Verify = (\<lambda>_ _. True)\<rparr>"

lemma sample_clean:
  "proxy_clean (plain_route ''a.x'' ''u1'')" "mux_clean (plain_route ''a.x'' ''u1'')"
  by (simp_all add: proxy_clean_def mux_clean_def no_bar_def plain_route_def UpstreamName_def IsAlias_def)

theorem one_cache_entry_per_app_witness:
  "card {k \<in> fst ` set (h_proxies (fst (handler_run sample_libs [OpProxy (plain_route ''a.x'' ''u1'')] (initial sample_options)))).
     HasPrefix k (proxy_app (plain_route ''a.x'' ''u1''))} \<le> 1"
  using one_cache_entry_per_app [OF _ sample_clean refl, of "[OpProxy (plain_route ''a.x'' ''u1'')]" sample_libs sample_options] sample_clean
  by (simp add: op_clean_def)

end
