(* ===== verification/Attested_Legs.thy ===== *)
theory Attested_Legs
  imports Handler_Caches
begin

text \<open>
  What the caches of the terminate handler hold, after any interleaving of connections, sealed
  streams, mux traffic and retirements: every reverse proxy and every mux pool was built for the
  route its key names and verifies its peer against a policy with the key's hash, every pooled
  connection's peer passed that verifier, and no two pools share a connection. What a pool was
  built for stays true of the pool a goroutine holds a pointer to, also after the map dropped it.
\<close>

section \<open>Contents of a keyed cache\<close>

text \<open>Every entry was built for a route with the entry's key.\<close>

definition keyed :: "(Route \<Rightarrow> bool) \<Rightarrow> (Route \<Rightarrow> string) \<Rightarrow> (Route \<Rightarrow> 'v \<Rightarrow> bool) \<Rightarrow> (string, 'v) dict \<Rightarrow> bool" where
  "keyed clean key built d \<longleftrightarrow> (\<forall>k v. dict_get d k = Some v \<longrightarrow> (\<exists>r. clean r \<and> k = key r \<and> built r v))"

lemma keyed_Nil: "keyed clean key built []"
  by (simp add: keyed_def)

lemma keyed_set: "keyed clean key built d \<Longrightarrow> clean r \<Longrightarrow> built r v \<Longrightarrow> keyed clean key built (dict_set d (key r) v)"
  by (auto simp: keyed_def)

lemma keyed_drop: "keyed clean key built d \<Longrightarrow> keyed clean key built (dict_drop P d)"
  by (auto simp: keyed_def)

lemma keyed_get:
  "keyed clean key built d \<Longrightarrow> dict_get d (key r) = Some v \<Longrightarrow> \<exists>s. clean s \<and> key r = key s \<and> built s v"
  by (auto simp: keyed_def)

lemma keyed_mono: "keyed clean key built d \<Longrightarrow> (\<And>r v. built r v \<Longrightarrow> built' r v) \<Longrightarrow> keyed clean key built' d"
  unfolding keyed_def by blast

abbreviation proxy_key :: "Route \<Rightarrow> string" where
  "proxy_key r \<equiv> proxy_app r @ hashPolicy (AttestationPolicy r)"

abbreviation mux_key :: "Route \<Rightarrow> string" where
  "mux_key r \<equiv> mux_app r @ hashPolicy (AttestationPolicy r)"

lemma bar_key:
  assumes "no_bar u" "no_bar v" "no_bar m" "no_bar n"
    and "(u @ ''|'' @ m @ ''|'') @ x = (v @ ''|'' @ n @ ''|'') @ y"
  shows "u = v \<and> m = n \<and> x = y"
proof -
  have "u @ CHR ''|'' # m @ CHR ''|'' # x = v @ CHR ''|'' # n @ CHR ''|'' # y" using assms(5) by simp
  with bar_unique [OF assms(1,2)] bar_unique [OF assms(3,4)] show ?thesis by blast
qed

lemma proxy_same:
  "proxy_clean r \<Longrightarrow> proxy_clean s \<Longrightarrow> proxy_key r = proxy_key s \<Longrightarrow>
   Upstream r = Upstream s \<and> UpstreamName r = UpstreamName s \<and> hashPolicy (AttestationPolicy r) = hashPolicy (AttestationPolicy s)"
  unfolding proxy_clean_def proxy_app_def using bar_key by blast

lemma mux_same:
  "mux_clean r \<Longrightarrow> mux_clean s \<Longrightarrow> mux_key r = mux_key s \<Longrightarrow>
   Upstream r = Upstream s \<and> SNI r = SNI s \<and> hashPolicy (AttestationPolicy r) = hashPolicy (AttestationPolicy s)"
  unfolding mux_clean_def mux_app_def using bar_key by blast

section \<open>Configuration\<close>

definition config :: "Handler \<Rightarrow> cors \<times> bool \<times> bool \<times> bool" where
  "config h = (h_cors h, h_caCertPool h, h_insecureSkip h, h_lookup h)"

lemma config_eq:
  "config h' = config h \<longleftrightarrow> h_cors h' = h_cors h \<and> h_caCertPool h' = h_caCertPool h \<and> h_insecureSkip h' = h_insecureSkip h
     \<and> h_lookup h' = h_lookup h"
  by (auto simp: config_def)

lemma config_muxPoolFor: "config (fst (fst (muxPoolFor L r s))) = config (fst s)"
  by (simp add: muxPoolFor_def config_def Let_def split: option.split)

lemma config_proxyFor: "config (fst (proxyFor L r h)) = config h"
  by (simp add: proxyFor_def config_def Let_def split: option.split)

lemma config_Forget: "config (fst (fst (Forget r s))) = config (fst s)"
  by (simp add: Forget_def config_def Let_def)

lemma config_step: "config (fst (handler_step L op s)) = config (fst s)"
  by (cases op) (simp_all add: config_muxPoolFor config_proxyFor config_Forget)

lemma config_run: "config (fst (handler_run L ops s)) = config (fst s)"
  by (induction ops arbitrary: s) (simp_all add: config_step del: handler_step.simps)

lemma config_acquire: "config (fst (fst (mux_acquire L ops e r s))) = config (fst s)"
  by (simp only: mux_acquire_run config_run)

section \<open>Reverse proxies\<close>

abbreviation ratls_of :: "'cert libs \<Rightarrow> Handler \<Rightarrow> PolicyDoc \<Rightarrow> bytes list \<Rightarrow> ratls_error option" where
  "ratls_of L h \<equiv> makeRATLSVerifier (lib_ParseCertificate L) (lib_Extensions L) (lib_Verify L) (h_caCertPool h) (h_insecureSkip h)"

definition built_for :: "'cert libs \<Rightarrow> Handler \<Rightarrow> Route \<Rightarrow> ReverseProxy \<Rightarrow> bool" where
  "built_for L h r rp \<longleftrightarrow> rp_dial rp = Upstream r \<and> rp_name rp = UpstreamName r
     \<and> (\<exists>doc policy. hashPolicy doc = hashPolicy (AttestationPolicy r) \<and> parsePolicy (lib_Unmarshal L) doc = Some policy
          \<and> rp_verify rp = ratls_of L h policy)"

definition proxies_ok :: "'cert libs \<Rightarrow> Handler \<Rightarrow> bool" where
  "proxies_ok L h \<longleftrightarrow> keyed proxy_clean proxy_key (\<lambda>r p. built_for L h r (up_rp p)) (h_proxies h)"

lemma built_for_config: "config h' = config h \<Longrightarrow> built_for L h' = built_for L h"
  by (simp add: built_for_def config_eq fun_eq_iff)

text \<open>The operations in terms of keys.\<close>

lemma proxyFor_eq:
  "proxyFor L r h =
     (case dict_get (h_proxies h) (proxy_key r) of
        Some p \<Rightarrow> (h, Inr (up_rp p))
      | None \<Rightarrow>
          let h' = h\<lparr>h_proxies := dict_drop (\<lambda>k. HasPrefix k (proxy_app r)) (h_proxies h)\<rparr>;
              t = if HasPrefix (Upstream r) ''tunnel:'' then UpstreamName r else Upstream r
          in case parsePolicy (lib_Unmarshal L) (AttestationPolicy r) of
               None \<Rightarrow> (h', Inl ParsePolicyError)
             | Some policy \<Rightarrow>
                 if \<not> lib_URLParse L (''https://'' @ t) then (h', Inl ParseURLError)
                 else let rp = \<lparr>rp_target = t, rp_dial = Upstream r, rp_name = UpstreamName r, rp_verify = ratls_of L h policy\<rparr>
                   in (h'\<lparr>h_proxies := dict_set (h_proxies h') (proxy_key r)
                        \<lparr>up_policyHash = hashPolicy (AttestationPolicy r), up_rp = rp\<rparr>\<rparr>, Inr rp))"
  by (simp add: proxyFor_def proxy_app_def Let_def split: option.split)

lemma Forget_eq:
  "fst (Forget r s) =
     ((fst s)\<lparr>h_proxies := dict_drop (\<lambda>k. HasPrefix k (proxy_app r)) (h_proxies (fst s)),
              h_muxPools := dict_drop (\<lambda>k. HasPrefix k (mux_app r)) (h_muxPools (fst s))\<rparr>,
      close_pools (\<lambda>k. HasPrefix k (mux_app r)) (h_muxPools (fst s)) (snd s))"
  by (simp add: Forget_def proxy_app_def mux_app_def Let_def)

lemma proxyFor_ok:
  assumes "proxies_ok L h" and "proxy_clean r"
  shows "proxies_ok L (fst (proxyFor L r h))"
    and "snd (proxyFor L r h) = Inr rp \<Longrightarrow> built_for L h r rp"
proof -
  note same = built_for_config [OF config_proxyFor [of L r h]]
  note dropped = keyed_drop [OF assms(1) [unfolded proxies_ok_def], of "\<lambda>k. HasPrefix k (proxy_app r)"]
  have new: "built_for L h r \<lparr>rp_target = t, rp_dial = Upstream r, rp_name = UpstreamName r, rp_verify = ratls_of L h pol\<rparr>"
    if "parsePolicy (lib_Unmarshal L) (AttestationPolicy r) = Some pol" for t pol
    using that by (auto simp: built_for_def)
  show "proxies_ok L (fst (proxyFor L r h))"
    unfolding proxies_ok_def same
    using assms(1) [unfolded proxies_ok_def] dropped new
    by (simp add: proxyFor_eq Let_def keyed_set [OF dropped assms(2)] split: option.split)
  show "built_for L h r rp" if rp: "snd (proxyFor L r h) = Inr rp"
  proof (cases "dict_get (h_proxies h) (proxy_key r)")
    case None
    with rp new show ?thesis by (auto simp: proxyFor_eq Let_def split: option.splits if_splits)
  next
    case (Some p)
    with rp have "rp = up_rp p" by (simp add: proxyFor_eq Let_def)
    moreover from keyed_get [OF assms(1) [unfolded proxies_ok_def] Some]
    obtain s where "proxy_clean s" "proxy_key r = proxy_key s" "built_for L h s (up_rp p)" by blast
    ultimately show ?thesis using proxy_same [OF assms(2), of s] by (auto simp: built_for_def)
  qed
qed

lemma proxies_ok_step:
  assumes "proxies_ok L (fst s)" and "op_clean op"
  shows "proxies_ok L (fst (handler_step L op s))"
proof (cases op)
  case (OpProxy r)
  with assms(2) have "proxy_clean r" by (simp add: op_clean_def)
  from proxyFor_ok(1) [OF assms(1) this] OpProxy show ?thesis by simp
next
  case (OpPool r)
  then show ?thesis
    using assms(1) built_for_config [OF config_muxPoolFor [of L r s], of L] other_entries(2) [of L r s]
    by (simp add: proxies_ok_def)
next
  case (OpForget r)
  with assms(1) built_for_config [OF config_Forget [of r s], of L] show ?thesis
    by (simp add: proxies_ok_def Forget_eq keyed_drop)
qed (use assms in simp_all)

lemma proxies_ok_run:
  "list_all op_clean ops \<Longrightarrow> proxies_ok L (fst s) \<Longrightarrow> proxies_ok L (fst (handler_run L ops s))"
  by (induction ops arbitrary: s) (simp_all add: proxies_ok_step del: handler_step.simps)

lemma proxies_ok_initial: "proxies_ok L (fst (initial opts))"
  by (simp add: proxies_ok_def initial_def New_Handler_def keyed_Nil)

section \<open>Mux pools\<close>

text \<open>A policy that does not parse counts as empty here.\<close>

definition mux_policy :: "'cert libs \<Rightarrow> string \<Rightarrow> PolicyDoc" where
  "mux_policy L doc = (case parsePolicy (lib_Unmarshal L) doc of None \<Rightarrow> \<lparr>ExpectedOIDs = []\<rparr> | Some q \<Rightarrow> q)"

definition pool_for :: "'cert libs \<Rightarrow> Handler \<Rightarrow> Route \<Rightarrow> gwMuxPool \<Rightarrow> bool" where
  "pool_for L h r p \<longleftrightarrow> mp_upstream p = Upstream r \<and> mp_sni p = SNI r
     \<and> (\<exists>doc. hashPolicy doc = hashPolicy (AttestationPolicy r) \<and> mp_verify p = ratls_of L h (mux_policy L doc))"

text \<open>
  The pools in the map are pools that were allocated, for the route of their key, one per key; and
  the store is sound.
\<close>

definition pools_ok :: "'cert libs \<Rightarrow> hstate \<Rightarrow> bool" where
  "pools_ok L s \<longleftrightarrow> dict_ok (h_muxPools (fst s)) \<and> store_ok (snd s)
     \<and> keyed mux_clean mux_key (\<lambda>r ptr. ptr < ms_poolNext (snd s) \<and> pool_for L (fst s) r (ms_pools (snd s) ptr)) (h_muxPools (fst s))
     \<and> (\<forall>k l ptr. dict_get (h_muxPools (fst s)) k = Some ptr \<longrightarrow> dict_get (h_muxPools (fst s)) l = Some ptr \<longrightarrow> k = l)"

lemma pools_okD:
  assumes "pools_ok L s"
  shows "dict_ok (h_muxPools (fst s))" "store_ok (snd s)"
    "keyed mux_clean mux_key (\<lambda>r ptr. ptr < ms_poolNext (snd s) \<and> pool_for L (fst s) r (ms_pools (snd s) ptr)) (h_muxPools (fst s))"
    "dict_get (h_muxPools (fst s)) k = Some ptr \<Longrightarrow> dict_get (h_muxPools (fst s)) l = Some ptr \<Longrightarrow> k = l"
    "dict_get (h_muxPools (fst s)) k = Some ptr \<Longrightarrow> ptr < ms_poolNext (snd s)"
  using assms by (auto simp: pools_ok_def keyed_def)

lemma pool_for_id: "pool_id p = pool_id q \<Longrightarrow> pool_for L h r p = pool_for L h r q"
  by (simp add: pool_for_def pool_id_def)

lemma pool_for_config: "config h' = config h \<Longrightarrow> pool_for L h' = pool_for L h"
  by (simp add: pool_for_def config_eq fun_eq_iff)

lemma pool_for_same:
  "mux_clean r \<Longrightarrow> mux_clean s \<Longrightarrow> mux_key r = mux_key s \<Longrightarrow> pool_for L h s p \<Longrightarrow> pool_for L h r p"
  using mux_same [of r s] by (simp add: pool_for_def)

text \<open>Closing pools kills their connections, and keeps what the pools were built for.\<close>

lemma kill_idem [simp]: "kill (kill x) = kill x"
  by (simp add: kill_dead)

lemma close_pools_rec [simp]:
  "close_pools P [] ms = ms"
  "close_pools P (kp # d) ms = close_pools P d (if P (fst kp) then closeAll (snd kp) ms else ms)"
  by (simp_all add: close_pools_def case_prod_unfold)

lemma close_pools_simps:
  "ms_next (close_pools P d ms) = ms_next ms" "ms_peer (close_pools P d ms) = ms_peer ms"
  "ms_poolNext (close_pools P d ms) = ms_poolNext ms" "pool_id (ms_pools (close_pools P d ms) q) = pool_id (ms_pools ms q)"
  "ms_conns (close_pools P d ms) c =
     (if \<exists>kp \<in> set d. P (fst kp) \<and> c \<in> set (mp_conns (ms_pools ms (snd kp))) then kill (ms_conns ms c) else ms_conns ms c)"
  "ms_pools (close_pools P d ms) q =
     (if \<exists>kp \<in> set d. P (fst kp) \<and> snd kp = q then (ms_pools ms q)\<lparr>mp_conns := []\<rparr> else ms_pools ms q)"
  by (induction d arbitrary: ms) auto

lemma close_pools_ok: "store_ok ms \<Longrightarrow> store_ok (close_pools P d ms)"
  by (induction d arbitrary: ms) (simp_all add: closeAll_ok)

lemma conn_op_ok:
  assumes "store_ok ms"
  shows "store_ok (conn_op c a ms)"
proof -
  have "pool_ok p (conn_op c a ms)" if "pool_ok p ms" for p
    using that conn_ok_step by (auto simp: pool_ok_def conn_op_def)
  with assms show ?thesis by (simp add: store_ok_def) (simp add: conn_op_def)
qed

lemma store_ok_alloc:
  assumes "store_ok ms" and "mp_conns p = []"
  shows "store_ok (ms\<lparr>ms_pools := (ms_pools ms)(ptr := p), ms_poolNext := n\<rparr>)"
proof -
  have "pool_ok q (ms\<lparr>ms_pools := (ms_pools ms)(ptr := p), ms_poolNext := n\<rparr>) = pool_ok q ms" for q by (simp add: pool_ok_def)
  moreover have "pool_ok p ms" using store_okD(2) [OF assms(1)] assms(2) by (simp add: pool_ok_def)
  ultimately show ?thesis using assms by (simp add: store_ok_def)
qed

lemma muxPoolFor_eq:
  "muxPoolFor L r s =
     (case dict_get (h_muxPools (fst s)) (mux_key r) of
        Some ptr \<Rightarrow> (s, ptr)
      | None \<Rightarrow>
          let h = (fst s)\<lparr>h_muxPools := dict_drop (\<lambda>k. HasPrefix k (mux_app r)) (h_muxPools (fst s))\<rparr>;
              ms = close_pools (\<lambda>k. HasPrefix k (mux_app r)) (h_muxPools (fst s)) (snd s);
              p = \<lparr>mp_upstream = Upstream r, mp_sni = SNI r, mp_verify = ratls_of L h (mux_policy L (AttestationPolicy r)), mp_conns = []\<rparr>
          in ((h\<lparr>h_muxPools := dict_set (h_muxPools h) (mux_key r) (ms_poolNext ms)\<rparr>,
               ms\<lparr>ms_pools := (ms_pools ms)(ms_poolNext ms := p), ms_poolNext := ms_poolNext ms + 1\<rparr>), ms_poolNext ms))"
  by (simp add: muxPoolFor_def mux_app_def mux_policy_def Let_def split: option.split)

text \<open>What a pointer that a goroutine holds refers to stays what it was built for.\<close>

lemma pool_id_step:
  assumes "ptr < ms_poolNext (snd s)"
  shows "pool_id (ms_pools (snd (handler_step L op s)) ptr) = pool_id (ms_pools (snd s) ptr)
    \<and> ms_poolNext (snd s) \<le> ms_poolNext (snd (handler_step L op s))"
proof (cases op)
  case (OpGet e q)
  obtain ms r where "get_at e q (snd s) = (ms, r)" by (metis surj_pair)
  with get_at_id [OF this] OpGet show ?thesis by simp
qed (use assms in \<open>simp_all add: muxPoolFor_eq Forget_eq close_pools_simps conn_op_def Let_def split: option.split\<close>)

lemma pool_id_run:
  "ptr < ms_poolNext (snd s) \<Longrightarrow> pool_id (ms_pools (snd (handler_run L ops s)) ptr) = pool_id (ms_pools (snd s) ptr)
     \<and> ms_poolNext (snd s) \<le> ms_poolNext (snd (handler_run L ops s))"
proof (induction ops arbitrary: s)
  case (Cons op ops)
  note step = pool_id_step [OF Cons.prems, of L op]
  with Cons.prems have "ptr < ms_poolNext (snd (handler_step L op s))" by simp
  from Cons.IH [OF this] step show ?case by simp
qed simp

lemma pools_ok_drop:
  assumes "pools_ok L s" and "config h' = config (fst s)" and "h_muxPools h' = dict_drop P (h_muxPools (fst s))"
    and "store_ok ms'" and "ms_poolNext (snd s) \<le> ms_poolNext ms'"
    and "\<And>ptr. ptr < ms_poolNext (snd s) \<Longrightarrow> pool_id (ms_pools ms' ptr) = pool_id (ms_pools (snd s) ptr)"
  shows "pools_ok L (h', ms')"
proof -
  have "keyed mux_clean mux_key (\<lambda>r ptr. ptr < ms_poolNext ms' \<and> pool_for L h' r (ms_pools ms' ptr)) (dict_drop P (h_muxPools (fst s)))"
    by (rule keyed_drop, rule keyed_mono [OF pools_okD(3) [OF assms(1)]])
      (use assms(5) pool_for_id [OF assms(6)] in \<open>auto simp: pool_for_config [OF assms(2)]\<close>)
  then show ?thesis
    using pools_okD(1,4) [OF assms(1)] assms(4) by (simp add: pools_ok_def assms(3))
qed

lemma drop_none: "dict_drop (\<lambda>_. False) d = d"
  by (simp add: dict_drop_def)

lemma muxPoolFor_ok:
  assumes "pools_ok L s" and "mux_clean r" and "muxPoolFor L r s = (s', ptr)"
  shows "pools_ok L s' \<and> dict_get (h_muxPools (fst s')) (mux_key r) = Some ptr \<and> ptr < ms_poolNext (snd s')
    \<and> pool_for L (fst s) r (ms_pools (snd s') ptr)"
proof (cases "dict_get (h_muxPools (fst s)) (mux_key r)")
  case None
  let ?d = "h_muxPools (fst s)" and ?P = "\<lambda>k. HasPrefix k (mux_app r)" and ?n = "ms_poolNext (snd s)"
  let ?h = "(fst s)\<lparr>h_muxPools := dict_drop ?P ?d\<rparr>" and ?ms = "close_pools ?P ?d (snd s)"
  let ?p = "\<lparr>mp_upstream = Upstream r, mp_sni = SNI r, mp_verify = ratls_of L ?h (mux_policy L (AttestationPolicy r)), mp_conns = []\<rparr>"
  let ?ms' = "?ms\<lparr>ms_pools := (ms_pools ?ms)(?n := ?p), ms_poolNext := ?n + 1\<rparr>"
  have s': "s' = (?h\<lparr>h_muxPools := dict_set (h_muxPools ?h) (mux_key r) ptr\<rparr>, ?ms')" "ptr = ?n"
    using assms(3) None by (auto simp: muxPoolFor_eq Let_def close_pools_simps(3))
  have dropped: "pools_ok L (?h, ?ms')"
    by (rule pools_ok_drop [OF assms(1), where P = ?P])
      (use store_ok_alloc [OF close_pools_ok [OF pools_okD(2) [OF assms(1)]], of ?p] in
        \<open>simp_all add: close_pools_simps config_def del: fun_upd_apply\<close>, simp add: close_pools_simps)
  have built: "pool_for L h r ?p" if "config h = config (fst s)" for h using that by (auto simp: pool_for_def config_eq)
  have fresh: "dict_get ?d k \<noteq> Some ?n" for k using pools_okD(5) [OF assms(1), of k] by blast
  have cfg: "pool_for L (fst s') = pool_for L ?h" by (rule pool_for_config) (simp add: s'(1) config_def)
  have "keyed mux_clean mux_key (\<lambda>r q. q < ms_poolNext ?ms' \<and> pool_for L (fst s') r (ms_pools ?ms' q)) (dict_set (dict_drop ?P ?d) (mux_key r) ?n)"
    using keyed_set [OF pools_okD(3) [OF dropped] assms(2)] built [of ?h] unfolding cfg by (simp add: config_def)
  moreover have "dict_ok (dict_set (dict_drop ?P ?d) (mux_key r) ?n)" using pools_okD(1) [OF dropped] by simp
  ultimately have "pools_ok L s'"
    using pools_okD(2) [OF dropped] pools_okD(4) [OF assms(1)] fresh s' by (auto simp: pools_ok_def)
  then show ?thesis using s' built [of "fst s"] built [of ?h] by (simp add: pool_for_def)
next
  case (Some q)
  then have "s' = s" "ptr = q" using assms(3) by (simp_all add: muxPoolFor_eq)
  moreover from keyed_get [OF pools_okD(3) [OF assms(1)] Some]
  obtain r' where "mux_clean r'" "mux_key r = mux_key r'" "q < ms_poolNext (snd s)" "pool_for L (fst s) r' (ms_pools (snd s) q)" by blast
  ultimately show ?thesis using assms(1) Some pool_for_same [OF assms(2)] by blast
qed

lemma pools_ok_step:
  assumes "pools_ok L s" and "op_clean op"
  shows "pools_ok L (handler_step L op s)"
proof -
  note store = pools_okD(2) [OF assms(1)]
  have keep: "pools_ok L (handler_step L op s)"
    if "h_muxPools (fst (handler_step L op s)) = dict_drop P (h_muxPools (fst s))" "store_ok (snd (handler_step L op s))" for P
    using pools_ok_drop [OF assms(1) config_step that] pool_id_step [of _ s L op]
    by (cases "handler_step L op s") (metis fst_conv snd_conv bot_nat_0.not_eq_extremum le0 pool_id_step)
  show ?thesis
  proof (cases op)
    case (OpProxy r)
    with other_entries(1) [of L r s] store show ?thesis by (intro keep [of "\<lambda>_. False"]) (simp_all add: drop_none)
  next
    case (OpPool r)
    with assms(2) have "mux_clean r" by (simp add: op_clean_def)
    from muxPoolFor_ok [OF assms(1) this] OpPool show ?thesis by (cases "muxPoolFor L r s") auto
  next
    case (OpGet e ptr)
    with get_at_ok(1) [OF store] show ?thesis by (intro keep [of "\<lambda>_. False"]) (simp_all add: drop_none prod_eq_iff)
  next
    case (OpForget r)
    with close_pools_ok [OF store] show ?thesis by (intro keep [of "\<lambda>k. HasPrefix k (mux_app r)"]) (simp_all add: Forget_eq)
  next
    case (OpConn c a)
    with conn_op_ok [OF store] show ?thesis by (intro keep [of "\<lambda>_. False"]) (simp_all add: drop_none)
  qed
qed

lemma pools_ok_run: "list_all op_clean ops \<Longrightarrow> pools_ok L s \<Longrightarrow> pools_ok L (handler_run L ops s)"
  by (induction ops arbitrary: s) (simp_all add: pools_ok_step del: handler_step.simps)

lemma pools_ok_initial: "pools_ok L (initial opts)"
  by (simp add: pools_ok_def initial_def New_Handler_def keyed_Nil store_ok_def pool_ok_def no_pool_def)

lemma mux_acquire_ok:
  assumes "pools_ok L s" and "mux_clean r" and "list_all op_clean ops" and "mux_acquire L ops e r s = (s', res)"
  shows "pools_ok L s' \<and> (case res of Inl _ \<Rightarrow> True | Inr c \<Rightarrow>
    \<exists>ptr. c \<in> set (mp_conns (ms_pools (snd s') ptr)) \<and> pool_for L (fst s) r (ms_pools (snd s') ptr) \<and> \<not> mc_dead (ms_conns (snd s') c))"
proof -
  obtain s1 ptr where mpf: "muxPoolFor L r s = (s1, ptr)" by (metis surj_pair)
  let ?s = "handler_run L ops s1"
  obtain ms where get: "get_at e ptr (snd ?s) = (ms, res)" and s': "s' = (fst ?s, ms)"
    using assms(4) by (auto simp: mux_acquire_def mpf Let_def split: prod.splits)
  from muxPoolFor_ok [OF assms(1,2) mpf] have ok: "pools_ok L s1" "ptr < ms_poolNext (snd s1)" "pool_for L (fst s) r (ms_pools (snd s1) ptr)"
    by simp_all
  note run = pools_ok_run [OF assms(3) ok(1)]
  have "pools_ok L s'"
    using pools_ok_step [OF run, of "OpGet e ptr"] get s' by (simp add: op_clean_def)
  moreover have "pool_for L (fst s) r (ms_pools (snd s') ptr)"
    using ok(3) pool_for_id [of "ms_pools ms ptr" "ms_pools (snd s1) ptr" L "fst s" r] get_at_id(1) [OF get, of ptr]
      pool_id_run [OF ok(2), of L ops] by (simp add: s')
  ultimately show ?thesis using get_at_ok(2) [OF pools_okD(2) [OF run] get] s' by (auto split: sum.split)
qed

lemma config_initial:
  "s = handler_run L ops (initial opts) \<Longrightarrow> h_caCertPool (fst s) = o_CACertPool opts \<and> h_insecureSkip (fst s) = o_InsecureSkip opts
     \<and> h_cors (fst s) = load_origins (o_CORSOrigins opts) \<and> h_lookup (fst s) = o_Lookup opts"
  using config_run [of L ops "initial opts"] by (auto simp: config_eq initial_def New_Handler_def)

lemma proxy_attested:
  assumes "proxies_ok L h" and "proxy_clean r" and "snd (proxyFor L r h) = Inr rp" and "rp_verify rp certs = None"
  shows "\<exists>raw rest leaf doc policy. certs = raw # rest \<and> lib_ParseCertificate L raw = Some leaf
    \<and> (h_caCertPool h \<and> \<not> h_insecureSkip h \<longrightarrow> lib_Verify L leaf (List.map_filter (lib_ParseCertificate L) rest))
    \<and> hashPolicy doc = hashPolicy (AttestationPolicy r) \<and> parsePolicy (lib_Unmarshal L) doc = Some policy
    \<and> (\<forall>(oid, hex) \<in> set (ExpectedOIDs policy).
         \<exists>v. carried (lib_Extensions L leaf) oid = Some v \<and> hex_decode (TrimPrefix hex ''0x'') = Some v)"
proof -
  from proxyFor_ok(2) [OF assms(1-3)] assms(4)
  obtain doc policy where "hashPolicy doc = hashPolicy (AttestationPolicy r)" "parsePolicy (lib_Unmarshal L) doc = Some policy"
    "ratls_of L h policy certs = None" by (auto simp: built_for_def)
  then show ?thesis unfolding verifier_accepts by blast
qed

section \<open>Properties\<close>

text \<open>
  A cached reverse proxy serves the route it was built for: after any interleaving of
  connections, sealed streams and retirements, the proxy \<open>proxyFor\<close> returns for a route dials that
  route's upstream, presents and rewrites to that route's upstream-facing name, and its transport
  verifies the enclave against a policy whose hash is the route's, so that an app redeployed under
  a new name, or a new policy, never meets an old proxy.
\<close>

theorem proxyFor_matches_route:
  assumes "list_all op_clean ops" and "proxy_clean r"
    and "snd (proxyFor L r (fst (handler_run L ops (initial opts)))) = Inr rp"
  shows "rp_dial rp = Upstream r \<and> rp_name rp = UpstreamName r
    \<and> (\<exists>doc policy. hashPolicy doc = hashPolicy (AttestationPolicy r) \<and> parsePolicy (lib_Unmarshal L) doc = Some policy
         \<and> rp_verify rp = makeRATLSVerifier (lib_ParseCertificate L) (lib_Extensions L) (lib_Verify L)
             (o_CACertPool opts) (o_InsecureSkip opts) policy)"
  using proxyFor_ok(2) [OF proxies_ok_run [OF assms(1) proxies_ok_initial] assms(2,3)] config_initial [OF refl, of L ops opts]
  by (simp add: built_for_def)

definition sample_proxy :: ReverseProxy where
  "sample_proxy = \<lparr>rp_target = ''u1'', rp_dial = ''u1'', rp_name = ''a.x'',
     rp_verify = makeRATLSVerifier (lib_ParseCertificate sample_libs) (lib_Extensions sample_libs) (lib_Verify sample_libs) True False
       \<lparr>ExpectedOIDs = [(''1.2.3'', ''0x0aff'')]\<rparr>\<rparr>"

definition sample_route :: Route where
  "sample_route = (plain_route ''a.x'' ''u1'')\<lparr>AttestationPolicy := ''{}''\<rparr>"

lemma sample_route_clean: "proxy_clean sample_route" "mux_clean sample_route"
  by (simp_all add: sample_route_def proxy_clean_def mux_clean_def no_bar_def plain_route_def UpstreamName_def IsAlias_def)

lemma sample_proxyFor: "snd (proxyFor sample_libs sample_route (fst (handler_run sample_libs [] (initial sample_options)))) = Inr sample_proxy"
  by (simp add: proxyFor_eq initial_def New_Handler_def sample_route_def plain_route_def UpstreamName_def IsAlias_def parsePolicy_def
      HasPrefix_def sample_libs_def sample_options_def sample_proxy_def Let_def)

theorem proxyFor_matches_route_witness: "rp_dial sample_proxy = Upstream sample_route"
  using proxyFor_matches_route [OF _ sample_route_clean(1) sample_proxyFor] by simp

text \<open>
  C18. Nothing of a request leaves for an enclave that does not attest: after any interleaving of
  connections, sealed streams and retirements, the proxy of a route completes its upstream
  handshake only with a peer that presents a leaf that parses, whose chain verifies when a CA pool
  is configured and verification is not skipped, and which carries, for every OID of a policy
  document with the hash of the route's own, exactly the expected value.
\<close>

theorem enclave_leg_attested:
  assumes "list_all op_clean ops" and "proxy_clean r"
    and "snd (proxyFor L r (fst (handler_run L ops (initial opts)))) = Inr rp" and "rp_verify rp certs = None"
  shows "\<exists>raw rest leaf doc policy. certs = raw # rest \<and> lib_ParseCertificate L raw = Some leaf
    \<and> (o_CACertPool opts \<and> \<not> o_InsecureSkip opts \<longrightarrow> lib_Verify L leaf (List.map_filter (lib_ParseCertificate L) rest))
    \<and> hashPolicy doc = hashPolicy (AttestationPolicy r) \<and> parsePolicy (lib_Unmarshal L) doc = Some policy
    \<and> (\<forall>(oid, hex) \<in> set (ExpectedOIDs policy).
         \<exists>v. carried (lib_Extensions L leaf) oid = Some v \<and> hex_decode (TrimPrefix hex ''0x'') = Some v)"
  using proxy_attested [OF proxies_ok_run [OF assms(1) proxies_ok_initial] assms(2-4)] config_initial [OF refl, of L ops opts]
  by simp

lemma sample_attests: "rp_verify sample_proxy [[10, 255]] = None"
  unfolding sample_proxy_def sample_libs_def by code_simp

theorem enclave_leg_attested_witness:
  "\<exists>raw rest leaf. [[10, 255 :: byte]] = raw # rest \<and> lib_ParseCertificate sample_libs raw = Some leaf"
  using enclave_leg_attested [OF _ sample_route_clean(1) sample_proxyFor sample_attests] by auto

text \<open>
  C20. Every sealed stream rides an attested connection: after any interleaving of connections,
  sealed streams, mux traffic and retirements, and whatever happens between the lookup of the pool
  and the call of \<open>get\<close>, the mux connection a route obtains is alive and well formed, and its peer presented a leaf that parses, whose chain verifies when a CA pool is
  configured and verification is not skipped, and which carries every OID of a policy document
  with the hash of the route's own (a document that does not parse demands none here).
\<close>

theorem mux_leg_attested:
  assumes "list_all op_clean ops" and "mux_clean r" and "list_all op_clean others"
    and "mux_acquire L others e r (handler_run L ops (initial opts)) = (s', Inr c)"
  shows "\<exists>raw rest leaf doc. ms_peer (snd s') c = raw # rest \<and> lib_ParseCertificate L raw = Some leaf
    \<and> (o_CACertPool opts \<and> \<not> o_InsecureSkip opts \<longrightarrow> lib_Verify L leaf (List.map_filter (lib_ParseCertificate L) rest))
    \<and> hashPolicy doc = hashPolicy (AttestationPolicy r)
    \<and> (\<forall>(oid, hex) \<in> set (ExpectedOIDs (mux_policy L doc)).
         \<exists>v. carried (lib_Extensions L leaf) oid = Some v \<and> hex_decode (TrimPrefix hex ''0x'') = Some v)
    \<and> \<not> mc_dead (ms_conns (snd s') c) \<and> conn_ok (ms_conns (snd s') c)"
proof -
  from mux_acquire_ok [OF pools_ok_run [OF assms(1) pools_ok_initial] assms(2-4)]
  obtain p where p: "c \<in> set (mp_conns p)" "pool_for L (fst (handler_run L ops (initial opts))) r p" "pool_ok p (snd s')"
    "\<not> mc_dead (ms_conns (snd s') c)" using store_okD(1) pools_okD(2) by fastforce
  then have "mp_verify p (ms_peer (snd s') c) = None" "conn_ok (ms_conns (snd s') c)"
    by (auto simp: pool_ok_def list_all_iff)
  with p(2) config_initial [OF refl, of L ops opts] obtain doc where "hashPolicy doc = hashPolicy (AttestationPolicy r)"
    "makeRATLSVerifier (lib_ParseCertificate L) (lib_Extensions L) (lib_Verify L) (o_CACertPool opts) (o_InsecureSkip opts)
       (mux_policy L doc) (ms_peer (snd s') c) = None"
    by (auto simp: pool_for_def)
  with p(4) \<open>conn_ok (ms_conns (snd s') c)\<close> show ?thesis unfolding verifier_accepts by blast
qed

definition sample_dial :: dial_env where
  "sample_dial = \<lparr>de_dialed = True, de_certs = [[10, 255]], de_tls = True, de_response = Some 101, de_room = None\<rparr>"

lemma sample_acquire:
  "\<exists>s'. mux_acquire sample_libs [] sample_dial sample_route (handler_run sample_libs [] (initial sample_options)) = (s', Inr 0)"
proof -
  have "makeRATLSVerifier (lib_ParseCertificate sample_libs) (lib_Extensions sample_libs) (lib_Verify sample_libs) True False
      \<lparr>ExpectedOIDs = [(''1.2.3'', ''0x0aff'')]\<rparr> [[10, 255]] = None"
    unfolding sample_libs_def by code_simp
  moreover have "mux_policy sample_libs (AttestationPolicy sample_route) = \<lparr>ExpectedOIDs = [(''1.2.3'', ''0x0aff'')]\<rparr>"
    by (simp add: mux_policy_def sample_libs_def sample_route_def parsePolicy_def)
  ultimately show ?thesis
    by (simp add: mux_acquire_def muxPoolFor_eq initial_def New_Handler_def sample_options_def get_at_def pool_get_def pool_dial_def
        sample_dial_def gwMuxPoolSize_def Let_def)
qed

theorem mux_leg_attested_witness:
  "\<exists>s'. mux_acquire sample_libs [] sample_dial sample_route (handler_run sample_libs [] (initial sample_options)) = (s', Inr 0)
    \<and> \<not> mc_dead (ms_conns (snd s') 0)"
proof -
  obtain s' where s': "mux_acquire sample_libs [] sample_dial sample_route (handler_run sample_libs [] (initial sample_options)) = (s', Inr 0)"
    using sample_acquire by blast
  from mux_leg_attested [OF _ sample_route_clean(2) _ s'] s' show ?thesis by auto
qed

lemma kill_finishes:
  assumes "conn_ok c" and "\<not> mc_dead c"
  shows "mc_streams (kill c) = [] \<and> (\<forall>j st. dict_get (mc_streams c) j = Some st \<longrightarrow> st_done (mc_heap (kill c) st)
    \<and> length (st_closes (mc_heap (kill c) st)) = 1)"
proof -
  note kill = kill_effect [OF conn_okD [OF assms(1)] assms(2)]
  have "st_done (mc_heap (kill c) st) \<and> length (st_closes (mc_heap (kill c) st)) = 1" if "dict_get (mc_streams c) j = Some st" for j st
    using mux_okD(3) [OF kill(1), of st] kill(5) [OF that] by (simp add: once_ok_def)
  with kill(3) show ?thesis by blast
qed

text \<open>
  C36. Retiring a route ends the sealed streams on the pools the handler holds for its application and
  no others: after any interleaving, \<open>Forget\<close> drops every pool of the application from the map and no
  other, leaves every connection of the dropped pools dead, and one that was alive without streams,
  each stream that was registered there done and its browser socket closed by \<open>finish\<close> exactly once,
  while the connections of every other application's pool are untouched. Untouched are also the
  connections of pools the map does not hold: one that a request looked up before and dials into
  only after the route was retired is not ended.
\<close>

theorem forget_ends_own_streams:
  assumes "list_all op_clean ops" and "s = handler_run L ops (initial opts)" and "dict_get (h_muxPools (fst s)) k = Some ptr"
    and "c \<in> set (mp_conns (ms_pools (snd s) ptr))"
  shows "(if HasPrefix k (mux_app r)
    then mc_dead (ms_conns (snd (fst (Forget r s))) c)
      \<and> (\<not> mc_dead (ms_conns (snd s) c) \<longrightarrow> mc_streams (ms_conns (snd (fst (Forget r s))) c) = []
          \<and> (\<forall>j st. dict_get (mc_streams (ms_conns (snd s) c)) j = Some st \<longrightarrow>
               st_done (mc_heap (ms_conns (snd (fst (Forget r s))) c) st)
               \<and> length (st_closes (mc_heap (ms_conns (snd (fst (Forget r s))) c) st)) = 1))
    else ms_conns (snd (fst (Forget r s))) c = ms_conns (snd s) c)
    \<and> dict_get (h_muxPools (fst (fst (Forget r s)))) j = (if HasPrefix j (mux_app r) then None else dict_get (h_muxPools (fst s)) j)
    \<and> ((\<forall>i q. dict_get (h_muxPools (fst s)) i = Some q \<longrightarrow> d \<notin> set (mp_conns (ms_pools (snd s) q)))
        \<longrightarrow> ms_conns (snd (fst (Forget r s))) d = ms_conns (snd s) d)"
proof -
  have ok: "pools_ok L s" unfolding assms(2) by (rule pools_ok_run [OF assms(1) pools_ok_initial])
  note store = pools_okD(2) [OF ok]
  have "(\<exists>kp \<in> set (h_muxPools (fst s)). HasPrefix (fst kp) (mux_app r) \<and> c \<in> set (mp_conns (ms_pools (snd s) (snd kp))))
    \<longleftrightarrow> HasPrefix k (mux_app r)"
  proof
    assume "\<exists>kp \<in> set (h_muxPools (fst s)). HasPrefix (fst kp) (mux_app r) \<and> c \<in> set (mp_conns (ms_pools (snd s) (snd kp)))"
    then obtain l q where q: "(l, q) \<in> set (h_muxPools (fst s))" "HasPrefix l (mux_app r)" "c \<in> set (mp_conns (ms_pools (snd s) q))" by force
    then have "dict_get (h_muxPools (fst s)) l = Some q" using dict_get_iff [OF pools_okD(1) [OF ok]] by simp
    with pools_okD(4) [OF ok] assms(3) store_okD(4) [OF store assms(4) q(3)] have "l = k" by blast
    with q(2) show "HasPrefix k (mux_app r)" by simp
  qed (use dict_get_in [OF assms(3)] assms(4) in force)
  then have conn: "ms_conns (snd (fst (Forget r s))) c = (if HasPrefix k (mux_app r) then kill (ms_conns (snd s) c) else ms_conns (snd s) c)"
    by (simp add: Forget_eq close_pools_simps)
  have "dict_get (h_muxPools (fst s)) i = Some q" if "(i, q) \<in> set (h_muxPools (fst s))" for i q
    using that dict_get_iff [OF pools_okD(1) [OF ok]] by simp
  then have "ms_conns (snd (fst (Forget r s))) d = ms_conns (snd s) d"
    if "\<forall>i q. dict_get (h_muxPools (fst s)) i = Some q \<longrightarrow> d \<notin> set (mp_conns (ms_pools (snd s) q))"
    using that by (auto simp: Forget_eq close_pools_simps) blast
  moreover have "dict_get (h_muxPools (fst (fst (Forget r s)))) j = (if HasPrefix j (mux_app r) then None else dict_get (h_muxPools (fst s)) j)"
    by (simp add: Forget_eq)
  moreover note kill_finishes [OF store_okD(2) [OF store store_okD(3) [OF store assms(4)]]]
  ultimately show ?thesis by (simp add: conn)
qed

theorem forget_ends_own_streams_witness:
  "\<exists>s ptr. s = handler_run sample_libs [OpPool sample_route, OpGet sample_dial 0] (initial sample_options)
    \<and> dict_get (h_muxPools (fst s)) (mux_key sample_route) = Some ptr \<and> 0 \<in> set (mp_conns (ms_pools (snd s) ptr))
    \<and> mc_dead (ms_conns (snd (fst (Forget sample_route s))) 0)"
proof -
  let ?ops = "[OpPool sample_route, OpGet sample_dial 0]"
  let ?s = "handler_run sample_libs ?ops (initial sample_options)"
  obtain s' where s': "mux_acquire sample_libs [] sample_dial sample_route (handler_run sample_libs [] (initial sample_options)) = (s', Inr 0)"
    using sample_acquire by blast
  have ptr: "snd (muxPoolFor sample_libs sample_route (initial sample_options)) = 0"
    and key: "dict_get (h_muxPools (fst ?s)) (mux_key sample_route) = Some 0"
    by (simp_all add: muxPoolFor_eq initial_def New_Handler_def Let_def)
  have s: "?s = s'" using mux_acquire_run [of sample_libs "[]" sample_dial sample_route "initial sample_options"] s' ptr by simp
  obtain ms where "get_at sample_dial 0 (snd (handler_run sample_libs [OpPool sample_route] (initial sample_options))) = (ms, Inr 0)" "ms = snd s'"
    using s' ptr by (auto simp: mux_acquire_def Let_def case_prod_unfold prod_eq_iff)
  with get_at_ok(2) [OF pools_okD(2) [OF pools_ok_run [OF _ pools_ok_initial, of "[OpPool sample_route]" sample_libs]]]
  have "0 \<in> set (mp_conns (ms_pools (snd ?s) 0))" using sample_route_clean s by (simp add: op_clean_def)
  with forget_ends_own_streams [OF _ refl key, of 0 sample_route] key sample_route_clean show ?thesis by (auto simp: op_clean_def)
qed

text \<open>
  The gauge of live mux connections is exact: after any interleaving, the increments and
  decrements of all connections ever opened add up to the number of those that are not dead.
\<close>

theorem mux_gauge_exact:
  assumes "list_all op_clean ops" and "s = handler_run L ops (initial opts)"
  shows "(\<Sum>c < ms_next (snd s). mc_active (ms_conns (snd s) c)) = int (card {c. c < ms_next (snd s) \<and> \<not> mc_dead (ms_conns (snd s) c)})"
proof -
  have ok: "pools_ok L s" unfolding assms(2) by (rule pools_ok_run [OF assms(1) pools_ok_initial])
  have "mc_active (ms_conns (snd s) c) = (if mc_dead (ms_conns (snd s) c) then 0 else 1)" if "c < ms_next (snd s)" for c
    using store_okD(2) [OF pools_okD(2) [OF ok] that] by (simp add: conn_ok_def)
  then have "(\<Sum>c < ms_next (snd s). mc_active (ms_conns (snd s) c))
      = (\<Sum>c < ms_next (snd s). if mc_dead (ms_conns (snd s) c) then 0 else 1)" by (intro sum.cong) simp_all
  also have "\<dots> = int (card ({..< ms_next (snd s)} \<inter> {c. \<not> mc_dead (ms_conns (snd s) c)}))"
    by (simp add: sum.If_cases Compl_eq)
  also have "{..< ms_next (snd s)} \<inter> {c. \<not> mc_dead (ms_conns (snd s) c)} = {c. c < ms_next (snd s) \<and> \<not> mc_dead (ms_conns (snd s) c)}" by auto
  finally show ?thesis .
qed

section \<open>Pools no map holds\<close>

text \<open>
  A pool that was dropped between its lookup and \<open>get\<close>: no map leads to it any more, and only the
  goroutines that hold it, or its connections, act on them.
\<close>

definition outside :: "nat \<Rightarrow> nat \<Rightarrow> handler_op \<Rightarrow> bool" where
  "outside ptr c op = (case op of OpConn d _ \<Rightarrow> d \<noteq> c | OpGet _ q \<Rightarrow> q \<noteq> ptr | _ \<Rightarrow> True)"

definition orphaned :: "nat \<Rightarrow> nat \<Rightarrow> hstate \<Rightarrow> bool" where
  "orphaned ptr c s \<longleftrightarrow> ptr < ms_poolNext (snd s) \<and> (\<forall>k. dict_get (h_muxPools (fst s)) k \<noteq> Some ptr)
     \<and> c \<in> set (mp_conns (ms_pools (snd s) ptr))"

lemma orphaned_step:
  assumes "pools_ok L s" and "orphaned ptr c s" and "outside ptr c op"
  shows "orphaned ptr c (handler_step L op s) \<and> ms_conns (snd (handler_step L op s)) c = ms_conns (snd s) c"
proof -
  note store = pools_okD(2) [OF assms(1)]
  from assms(2) have o: "ptr < ms_poolNext (snd s)" "\<And>k. dict_get (h_muxPools (fst s)) k \<noteq> Some ptr"
    "c \<in> set (mp_conns (ms_pools (snd s) ptr))" by (simp_all add: orphaned_def)
  have unmapped: "snd kp \<noteq> ptr" "c \<notin> set (mp_conns (ms_pools (snd s) (snd kp)))" if "kp \<in> set (h_muxPools (fst s))" for kp
  proof -
    from that have "dict_get (h_muxPools (fst s)) (fst kp) = Some (snd kp)" using dict_get_iff [OF pools_okD(1) [OF assms(1)]] by simp
    with o(2) show "snd kp \<noteq> ptr" by metis
    with store_okD(4) [OF store o(3)] show "c \<notin> set (mp_conns (ms_pools (snd s) (snd kp)))" by blast
  qed
  then have closed: "ms_pools (close_pools P (h_muxPools (fst s)) (snd s)) ptr = ms_pools (snd s) ptr"
    "ms_conns (close_pools P (h_muxPools (fst s)) (snd s)) c = ms_conns (snd s) c" for P
    by (auto simp: close_pools_simps)
  show ?thesis
  proof (cases op)
    case (OpGet e q)
    obtain ms r where g: "get_at e q (snd s) = (ms, r)" by (metis surj_pair)
    from OpGet assms(3) have "ptr \<noteq> q" by (auto simp: outside_def)
    with get_at_id [OF g] store_okD(3) [OF store o(3)] o OpGet g show ?thesis by (simp add: orphaned_def)
  next
    case (OpProxy r)
    with other_entries(1) [of L r s] o show ?thesis by (simp add: orphaned_def)
  next
    case (OpPool r)
    with o closed show ?thesis by (auto simp: orphaned_def muxPoolFor_eq close_pools_simps(3) Let_def split: option.split)
  next
    case (OpForget r)
    with o closed show ?thesis by (simp add: orphaned_def Forget_eq close_pools_simps(3))
  next
    case (OpConn d a)
    with assms(3) o show ?thesis by (simp add: orphaned_def conn_op_def outside_def)
  qed
qed

lemma orphaned_run:
  "pools_ok L s \<Longrightarrow> orphaned ptr c s \<Longrightarrow> list_all op_clean ops \<Longrightarrow> list_all (outside ptr c) ops \<Longrightarrow>
   orphaned ptr c (handler_run L ops s) \<and> ms_conns (snd (handler_run L ops s)) c = ms_conns (snd s) c"
proof (induction ops arbitrary: s)
  case (Cons op ops)
  from Cons.prems have "pools_ok L (handler_step L op s)" by (intro pools_ok_step) simp_all
  moreover have "orphaned ptr c (handler_step L op s)" "ms_conns (snd (handler_step L op s)) c = ms_conns (snd s) c"
    using orphaned_step [OF Cons.prems(1,2)] Cons.prems(4) by simp_all
  ultimately show ?case using Cons.IH Cons.prems by simp
qed simp

text \<open>
  What the two critical sections allow: a stream looks its pool up, the route is retired, and the
  stream then dials into the pool it holds. The connection it gets stays alive through any sequence
  of further operations, retirements of the same route included, as long as the connection's own
  goroutines do not end it, no map leads to its pool again, and no later lookup returns it.
\<close>

theorem retired_pool_keeps_connection:
  assumes "list_all op_clean ops" and "mux_clean r" and "muxPoolFor L r (handler_run L ops (initial opts)) = (s1, ptr)"
    and "get_at e ptr (snd (fst (Forget r s1))) = (ms, Inr c)" and "list_all op_clean later" and "list_all (outside ptr c) later"
    and "s2 = handler_run L later (fst (fst (Forget r s1)), ms)"
  shows "\<not> mc_dead (ms_conns (snd s2) c) \<and> (\<forall>k. dict_get (h_muxPools (fst s2)) k \<noteq> Some ptr) \<and> snd (muxPoolFor L r' s2) \<noteq> ptr"
proof -
  let ?f = "fst (Forget r s1)"
  from muxPoolFor_ok [OF pools_ok_run [OF assms(1) pools_ok_initial] assms(2,3)]
  have s1: "pools_ok L s1" "dict_get (h_muxPools (fst s1)) (mux_key r) = Some ptr" "ptr < ms_poolNext (snd s1)" by simp_all
  have f: "pools_ok L ?f" using pools_ok_step [OF s1(1), of "OpForget r"] by (simp add: op_clean_def)
  have gone: "dict_get (h_muxPools (fst ?f)) k \<noteq> Some ptr" for k
  proof
    assume "dict_get (h_muxPools (fst ?f)) k = Some ptr"
    then have k: "dict_get (h_muxPools (fst s1)) k = Some ptr" "\<not> HasPrefix k (mux_app r)" by (auto simp: Forget_eq split: if_splits)
    from pools_okD(4) [OF s1(1) s1(2) k(1)] k(2) show False by auto
  qed
  note got = get_at_ok(2) [OF pools_okD(2) [OF f] assms(4) refl]
  have "pools_ok L (fst ?f, ms)" using pools_ok_step [OF f, of "OpGet e ptr"] assms(4) by (simp add: op_clean_def)
  moreover have "orphaned ptr c (fst ?f, ms)"
    using got gone s1(3) get_at_id(3) [OF assms(4)] by (simp add: orphaned_def Forget_eq close_pools_simps(3))
  ultimately have "orphaned ptr c s2" "ms_conns (snd s2) c = ms_conns ms c"
    using orphaned_run [OF _ _ assms(5,6), of L "(fst ?f, ms)"] assms(7) by simp_all
  with got show ?thesis
    by (auto simp: orphaned_def muxPoolFor_eq close_pools_simps(3) Let_def split: option.split)
qed

end
