(* ===== verification/Sealed_Ws.thy ===== *)
theory Sealed_Ws
  imports Attested_Legs
begin

text \<open>
  \<open>serveSealedWSMux\<close> of \<^verbatim>\<open>internal/terminate/wsmux.go\<close>: one sealed WebSocket from its upgrade
  request to its end. It acts on the handler's state (the pools) and on the mux connection it
  obtains, which other goroutines use and may end at any time: what they do between its own steps
  is an arbitrary list of operations on the shared state. The function returns the state and the
  list of its other effects in program order, deferred calls included.
\<close>

section \<open>The handler\<close>

datatype ws_event =
    WsStatus nat string
  | WsCount string
  | WsAccepted
  | WsClose int string
  | WsCloseNow
  | WsTrack string string
  | WsRelease
  | WsRefused "string \<times> string"
  | WsFrame frame

text \<open>
  A read from the browser: an error with its close status (-1 when it has none), or a message
  that is binary or not.
\<close>

datatype browser_read = BrowserError int | BrowserMessage bool bytes

text \<open>
  What the handler meets: the outcome of dialling a mux connection, the request URI, whether the
  WebSocket upgrade is accepted, the first message, the live route table at the check, the reads
  from the browser, and what other goroutines do between the lookup of the pool and \<open>get\<close>, before
  the registration, before the check, before each read returns and before the end.
\<close>

record ws_env =
  we_ops0 :: "handler_op list"
  we_dial :: dial_env
  we_uri :: string
  we_accept :: bool
  we_open :: browser_read
  we_ops1 :: "handler_op list"
  we_ops2 :: "handler_op list"
  we_live :: Table
  we_reads :: "(handler_op list \<times> browser_read) list"
  we_ops3 :: "handler_op list"

definition ws_frame :: "byte \<Rightarrow> sealedWSParams \<Rightarrow> bytes \<Rightarrow> frame" where
  "ws_frame typ p payload = \<lparr>fr_typ = typ, fr_sid = sw_sessionID p, fr_stream = sw_streamID p, fr_payload = payload\<rparr>"

definition ws_key :: "sealedWSParams \<Rightarrow> muxKey" where
  "ws_key p = (sw_sessionID p, sw_streamID p)"

text \<open>The mux connection the handler holds a pointer to.\<close>

definition conn_at :: "nat \<Rightarrow> hstate \<Rightarrow> gwMuxConn" where
  "conn_at c s = ms_conns (snd s) c"

definition with_conn :: "nat \<Rightarrow> gwMuxConn \<Rightarrow> hstate \<Rightarrow> hstate" where
  "with_conn c m s = (fst s, (snd s)\<lparr>ms_conns := (ms_conns (snd s))(c := m)\<rparr>)"

definition ws_send :: "byte \<Rightarrow> sealedWSParams \<Rightarrow> bytes \<Rightarrow> nat \<Rightarrow> hstate \<Rightarrow> hstate \<times> bool" where
  "ws_send typ p payload c s =
     (case writeFrame typ (sw_sessionID p) (sw_streamID p) payload (conn_at c s) of (m, ok) \<Rightarrow> (with_conn c m s, ok))"

text \<open>\<open>browser.Close\<close> of the handler itself.\<close>

definition ws_close :: "int \<Rightarrow> string \<Rightarrow> nat \<Rightarrow> nat \<Rightarrow> hstate \<Rightarrow> hstate" where
  "ws_close code reason c ptr s = with_conn c (upd_stream ptr (close_direct code reason) (conn_at c s)) s"

text \<open>
  The browser to enclave pump. After the listed reads the next one fails without a close status.
\<close>

definition pump_error :: "sealedWSParams \<Rightarrow> nat \<Rightarrow> nat \<Rightarrow> int \<Rightarrow> hstate \<Rightarrow> hstate \<times> ws_event list" where
  "pump_error p c ptr code s =
     (if st_done (mc_heap (conn_at c s) ptr) then (s, [])
      else let payload = encodeMuxClose (if code = -1 then StatusGoingAway else code) []
        in (fst (ws_send muxTypeClose p payload c s), [WsFrame (ws_frame muxTypeClose p payload)]))"

fun ws_pump :: "'cert libs \<Rightarrow> sealedWSParams \<Rightarrow> nat \<Rightarrow> nat \<Rightarrow> (handler_op list \<times> browser_read) list \<Rightarrow> hstate
     \<Rightarrow> hstate \<times> ws_event list" where
  "ws_pump L p c ptr [] s = pump_error p c ptr (-1) s"
| "ws_pump L p c ptr ((ops, BrowserError code) # rs) s = pump_error p c ptr code (handler_run L ops s)"
| "ws_pump L p c ptr ((ops, BrowserMessage binary data) # rs) s =
     (let s = handler_run L ops s in
      if \<not> binary then
        let s = ws_close StatusUnsupportedData ''binary sealed frames only'' c ptr s;
            payload = encodeMuxClose StatusUnsupportedData []
        in (fst (ws_send muxTypeClose p payload c s),
            [WsClose StatusUnsupportedData ''binary sealed frames only'', WsFrame (ws_frame muxTypeClose p payload)])
      else case ws_send muxTypeData p data c s of (s, ok) \<Rightarrow>
        if \<not> ok then (ws_close StatusBadGateway ''enclave mux lost'' c ptr s,
          [WsFrame (ws_frame muxTypeData p data), WsClose StatusBadGateway ''enclave mux lost''])
        else case ws_pump L p c ptr rs s of (s, evs) \<Rightarrow> (s, WsFrame (ws_frame muxTypeData p data) # evs))"

text \<open>From the registered stream on: before the deferred calls, and with them.\<close>

definition ws_body :: "'cert libs \<Rightarrow> ws_env \<Rightarrow> Route \<Rightarrow> sealedWSParams \<Rightarrow> string \<Rightarrow> bytes \<Rightarrow> nat \<Rightarrow> nat \<Rightarrow> hstate
     \<Rightarrow> hstate \<times> ws_event list" where
  "ws_body L e route p host openEnv c ptr s =
     (let s = handler_run L (we_ops2 e) s in
      if quarantined (fst s) (we_live e) route then
        (with_conn c (upd_stream ptr (finish StatusTryAgainLater ''enclave quarantined'') (conn_at c s)) s,
         [WsRefused (Refused (SNI route) ModeTerminate), WsCount ''quarantined''])
      else
        let payload = encodeMuxOpen host (we_uri e) openEnv in
        case ws_send muxTypeOpen p payload c s of (s, ok) \<Rightarrow>
          if \<not> ok then (ws_close StatusBadGateway ''enclave mux unavailable'' c ptr s,
            [WsFrame (ws_frame muxTypeOpen p payload), WsClose StatusBadGateway ''enclave mux unavailable'', WsCount ''open_write_error''])
          else
            let s = with_conn c (upd_stream ptr pump_start (conn_at c s)) s in
            case ws_pump L p c ptr (we_reads e) s of (s, evs) \<Rightarrow>
              (s, [WsFrame (ws_frame muxTypeOpen p payload), WsCount ''opened''] @ evs))"

definition ws_relay :: "'cert libs \<Rightarrow> ws_env \<Rightarrow> Route \<Rightarrow> sealedWSParams \<Rightarrow> string \<Rightarrow> bytes \<Rightarrow> nat \<Rightarrow> nat \<Rightarrow> hstate
     \<Rightarrow> hstate \<times> ws_event list" where
  "ws_relay L e route p host openEnv c ptr s =
     (case ws_body L e route p host openEnv c ptr s of (s, evs) \<Rightarrow>
        let s = handler_run L (we_ops3 e) s in
        (with_conn c (mux_unregister ptr True (conn_at c s)) s, [WsTrack (SNI route) KindSealedWS] @ evs @ [WsRelease]))"

definition serveSealedWSMux :: "'cert libs \<Rightarrow> ws_env \<Rightarrow> Request \<Rightarrow> Route \<Rightarrow> sealedWSParams \<Rightarrow> hstate
     \<Rightarrow> hstate \<times> ws_event list" where
  "serveSealedWSMux L e req route p s =
     (case mux_acquire L (we_ops0 e) (we_dial e) route s of
        (s, Inl err) \<Rightarrow> (s, [WsStatus 502 ''enclave mux unavailable'', WsCount ''mux_unavailable''])
      | (s, Inr c) \<Rightarrow>
          let origin = h_get (req_Header req) ''Origin'' in
          if origin \<noteq> [] \<and> \<not> isAllowedOrigin (h_cors (fst s)) origin then (s, [WsStatus 403 ''origin not allowed''])
          else
            let host = (if req_Host req = [] then SNI route else req_Host req) in
            if \<not> we_accept e then (s, [WsCount ''accept_error''])
            else case we_open e of
              BrowserMessage True openEnv \<Rightarrow>
                (let s = handler_run L (we_ops1 e) s in
                 case open_stream (ws_key p) (conn_at c s) of (m, ptr, ok) \<Rightarrow>
                   let s = with_conn c m s in
                   if \<not> ok then (ws_close StatusProtocolError ''duplicate stream id'' c ptr s,
                     [WsAccepted, WsClose StatusProtocolError ''duplicate stream id'', WsCount ''duplicate'', WsCloseNow])
                   else case ws_relay L e route p host openEnv c ptr s of (s, evs) \<Rightarrow> (s, WsAccepted # evs @ [WsCloseNow]))
            | _ \<Rightarrow> (s, [WsAccepted, WsClose StatusProtocolError ''sealed stream open expected'', WsCount ''no_open'', WsCloseNow]))"

text \<open>
  What the tracker runs to cut a sealed stream (\<open>closeQuarantined\<close>).
\<close>

definition closeQuarantined :: "sealedWSParams \<Rightarrow> nat \<Rightarrow> gwMuxConn \<Rightarrow> gwMuxConn" where
  "closeQuarantined p ptr c =
     (let c = fst (writeFrame muxTypeClose (sw_sessionID p) (sw_streamID p) (encodeMuxClose StatusTryAgainLater []) c)
      in upd_stream ptr (finish StatusTryAgainLater ''enclave quarantined'') c)"

section \<open>Runs of the shared state\<close>

text \<open>Every step of the handler is an operation on the shared state.\<close>

lemma conn_at_simps [simp]:
  "conn_at c (with_conn d m s) = (if c = d then m else conn_at c s)" "fst (with_conn d m s) = fst s"
  "ms_next (snd (with_conn d m s)) = ms_next (snd s)"
  by (simp_all add: conn_at_def with_conn_def)

lemma with_conn_step: "with_conn c (conn_step a (conn_at c s)) s = handler_step L (OpConn c a) s"
  by (simp add: with_conn_def conn_at_def conn_op_def)

lemma ws_send_step: "ws_send typ p pl c s = (s', ok) \<Longrightarrow> s' = handler_step L (OpConn c (ActWrite (ws_frame typ p pl))) s"
  using with_conn_step [of c "ActWrite (ws_frame typ p pl)" s L]
  by (auto simp: ws_send_def ws_frame_def split: prod.splits)

definition runs :: "'cert libs \<Rightarrow> hstate \<Rightarrow> hstate \<Rightarrow> bool" where
  "runs L s s' \<longleftrightarrow> (\<exists>ops. list_all op_clean ops \<and> s' = handler_run L ops s)"

lemma runs_refl: "runs L s s"
  unfolding runs_def by (intro exI [of _ "[]"]) simp

lemma runs_trans: "runs L s s1 \<Longrightarrow> runs L s1 s2 \<Longrightarrow> runs L s s2"
  unfolding runs_def by (metis handler_run_append list_all_append)

lemma runs_step: "op_clean op \<Longrightarrow> runs L s (handler_step L op s)"
  unfolding runs_def by (intro exI [of _ "[op]"]) simp

lemma runs_run: "list_all op_clean ops \<Longrightarrow> runs L s (handler_run L ops s)"
  unfolding runs_def by blast

lemma runs_conn: "runs L s (with_conn c (conn_step a (conn_at c s)) s)"
  unfolding with_conn_step [where L = L] by (rule runs_step) (simp add: op_clean_def)

lemma runs_send: "runs L s (fst (ws_send t p pl c s))"
  using ws_send_step [of t p pl c s _ _ L] runs_step [of "OpConn c (ActWrite (ws_frame t p pl))" L s]
  by (cases "ws_send t p pl c s") (simp add: op_clean_def del: handler_step.simps)

lemma ws_close_step: "ws_close code r c ptr s = with_conn c (conn_step (ActClose ptr code r) (conn_at c s)) s"
  by (simp add: ws_close_def)

lemma runs_close: "runs L s (ws_close code r c ptr s)"
  unfolding ws_close_step by (rule runs_conn)

lemma runs_pump_error: "runs L s (fst (pump_error p c ptr code s))"
  by (simp add: pump_error_def runs_refl runs_send Let_def)

lemma runs_pump: "list_all op_clean (concat (map fst rs)) \<Longrightarrow> runs L s (fst (ws_pump L p c ptr rs s))"
proof (induction L p c ptr rs s rule: ws_pump.induct)
  case (3 L p c ptr ops binary data rs s)
  let ?s = "handler_run L ops s"
  obtain s' ok where send: "ws_send muxTypeData p data c ?s = (s', ok)" by (cases "ws_send muxTypeData p data c ?s")
  have first: "runs L s ?s" using 3 by (intro runs_run) simp
  have sent: "runs L s s'" using runs_trans [OF first runs_send [of L ?s muxTypeData p data c]] send by simp
  show ?case
  proof (cases "binary \<and> ok")
    case True
    with 3 send have "runs L s' (fst (ws_pump L p c ptr rs s'))" by auto
    from runs_trans [OF sent this] True send show ?thesis by (simp add: case_prod_unfold)
  next
    case False
    with send runs_trans [OF sent runs_close] runs_trans [OF runs_trans [OF first runs_close] runs_send] show ?thesis
      by (auto simp: Let_def)
  qed
qed (auto intro: runs_pump_error runs_trans [OF runs_run])

definition we_ops :: "ws_env \<Rightarrow> handler_op list" where
  "we_ops e = we_ops0 e @ we_ops1 e @ we_ops2 e @ concat (map fst (we_reads e)) @ we_ops3 e"

lemma runs_body:
  assumes "list_all op_clean (we_ops e)"
  shows "runs L s (fst (ws_body L e route p host openEnv c ptr s))"
proof -
  let ?s = "handler_run L (we_ops2 e) s" and ?pl = "encodeMuxOpen host (we_uri e) openEnv"
  obtain s1 ok where send: "ws_send muxTypeOpen p ?pl c ?s = (s1, ok)" by (cases "ws_send muxTypeOpen p ?pl c ?s")
  let ?s2 = "with_conn c (upd_stream ptr pump_start (conn_at c s1)) s1"
  have first: "runs L s ?s" using assms by (intro runs_run) (simp add: we_ops_def)
  have sent: "runs L s s1" using runs_trans [OF first runs_send [of L ?s muxTypeOpen p ?pl c]] send by simp
  have "runs L s1 ?s2" using runs_conn [of L s1 c "ActPumpStart ptr"] by simp
  moreover have "runs L ?s2 (fst (ws_pump L p c ptr (we_reads e) ?s2))" by (rule runs_pump) (use assms in \<open>simp add: we_ops_def\<close>)
  ultimately have pumped: "runs L s (fst (ws_pump L p c ptr (we_reads e) ?s2))" using runs_trans [OF sent] runs_trans by blast
  have "runs L ?s (with_conn c (upd_stream ptr (finish StatusTryAgainLater ''enclave quarantined'') (conn_at c ?s)) ?s)"
    using runs_conn [of L ?s c "ActFinish ptr StatusTryAgainLater ''enclave quarantined''"] by simp
  from runs_trans [OF first this] runs_trans [OF sent runs_close] pumped show ?thesis
    unfolding ws_body_def Let_def by (simp add: send case_prod_unfold)
qed

lemma runs_serve:
  assumes "list_all op_clean (we_ops e)" and "proxy_clean route" "mux_clean route"
  shows "runs L s (fst (serveSealedWSMux L e req route p s))"
proof -
  obtain s1 r where acq: "mux_acquire L (we_ops0 e) (we_dial e) route s = (s1, r)" by (metis surj_pair)
  have first: "runs L s s1"
    using runs_run [of "OpPool route # we_ops0 e @ [OpGet (we_dial e) (snd (muxPoolFor L route s))]" L s] assms acq
      mux_acquire_run [of L "we_ops0 e" "we_dial e" route s] by (simp add: op_clean_def we_ops_def del: handler_run_simps handler_step.simps)
  show ?thesis
  proof (cases "\<exists>c d. r = Inr c \<and> we_open e = BrowserMessage True d")
    case True
    then obtain c d where r: "r = Inr c" "we_open e = BrowserMessage True d" by blast
    let ?s = "handler_run L (we_ops1 e) s1"
    obtain m ptr ok where opn: "open_stream (ws_key p) (conn_at c ?s) = (m, ptr, ok)" by (metis surj_pair)
    let ?o = "with_conn c m ?s"
    have "runs L s1 ?s" using assms by (intro runs_run) (simp add: we_ops_def)
    moreover have "runs L ?s ?o" using runs_conn [of L ?s c "ActRegister (ws_key p)"] opn by simp
    ultimately have opened: "runs L s ?o" using first runs_trans by blast
    have relay: "runs L ?o (fst (ws_relay L e route p host d c ptr ?o))" for host
    proof -
      obtain s2 evs where b: "ws_body L e route p host d c ptr ?o = (s2, evs)" by (metis surj_pair)
      let ?s3 = "handler_run L (we_ops3 e) s2"
      have "runs L ?o s2" using runs_body [OF assms(1), of L ?o route p host d c ptr] b by simp
      moreover have "runs L s2 ?s3" using assms by (intro runs_run) (simp add: we_ops_def)
      moreover have "runs L ?s3 (with_conn c (mux_unregister ptr True (conn_at c ?s3)) ?s3)"
        using runs_conn [of L ?s3 c "ActLeave ptr"] by simp
      ultimately show ?thesis using runs_trans by (simp add: ws_relay_def b Let_def) blast
    qed
    from runs_trans [OF opened relay] first runs_trans [OF opened runs_close] show ?thesis
      by (simp add: serveSealedWSMux_def acq r opn Let_def case_prod_unfold)
  next
    case False
    with first show ?thesis
      by (auto simp: serveSealedWSMux_def acq Let_def split: sum.split browser_read.split bool.split)
  qed
qed

end
