(* ===== verification/Sealed_Wire.thy ===== *)
theory Sealed_Wire
  imports Sealed_Ws
begin

text \<open>
  What the handler of a sealed WebSocket does to the connection it shares: which frames of the
  stream are written, under every interleaving with other goroutines, in which order, and what
  is left of the stream at its end.
\<close>

section \<open>What reaches the connection\<close>

text \<open>A connection that is dead or whose writer failed accepts no further frame.\<close>

definition broken :: "gwMuxConn \<Rightarrow> bool" where
  "broken c \<longleftrightarrow> mc_dead c \<or> bw_err (mc_bw c)"

lemma bw_Write_fail: "bw_Write b q = (b', n, ok) \<Longrightarrow> \<not> ok \<Longrightarrow> bw_err b'"
  by (auto simp: bw_Write_def bw_direct_def bw_Flush_def conn_Write_def Let_def split: if_splits prod.splits)

lemma write_frame_fail: "\<not> snd (write_frame f b) \<Longrightarrow> bw_err (fst (write_frame f b))"
  using bw_Write_fail by (auto simp: write_frame_def bw_Flush_def Let_def split: prod.splits if_splits)

lemma write_frame_broken: "bw_err b \<Longrightarrow> bw_err (fst (write_frame f b))"
  by (simp add: write_frame_def bw_Write_def)

lemma writeFrame_broken:
  "broken c \<Longrightarrow> broken (fst (writeFrame t s i pl c))" "\<not> snd (writeFrame t s i pl c) \<Longrightarrow> broken (fst (writeFrame t s i pl c))"
  by (auto simp: broken_def writeFrame_def isDead_def case_prod_unfold write_frame_broken write_frame_fail split: if_splits)

lemma broken_cong: "mc_dead c' = mc_dead c \<Longrightarrow> mc_bw c' = mc_bw c \<Longrightarrow> broken c' = broken c"
  by (simp add: broken_def)

lemma broken_simps [simp]:
  "broken (kill c)" "broken (upd_stream p f c) = broken c" "broken (mux_unregister p False c) = broken c"
  by (simp_all add: broken_def)

lemma on_frame_broken: "broken c \<Longrightarrow> broken (fst (on_frame f c))"
  by (auto simp: on_frame_def on_data_def on_close_def writeFrame_broken Let_def split: option.split prod.split)

lemma broken_step: "broken c \<Longrightarrow> broken (conn_step a c)"
proof (cases a)
  case (ActFrame f)
  assume "broken c"
  with ActFrame on_frame_broken [of c f] show ?thesis by (cases rule: read_turn_cases [of f c]) simp_all
next
  case ActTick
  assume "broken c"
  with ActTick writeFrame_broken(1) [of c muxTypePing "[]" 0 "[]"] show ?thesis by (simp add: keepalive_tick_def case_prod_unfold)
next
  case (ActRegister j)
  assume "broken c"
  with ActRegister open_stream_simps [of j c] broken_cong show ?thesis by (cases "open_stream j c") (auto simp: broken_def)
qed (simp_all add: unregister_True writeFrame_broken(1))

text \<open>What an operation on the shared state does to one connection.\<close>

lemma step_conn:
  assumes "c < ms_next (snd s)"
  shows "ms_next (snd s) \<le> ms_next (snd (handler_step L op s))"
    and "conn_at c (handler_step L op s) \<in> {conn_at c s, kill (conn_at c s)}
      \<or> (\<exists>a. op = OpConn c a \<and> conn_at c (handler_step L op s) = conn_step a (conn_at c s))"
proof -
  have pool: "ms_next (snd (fst (muxPoolFor L r s))) = ms_next (snd s)
    \<and> conn_at c (fst (muxPoolFor L r s)) \<in> {conn_at c s, kill (conn_at c s)}" for r
    by (auto simp: muxPoolFor_eq Let_def close_pools_simps conn_at_def split: option.split)
  have get: "ms_next (snd s) \<le> ms_next (fst (get_at e ptr (snd s))) \<and> ms_conns (fst (get_at e ptr (snd s))) c = conn_at c s" for e ptr
    using get_at_id(4,5) [of e ptr "snd s"] assms by (cases "get_at e ptr (snd s)") (simp add: conn_at_def)
  show "ms_next (snd s) \<le> ms_next (snd (handler_step L op s))"
    using pool get by (cases op) (simp_all add: Forget_eq close_pools_simps conn_op_def)
  show "conn_at c (handler_step L op s) \<in> {conn_at c s, kill (conn_at c s)}
      \<or> (\<exists>a. op = OpConn c a \<and> conn_at c (handler_step L op s) = conn_step a (conn_at c s))"
    using pool get by (cases op) (simp_all add: Forget_eq close_pools_simps conn_op_def conn_at_def)
qed

definition foreign_op :: "muxKey \<Rightarrow> nat \<Rightarrow> handler_op \<Rightarrow> bool" where
  "foreign_op k c op = (case op of OpConn d a \<Rightarrow> d \<noteq> c \<or> foreign k a | _ \<Rightarrow> True)"

text \<open>
  \<open>talks k c s fs s'\<close>: between the two states, the open and data frames of the stream \<open>k\<close> that were
  written to the connection \<open>c\<close> are \<open>fs\<close>, in this order, and a broken connection stays broken.
\<close>

definition talks :: "muxKey \<Rightarrow> nat \<Rightarrow> hstate \<Rightarrow> frame list \<Rightarrow> hstate \<Rightarrow> bool" where
  "talks k c s fs s' \<longleftrightarrow> (\<exists>gs. wrote (conn_at c s) gs (conn_at c s') \<and> filter (own k) gs = fs)
     \<and> (broken (conn_at c s) \<longrightarrow> broken (conn_at c s')) \<and> ms_next (snd s) \<le> ms_next (snd s')"

lemma talks_quiet:
  "quiet k (conn_at c s) (conn_at c s') \<Longrightarrow> (broken (conn_at c s) \<longrightarrow> broken (conn_at c s')) \<Longrightarrow>
   ms_next (snd s) \<le> ms_next (snd s') \<Longrightarrow> talks k c s [] s'"
  by (auto simp: talks_def quiet_def)

lemma talks_refl: "talks k c s [] s"
  by (rule talks_quiet) (simp_all add: quiet_same)

lemma talks_trans: "talks k c s fs s1 \<Longrightarrow> talks k c s1 gs s2 \<Longrightarrow> talks k c s (fs @ gs) s2"
  unfolding talks_def by (metis filter_append le_trans wrote_trans)

lemma talks_step:
  assumes "c < ms_next (snd s)" and "foreign_op k c op"
  shows "talks k c s [] (handler_step L op s)"
proof (rule talks_quiet)
  note cases = step_conn(2) [OF assms(1), of L op]
  from assms(2) have "foreign k a" if "op = OpConn c a" for a using that by (simp add: foreign_op_def)
  with cases show "quiet k (conn_at c s) (conn_at c (handler_step L op s))"
    using quiet_step [of k _ "conn_at c s"] quiet_same [of "conn_at c s" "conn_at c s" k] quiet_kill [of k "conn_at c s" "conn_at c s"]
    by auto
  from cases show "broken (conn_at c s) \<longrightarrow> broken (conn_at c (handler_step L op s))" using broken_step by auto
  show "ms_next (snd s) \<le> ms_next (snd (handler_step L op s))" by (rule step_conn(1) [OF assms(1)])
qed

lemma talks_run: "c < ms_next (snd s) \<Longrightarrow> list_all (foreign_op k c) ops \<Longrightarrow> talks k c s [] (handler_run L ops s)"
proof (induction ops arbitrary: s)
  case (Cons op ops)
  from Cons.prems have step: "talks k c s [] (handler_step L op s)" by (intro talks_step) simp_all
  moreover from step Cons.prems(1) have "c < ms_next (snd (handler_step L op s))" by (auto simp: talks_def)
  with Cons have "talks k c (handler_step L op s) [] (handler_run L ops (handler_step L op s))" by simp
  ultimately show ?case using talks_trans [of k c s "[]"] by fastforce
qed (simp add: talks_refl)

lemma talks_conn: "c < ms_next (snd s) \<Longrightarrow> foreign k a \<Longrightarrow> talks k c s [] (with_conn c (conn_step a (conn_at c s)) s)"
  using talks_step [of c s k "OpConn c a" "undefined :: unit libs"] with_conn_step [of c a s "undefined :: unit libs"]
  by (simp add: foreign_op_def)

lemma talks_direct: "c < ms_next (snd s) \<Longrightarrow> talks k c s [] (ws_close code r c ptr s)"
  unfolding ws_close_step by (rule talks_conn) (simp_all add: foreign_def)

text \<open>A frame of the stream itself: written, or not on a dead connection; a failed write breaks it.\<close>

lemma talks_send:
  assumes "ws_send t p pl c s = (s', ok)" and "t \<in> {muxTypeOpen, muxTypeData}"
  shows "\<exists>fs. talks (ws_key p) c s fs s' \<and> (fs = [] \<or> fs = [ws_frame t p pl]) \<and> (ok \<longrightarrow> fs = [ws_frame t p pl])
    \<and> (\<not> ok \<longrightarrow> broken (conn_at c s'))"
proof -
  let ?c = "conn_at c s" and ?f = "ws_frame t p pl"
  obtain m where w: "writeFrame t (sw_sessionID p) (sw_streamID p) pl ?c = (m, ok)" and s': "s' = with_conn c m s"
    using assms(1) by (auto simp: ws_send_def split: prod.splits)
  let ?fs = "if mc_dead ?c then [] else [?f]"
  have "wrote ?c ?fs m" using writeFrame_wrote [of ?c t "sw_sessionID p" "sw_streamID p" pl] by (simp only: w ws_frame_def fst_conv)
  moreover have "filter (own (ws_key p)) ?fs = ?fs" using assms(2) by (simp add: own_def ws_frame_def ws_key_def)
  moreover have "broken ?c \<longrightarrow> broken m" "\<not> ok \<longrightarrow> broken m"
    using writeFrame_broken [where c = ?c and t = t and s = "sw_sessionID p" and i = "sw_streamID p" and pl = pl] w by auto
  moreover have "ok \<longrightarrow> \<not> mc_dead ?c" using w by (auto simp: writeFrame_def isDead_def)
  ultimately show ?thesis
    unfolding talks_def s' by (intro exI [of _ ?fs]) auto
qed

lemma talks_close: "c < ms_next (snd s) \<Longrightarrow> talks k c s [] (fst (ws_send muxTypeClose p pl c s))"
  using talks_conn [of c s k "ActWrite (ws_frame muxTypeClose p pl)"]
  by (simp add: ws_send_def ws_frame_def foreign_def case_prod_unfold)

section \<open>The stream's frames\<close>

text \<open>The binary messages of the browser up to the first other read.\<close>

fun browser_messages :: "(handler_op list \<times> browser_read) list \<Rightarrow> bytes list" where
  "browser_messages ((ops, BrowserMessage True data) # rs) = data # browser_messages rs"
| "browser_messages _ = []"

text \<open>The frames a stream is to send: its open frame, then a data frame for each message.\<close>

definition sealed_frames :: "ws_env \<Rightarrow> Request \<Rightarrow> Route \<Rightarrow> sealedWSParams \<Rightarrow> frame list" where
  "sealed_frames e req route p =
     (case we_open e of
        BrowserMessage True openEnv \<Rightarrow>
          ws_frame muxTypeOpen p (encodeMuxOpen (if req_Host req = [] then SNI route else req_Host req) (we_uri e) openEnv)
          # map (ws_frame muxTypeData p) (browser_messages (we_reads e))
      | _ \<Rightarrow> [])"

text \<open>A prefix of \<open>fs\<close> was written, and all of it unless the connection broke.\<close>

definition sends :: "muxKey \<Rightarrow> nat \<Rightarrow> hstate \<Rightarrow> frame list \<Rightarrow> hstate \<Rightarrow> bool" where
  "sends k c s fs s' \<longleftrightarrow> (\<exists>n. talks k c s (take n fs) s' \<and> (length fs \<le> n \<or> broken (conn_at c s')))"

lemma sends_Nil: "talks k c s [] s' \<Longrightarrow> sends k c s [] s'"
  by (simp add: sends_def)

lemma talks_sends: "talks k c s [] s1 \<Longrightarrow> sends k c s1 fs s' \<Longrightarrow> sends k c s fs s'"
  unfolding sends_def by (metis append_Nil talks_trans)

lemma sends_talks: "sends k c s fs s1 \<Longrightarrow> talks k c s1 [] s' \<Longrightarrow> sends k c s fs s'"
proof -
  assume *: "sends k c s fs s1" and b: "talks k c s1 [] s'"
  then obtain n where n: "talks k c s (take n fs) s1" "length fs \<le> n \<or> broken (conn_at c s1)" by (auto simp: sends_def)
  moreover have "broken (conn_at c s1) \<longrightarrow> broken (conn_at c s')" using b by (simp add: talks_def)
  ultimately show ?thesis using talks_trans [OF n(1) b] by (auto simp: sends_def)
qed

lemma send_broken:
  assumes "talks k c s fs s'" and "fs = [] \<or> fs = [f]" and "broken (conn_at c s')"
  shows "sends k c s (f # gs) s'"
  using assms unfolding sends_def by (intro exI [of _ "length fs"]) auto

lemma send_more:
  assumes "talks k c s [f] s1" and "sends k c s1 gs s'"
  shows "sends k c s (f # gs) s'"
proof -
  from assms(2) obtain n where "talks k c s1 (take n gs) s'" "length gs \<le> n \<or> broken (conn_at c s')" by (auto simp: sends_def)
  with talks_trans [OF assms(1) this(1)] show ?thesis unfolding sends_def by (intro exI [of _ "Suc n"]) simp
qed

lemma talks_next: "talks k c s fs s' \<Longrightarrow> c < ms_next (snd s) \<Longrightarrow> c < ms_next (snd s')"
  by (simp add: talks_def)

lemma talks_pump_error: "c < ms_next (snd s) \<Longrightarrow> talks k c s [] (fst (pump_error p c ptr code s))"
  by (simp add: pump_error_def talks_refl talks_close Let_def)

lemma sends_pump:
  "c < ms_next (snd s) \<Longrightarrow> list_all (foreign_op (ws_key p) c) (concat (map fst rs)) \<Longrightarrow>
   sends (ws_key p) c s (map (ws_frame muxTypeData p) (browser_messages rs)) (fst (ws_pump L p c ptr rs s))"
proof (induction L p c ptr rs s rule: ws_pump.induct)
  case (1 L p c ptr s)
  then show ?case by (simp add: sends_Nil talks_pump_error)
next
  case (2 L p c ptr ops code rs s)
  then have first: "talks (ws_key p) c s [] (handler_run L ops s)" by (intro talks_run) simp_all
  from talks_trans [OF first talks_pump_error] talks_next [OF first 2(1)] show ?case by (simp add: sends_Nil)
next
  case (3 L p c ptr ops binary data rs s)
  let ?s = "handler_run L ops s"
  from 3 have first: "talks (ws_key p) c s [] ?s" by (intro talks_run) simp_all
  note live = talks_next [OF first "3.prems"(1)]
  show ?case
  proof (cases binary)
    case False
    note closed = talks_direct [OF live, of "ws_key p" StatusUnsupportedData "''binary sealed frames only''" ptr]
    from False talks_trans [OF first talks_trans [OF closed talks_close [OF talks_next [OF closed live]]]] show ?thesis
      by (simp add: sends_Nil Let_def)
  next
    case True
    obtain s1 ok where send: "ws_send muxTypeData p data c ?s = (s1, ok)" by (cases "ws_send muxTypeData p data c ?s")
    from talks_send [OF send] obtain fs where fs: "talks (ws_key p) c ?s fs s1" "fs = [] \<or> fs = [ws_frame muxTypeData p data]"
      "ok \<longrightarrow> fs = [ws_frame muxTypeData p data]" "\<not> ok \<longrightarrow> broken (conn_at c s1)" by auto
    let ?rest = "map (ws_frame muxTypeData p) (browser_messages rs)"
    have "sends (ws_key p) c ?s (ws_frame muxTypeData p data # ?rest)
        (if ok then fst (ws_pump L p c ptr rs s1) else ws_close StatusBadGateway ''enclave mux lost'' c ptr s1)"
    proof (cases ok)
      case True
      with fs talks_next [OF fs(1) live] "3.IH" [OF refl _ send [symmetric]] \<open>binary\<close> "3.prems"(2)
      show ?thesis by (auto intro: send_more)
    next
      case False
      with fs sends_talks [OF send_broken talks_direct [OF talks_next [OF fs(1) live]]] show ?thesis by simp
    qed
    from talks_sends [OF first this] True send show ?thesis by (cases ok) (simp_all add: Let_def case_prod_unfold)
  qed
qed

lemma sends_body:
  assumes "c < ms_next (snd s)" and "list_all (foreign_op (ws_key p) c) (we_ops e)"
  shows "sends (ws_key p) c s
      (if quarantined (fst (handler_run L (we_ops2 e) s)) (we_live e) route then []
       else ws_frame muxTypeOpen p (encodeMuxOpen host (we_uri e) openEnv) # map (ws_frame muxTypeData p) (browser_messages (we_reads e)))
      (fst (ws_body L e route p host openEnv c ptr s))"
proof -
  let ?s = "handler_run L (we_ops2 e) s" and ?pl = "encodeMuxOpen host (we_uri e) openEnv"
  let ?rest = "map (ws_frame muxTypeData p) (browser_messages (we_reads e))"
  have first: "talks (ws_key p) c s [] ?s" using assms by (intro talks_run) (simp_all add: we_ops_def)
  note live = talks_next [OF first assms(1)]
  show ?thesis
  proof (cases "quarantined (fst ?s) (we_live e) route")
    case True
    have "talks (ws_key p) c ?s [] (with_conn c (upd_stream ptr (finish StatusTryAgainLater ''enclave quarantined'') (conn_at c ?s)) ?s)"
      using talks_conn [OF live, of "ws_key p" "ActFinish ptr StatusTryAgainLater ''enclave quarantined''"] by (simp add: foreign_def)
    from talks_trans [OF first this] True show ?thesis by (simp add: ws_body_def sends_Nil Let_def)
  next
    case False
    obtain s1 ok where send: "ws_send muxTypeOpen p ?pl c ?s = (s1, ok)" by (cases "ws_send muxTypeOpen p ?pl c ?s")
    from talks_send [OF send] obtain fs where fs: "talks (ws_key p) c ?s fs s1" "fs = [] \<or> fs = [ws_frame muxTypeOpen p ?pl]"
      "ok \<longrightarrow> fs = [ws_frame muxTypeOpen p ?pl]" "\<not> ok \<longrightarrow> broken (conn_at c s1)" by auto
    let ?s2 = "with_conn c (upd_stream ptr pump_start (conn_at c s1)) s1"
    note live1 = talks_next [OF fs(1) live]
    have start: "talks (ws_key p) c s1 [] ?s2"
      using talks_conn [OF live1, of "ws_key p" "ActPumpStart ptr"] by (simp add: foreign_def)
    have "sends (ws_key p) c ?s2 ?rest (fst (ws_pump L p c ptr (we_reads e) ?s2))"
      by (rule sends_pump) (use assms(2) live1 in \<open>simp_all add: we_ops_def\<close>)
    from talks_sends [OF start this] fs
    have "sends (ws_key p) c ?s (ws_frame muxTypeOpen p ?pl # ?rest) (if ok then fst (ws_pump L p c ptr (we_reads e) ?s2)
        else ws_close StatusBadGateway ''enclave mux unavailable'' c ptr s1)"
      by (cases ok) (auto intro: send_more sends_talks [OF send_broken talks_direct [OF live1]])
    from talks_sends [OF first this] False show ?thesis
      by (cases ok) (simp_all add: ws_body_def send Let_def case_prod_unfold)
  qed
qed

lemma quarantined_config: "h_lookup h' = h_lookup h \<Longrightarrow> quarantined h' live route = quarantined h live route"
  by (simp add: quarantined_def)

lemma config_with [simp]: "config (fst (with_conn c m s)) = config (fst s)"
  by simp

text \<open>Once the handler has its connection, it refuses the stream or relays it.\<close>

lemma sealed_cases:
  assumes "mux_acquire L (we_ops0 e) (we_dial e) route s = (s1, Inr c)"
  obtains (refused) "fst (serveSealedWSMux L e req route p s)
        \<in> {s1, ws_close StatusProtocolError ''duplicate stream id'' c (mc_next (conn_at c (handler_run L (we_ops1 e) s1)))
          (with_conn c (conn_step (ActRegister (ws_key p)) (conn_at c (handler_run L (we_ops1 e) s1))) (handler_run L (we_ops1 e) s1))}"
      "\<And>h k. WsTrack h k \<notin> set (snd (serveSealedWSMux L e req route p s))"
      "\<And>f. WsFrame f \<notin> set (snd (serveSealedWSMux L e req route p s))" "WsRelease \<notin> set (snd (serveSealedWSMux L e req route p s))"
  | (relayed) m ptr openEnv host where "we_open e = BrowserMessage True openEnv"
      "host = (if req_Host req = [] then SNI route else req_Host req)"
      "open_stream (ws_key p) (conn_at c (handler_run L (we_ops1 e) s1)) = (m, ptr, True)"
      "serveSealedWSMux L e req route p s =
         (case ws_relay L e route p host openEnv c ptr (with_conn c m (handler_run L (we_ops1 e) s1)) of
            (s', evs) \<Rightarrow> (s', WsAccepted # evs @ [WsCloseNow]))"
proof -
  let ?s = "handler_run L (we_ops1 e) s1"
  obtain m ptr ok where opn: "open_stream (ws_key p) (conn_at c ?s) = (m, ptr, ok)" by (metis surj_pair)
  show ?thesis
  proof (cases "\<not> (h_get (req_Header req) ''Origin'' \<noteq> [] \<and> \<not> isAllowedOrigin (h_cors (fst s1)) (h_get (req_Header req) ''Origin''))
      \<and> we_accept e \<and> ok \<and> (\<exists>d. we_open e = BrowserMessage True d)")
    case True
    then obtain d where d: "we_open e = BrowserMessage True d" by blast
    from True opn have "open_stream (ws_key p) (conn_at c ?s) = (m, ptr, True)" by simp
    moreover from this True d have "serveSealedWSMux L e req route p s =
        (case ws_relay L e route p (if req_Host req = [] then SNI route else req_Host req) d c ptr (with_conn c m ?s) of
           (s', evs) \<Rightarrow> (s', WsAccepted # evs @ [WsCloseNow]))"
      by (auto simp: serveSealedWSMux_def assms Let_def)
    ultimately show ?thesis using relayed [OF d refl] by blast
  next
    case False
    have "(fst (serveSealedWSMux L e req route p s) \<in> {s1, ws_close StatusProtocolError ''duplicate stream id'' c ptr (with_conn c m ?s)})
      \<and> (\<forall>h k. WsTrack h k \<notin> set (snd (serveSealedWSMux L e req route p s)))
      \<and> (\<forall>f. WsFrame f \<notin> set (snd (serveSealedWSMux L e req route p s))) \<and> WsRelease \<notin> set (snd (serveSealedWSMux L e req route p s))"
      using False by (auto simp: serveSealedWSMux_def assms opn Let_def split: browser_read.split bool.split)
    with opn open_stream_simps [OF opn] refused show ?thesis by auto
  qed
qed

lemma relay_simps:
  assumes "ws_body L e route p host openEnv c ptr s = (s1, evs)"
  shows "ws_relay L e route p host openEnv c ptr s =
    (with_conn c (conn_step (ActLeave ptr) (conn_at c (handler_run L (we_ops3 e) s1))) (handler_run L (we_ops3 e) s1),
     [WsTrack (SNI route) KindSealedWS] @ evs @ [WsRelease])"
  by (simp add: ws_relay_def assms Let_def)

section \<open>Properties\<close>

lemma refused_talks:
  assumes "talks k c s1 [] s2" and "s' \<in> {s1, s2}"
  shows "talks k c s1 [] s'"
  using assms talks_refl [of k c s1] by auto

lemma relay_sends:
  assumes "talks (ws_key p) c s1 [] s" and "c < ms_next (snd s1)" and "list_all (foreign_op (ws_key p) c) (we_ops e)"
  shows "sends (ws_key p) c s1
    (if quarantined (fst (handler_run L (we_ops2 e) s)) (we_live e) route then []
     else ws_frame muxTypeOpen p (encodeMuxOpen host (we_uri e) d) # map (ws_frame muxTypeData p) (browser_messages (we_reads e)))
    (fst (ws_relay L e route p host d c ptr s))" (is "sends _ _ _ ?fs _")
proof -
  obtain s2 evs where body: "ws_body L e route p host d c ptr s = (s2, evs)" by (metis surj_pair)
  let ?s3 = "handler_run L (we_ops3 e) s2"
  have sent: "sends (ws_key p) c s1 ?fs s2"
    using talks_sends [OF assms(1) sends_body [OF talks_next [OF assms(1,2)] assms(3), of L route host d ptr]]
    by (simp only: body fst_conv)
  then have live: "c < ms_next (snd s2)" using assms(2) by (auto simp: sends_def talks_def)
  have "talks (ws_key p) c s2 [] ?s3" using live assms(3) by (intro talks_run) (simp_all add: we_ops_def)
  from talks_trans [OF this talks_conn [OF talks_next [OF this live], of "ws_key p" "ActLeave ptr"]]
  show ?thesis using sends_talks [OF sent] by (simp add: foreign_def relay_simps [OF body])
qed

lemma acquired_live:
  assumes "list_all op_clean ops" and "mux_clean route" and "s = handler_run L ops (initial opts)"
    and "mux_acquire L others e route s = (s1, Inr c)" and "list_all op_clean others"
  shows "pools_ok L s1" "c < ms_next (snd s1)" "h_lookup (fst s1) = o_Lookup opts"
proof -
  have "pools_ok L s" unfolding assms(3) by (rule pools_ok_run [OF assms(1) pools_ok_initial])
  from mux_acquire_ok [OF this assms(2,5,4)] obtain ptr where ok: "pools_ok L s1" "c \<in> set (mp_conns (ms_pools (snd s1) ptr))" by auto
  from ok(1) show "pools_ok L s1" .
  from store_okD(3) [OF pools_okD(2) [OF ok(1)] ok(2)] show "c < ms_next (snd s1)" .
  show "h_lookup (fst s1) = o_Lookup opts"
    using config_acquire [of L others e route s] assms(3,4) config_initial [OF assms(3)] by (simp add: config_eq)
qed

text \<open>
  C32. What the enclave gets of one sealed WebSocket, under every interleaving with the other
  goroutines that use the shared connection and may end it: the open and data frames written for
  the stream are a prefix of its open frame (with the host, path and sealed open message) and then
  the browser's binary messages, one data frame each, unchanged and in order. Once the stream is
  tracked they are all of them, unless the connection breaks. They are none for a route that is
  quarantined, either as it was when the connection was opened or in the live table.
\<close>

theorem sealed_stream_wire:
  assumes "list_all op_clean ops" and "mux_clean route" and "s = handler_run L ops (initial opts)"
    and "mux_acquire L (we_ops0 e) (we_dial e) route s = (s1, Inr c)" and "list_all (foreign_op (ws_key p) c) (we_ops e)"
    and "list_all op_clean (we_ops0 e)" and "serveSealedWSMux L e req route p s = (s', evs)"
  shows "\<exists>gs n. wrote (conn_at c s1) gs (conn_at c s') \<and> filter (own (ws_key p)) gs = take n (sealed_frames e req route p)
    \<and> (quarantined (New_Handler opts) (we_live e) route \<longrightarrow> n = 0)
    \<and> (WsTrack (SNI route) KindSealedWS \<in> set evs \<and> \<not> quarantined (New_Handler opts) (we_live e) route \<and> \<not> broken (conn_at c s')
        \<longrightarrow> length (sealed_frames e req route p) \<le> n)"
proof -
  note live = acquired_live [OF assms(1-4,6)]
  have quar: "quarantined h (we_live e) route = quarantined (New_Handler opts) (we_live e) route" if "config h = config (fst s1)" for h
    by (rule quarantined_config) (use that live(3) in \<open>simp add: config_eq New_Handler_def\<close>)
  let ?s = "handler_run L (we_ops1 e) s1"
  have first: "talks (ws_key p) c s1 [] ?s" using live(2) assms(5) by (intro talks_run) (simp_all add: we_ops_def)
  note live2 = talks_next [OF first live(2)]
  have reg: "talks (ws_key p) c s1 [] (with_conn c (conn_step (ActRegister (ws_key p)) (conn_at c ?s)) ?s)"
    using talks_trans [OF first talks_conn [OF live2, of "ws_key p" "ActRegister (ws_key p)"]] by (simp add: foreign_def)
  from assms(4) show ?thesis
  proof (cases rule: sealed_cases [where req = req and p = p])
    case refused
    then have "talks (ws_key p) c s1 [] s'"
      using refused_talks [OF talks_trans [OF reg talks_direct [OF talks_next [OF reg live(2)]], simplified]] assms(7) by simp
    then obtain gs where "wrote (conn_at c s1) gs (conn_at c s')" "filter (own (ws_key p)) gs = []" by (auto simp: talks_def)
    with refused(2) assms(7) show ?thesis by (intro exI [of _ gs] exI [of _ 0]) simp
  next
    case (relayed m ptr d host)
    let ?o = "with_conn c m ?s"
    from reg relayed(3) have reg': "talks (ws_key p) c s1 [] ?o" by simp
    let ?q = "quarantined (New_Handler opts) (we_live e) route"
    let ?fs = "if ?q then [] else sealed_frames e req route p"
    have cfg: "config (fst (handler_run L (we_ops2 e) ?o)) = config (fst s1)" by (simp add: config_run)
    have sealed: "sealed_frames e req route p = ws_frame muxTypeOpen p (encodeMuxOpen host (we_uri e) d)
        # map (ws_frame muxTypeData p) (browser_messages (we_reads e))"
      by (simp add: sealed_frames_def relayed(1,2))
    have "s' = fst (ws_relay L e route p host d c ptr ?o)" using assms(7) relayed(4) by (simp split: prod.splits)
    then have "sends (ws_key p) c s1 ?fs s'"
      using relay_sends [OF reg' live(2) assms(5), of L route host d ptr] by (simp only: sealed quar [OF cfg])
    then obtain n where n: "talks (ws_key p) c s1 (take n ?fs) s'" "length ?fs \<le> n \<or> broken (conn_at c s')" by (auto simp: sends_def)
    then obtain gs where gs: "wrote (conn_at c s1) gs (conn_at c s')" "filter (own (ws_key p)) gs = take n ?fs" by (auto simp: talks_def)
    show ?thesis
    proof (cases ?q)
      case True
      with gs show ?thesis by (intro exI [of _ gs] exI [of _ 0]) simp
    next
      case False
      with gs n(2) show ?thesis by (intro exI [of _ gs] exI [of _ n]) auto
    qed
  qed
qed

definition sample_req :: Request where
  "sample_req = \<lparr>req_Method = ''GET'', req_Path = ''/'', req_Scheme = [], req_URLHost = [], req_Host = ''a.x'', req_Header = [],
     req_RemoteAddr = [], req_Close = False\<rparr>"

definition sample_params :: sealedWSParams where
  "sample_params = \<lparr>sw_sessionID = ''s'', sw_streamID = 1, sw_streamHex = ''0000000000000001''\<rparr>"

definition sample_ws :: ws_env where
  "sample_ws = \<lparr>we_ops0 = [], we_dial = sample_dial, we_uri = ''/'', we_accept = True, we_open = BrowserMessage True [1], we_ops1 = [], we_ops2 = [],
     we_live = New, we_reads = [([], BrowserMessage True [2])], we_ops3 = []\<rparr>"

theorem sealed_stream_wire_witness:
  "\<exists>s1 gs n. wrote (conn_at 0 s1) gs (conn_at 0 (fst (serveSealedWSMux sample_libs sample_ws sample_req sample_route sample_params
        (handler_run sample_libs [] (initial sample_options)))))
    \<and> filter (own (''s'', 1)) gs = take n (sealed_frames sample_ws sample_req sample_route sample_params)"
proof -
  let ?s = "handler_run sample_libs [] (initial sample_options)"
  obtain s1 where acq: "mux_acquire sample_libs (we_ops0 sample_ws) (we_dial sample_ws) sample_route ?s = (s1, Inr 0)"
    using sample_acquire by (auto simp: sample_ws_def)
  have ops: "we_ops sample_ws = []" "we_ops0 sample_ws = []" by (simp_all add: we_ops_def sample_ws_def)
  have key: "ws_key sample_params = (''s'', 1)" by (simp add: ws_key_def sample_params_def)
  obtain s' evs where serve: "serveSealedWSMux sample_libs sample_ws sample_req sample_route sample_params ?s = (s', evs)"
    by (metis surj_pair)
  from sealed_stream_wire [OF _ sample_route_clean(2) refl acq _ _ serve] obtain gs n where "wrote (conn_at 0 s1) gs (conn_at 0 s')"
    "filter (own (''s'', 1)) gs = take n (sealed_frames sample_ws sample_req sample_route sample_params)"
    unfolding ops key by (auto simp del: handler_run_simps)
  then show ?thesis unfolding serve fst_conv by blast
qed

text \<open>The frames the handler itself writes, in the order of its calls.\<close>

definition frames_of :: "ws_event list \<Rightarrow> frame list" where
  "frames_of evs = concat (map (\<lambda>e. case e of WsFrame f \<Rightarrow> [f] | _ \<Rightarrow> []) evs)"

lemma frames_of_simps [simp]:
  "frames_of [] = []" "frames_of (e # evs) = (case e of WsFrame f \<Rightarrow> f # frames_of evs | _ \<Rightarrow> frames_of evs)"
  "frames_of (xs @ ys) = frames_of xs @ frames_of ys"
  by (simp_all add: frames_of_def split: ws_event.split)

lemma no_frames: "(\<And>f. WsFrame f \<notin> set evs) \<Longrightarrow> frames_of evs = []"
  by (induction evs) (auto split: ws_event.split)

definition closing :: "sealedWSParams \<Rightarrow> frame list \<Rightarrow> bool" where
  "closing p cl = (length cl \<le> 1 \<and> list_all (\<lambda>f. fr_typ f = muxTypeClose \<and> fr_sid f = sw_sessionID p \<and> fr_stream f = sw_streamID p) cl)"

lemma closing_error: "closing p (frames_of (snd (pump_error p c ptr code s)))"
  by (simp add: closing_def pump_error_def ws_frame_def Let_def)

lemma ws_pump_frames:
  "\<exists>n cl. frames_of (snd (ws_pump L p c ptr rs s)) = map (ws_frame muxTypeData p) (take n (browser_messages rs)) @ cl \<and> closing p cl"
proof (induction L p c ptr rs s rule: ws_pump.induct)
  case (3 L p c ptr ops binary data rs s)
  let ?s = "handler_run L ops s"
  obtain s1 ok where send: "ws_send muxTypeData p data c ?s = (s1, ok)" by (cases "ws_send muxTypeData p data c ?s")
  show ?case
  proof (cases "binary \<and> ok")
    case True
    with 3 [OF refl _ send [symmetric]] obtain n cl where
      "frames_of (snd (ws_pump L p c ptr rs s1)) = map (ws_frame muxTypeData p) (take n (browser_messages rs)) @ cl" "closing p cl" by auto
    with True send show ?thesis by (intro exI [of _ "Suc n"] exI [of _ cl]) (simp add: Let_def case_prod_unfold)
  next
    case False
    show ?thesis
    proof (cases binary)
      case True
      with False send show ?thesis by (intro exI [of _ 1] exI [of _ "[]"]) (simp add: Let_def closing_def)
    next
      case False
      then show ?thesis by (intro exI [of _ 0]) (simp add: Let_def closing_def ws_frame_def)
    qed
  qed
qed (use closing_error in \<open>auto intro!: exI [of _ 0]\<close>)

text \<open>
  What the handler of one sealed WebSocket sends, in order: nothing at all, or one open frame
  with the host, path and sealed open message, then the browser's binary messages one data frame
  each, unchanged and in order, then at most one close frame, all under the session and stream
  id of the upgrade request. Nothing is sent for a route that is quarantined, either as it was
  when the connection was opened or in the live table.
\<close>

theorem sealed_stream_order:
  "(\<exists>n cl. frames_of (snd (serveSealedWSMux L e req route p s)) = take n (sealed_frames e req route p) @ cl
      \<and> (if n = 0 then cl = [] else True) \<and> length cl \<le> 1
      \<and> list_all (\<lambda>f. fr_typ f = muxTypeClose \<and> fr_sid f = sw_sessionID p \<and> fr_stream f = sw_streamID p) cl)
   \<and> (if quarantined (fst s) (we_live e) route then frames_of (snd (serveSealedWSMux L e req route p s)) = [] else True)"
proof -
  obtain s1 r where acq: "mux_acquire L (we_ops0 e) (we_dial e) route s = (s1, r)" by (metis surj_pair)
  show ?thesis
  proof (cases r)
    case (Inl err)
    then have "frames_of (snd (serveSealedWSMux L e req route p s)) = []" by (simp add: serveSealedWSMux_def acq)
    then show ?thesis by (intro conjI exI [of _ 0] exI [of _ "[]"]) simp_all
  next
    case (Inr c)
    with acq have acq: "mux_acquire L (we_ops0 e) (we_dial e) route s = (s1, Inr c)" by simp
    then show ?thesis
    proof (cases rule: sealed_cases [where req = req and p = p])
      case refused
      from no_frames [OF refused(3)] show ?thesis by (intro conjI exI [of _ 0] exI [of _ "[]"]) simp_all
    next
      case (relayed m ptr d host)
      let ?o = "with_conn c m (handler_run L (we_ops1 e) s1)"
      let ?s = "handler_run L (we_ops2 e) ?o" and ?pl = "encodeMuxOpen host (we_uri e) d"
      obtain s2 bevs where body: "ws_body L e route p host d c ptr ?o = (s2, bevs)" by (metis surj_pair)
      have evs: "frames_of (snd (serveSealedWSMux L e req route p s)) = frames_of bevs"
        using relayed(4) relay_simps [OF body] by simp
      have q: "quarantined (fst ?s) (we_live e) route = quarantined (fst s) (we_live e) route"
        by (rule quarantined_config) (use config_acquire [of L "we_ops0 e" "we_dial e" route s] acq in
          \<open>simp add: config_run [THEN config_eq [THEN iffD1]] config_eq\<close>)
      obtain s3 ok where send: "ws_send muxTypeOpen p ?pl c ?s = (s3, ok)" by (metis surj_pair)
      let ?p = "ws_pump L p c ptr (we_reads e) (with_conn c (upd_stream ptr pump_start (conn_at c s3)) s3)"
      have bevs: "frames_of bevs = (if quarantined (fst s) (we_live e) route then []
          else ws_frame muxTypeOpen p ?pl # (if ok then frames_of (snd ?p) else []))"
        using body by (auto simp: ws_body_def send q Let_def case_prod_unfold split: if_splits)
      obtain n cl where n: "frames_of (snd ?p) = map (ws_frame muxTypeData p) (take n (browser_messages (we_reads e))) @ cl" "closing p cl"
        using ws_pump_frames by blast
      have sealed: "sealed_frames e req route p =
          ws_frame muxTypeOpen p ?pl # map (ws_frame muxTypeData p) (browser_messages (we_reads e))"
        by (simp add: sealed_frames_def relayed(1,2))
      consider "quarantined (fst s) (we_live e) route" | "\<not> quarantined (fst s) (we_live e) route" "\<not> ok"
        | "\<not> quarantined (fst s) (we_live e) route" ok by blast
      then show ?thesis
      proof cases
        case 1
        then show ?thesis by (intro conjI exI [of _ 0] exI [of _ "[]"]) (simp_all add: evs bevs)
      next
        case 2
        then show ?thesis by (intro conjI exI [of _ 1] exI [of _ "[]"]) (simp_all add: evs bevs sealed)
      next
        case 3
        with n show ?thesis
          by (intro conjI exI [of _ "Suc n"] exI [of _ cl]) (simp_all add: evs bevs sealed closing_def take_map)
      qed
    qed
  qed
qed

text \<open>Events of the body, and the shared state along a run.\<close>

lemma pump_events:
  "WsRelease \<notin> set (snd (ws_pump L p c ptr rs s)) \<and> WsCloseNow \<notin> set (snd (ws_pump L p c ptr rs s))"
proof (induction rs arbitrary: s)
  case (Cons x rs)
  obtain ops rd where x: "x = (ops, rd)" by (cases x)
  show ?case by (cases rd) (simp_all add: x pump_error_def Let_def case_prod_unfold Cons.IH)
qed (simp add: pump_error_def Let_def)

lemma body_events:
  "WsRelease \<notin> set (snd (ws_body L e route p host d c ptr s)) \<and> WsCloseNow \<notin> set (snd (ws_body L e route p host d c ptr s))"
  by (simp add: ws_body_def Let_def case_prod_unfold pump_events)

lemma runs_next: "runs L s s' \<Longrightarrow> c < ms_next (snd s) \<Longrightarrow> c < ms_next (snd s')"
proof -
  have "c < ms_next (snd s) \<Longrightarrow> c < ms_next (snd (handler_run L ops s))" for ops
  proof (induction ops arbitrary: s)
    case (Cons op ops)
    from step_conn(1) [OF Cons.prems, of L op] Cons.prems have "c < ms_next (snd (handler_step L op s))" by (rule less_le_trans [rotated])
    from Cons.IH [OF this] show ?case by simp
  qed simp
  then show "runs L s s' \<Longrightarrow> c < ms_next (snd s) \<Longrightarrow> c < ms_next (snd s')" by (auto simp: runs_def)
qed

lemma runs_conn_ok:
  assumes "runs L s s'" and "pools_ok L s" and "c < ms_next (snd s)"
  shows "conn_ok (conn_at c s')"
proof -
  from assms(1) obtain ops where "list_all op_clean ops" "s' = handler_run L ops s" by (auto simp: runs_def)
  with pools_ok_run [OF _ assms(2)] have "pools_ok L s'" by simp
  from store_okD(2) [OF pools_okD(2) [OF this] runs_next [OF assms(1,3)]] show ?thesis by (simp add: conn_at_def)
qed

lemma leave_stream:
  assumes "conn_ok m"
  shows "st_done (mc_heap (conn_step (ActLeave ptr) m) ptr) \<and> length (st_closes (mc_heap (conn_step (ActLeave ptr) m) ptr)) = 1
    \<and> dict_get (mc_streams (conn_step (ActLeave ptr) m)) k \<noteq> Some ptr"
proof -
  let ?m = "conn_step (ActLeave ptr) m"
  have fin: "st_done (mc_heap ?m ptr)" by (simp add: unregister_True)
  moreover have "once_ok (mc_heap ?m ptr)" using mux_okD(3) [OF conn_okD [OF conn_ok_step [OF assms]]] by blast
  moreover have "dict_get (mc_streams ?m) k \<noteq> Some ptr"
    using mux_okD(2) [OF conn_okD [OF assms], of k ptr] by (auto simp: unregister_True)
  ultimately show ?thesis by (simp add: once_ok_def)
qed

text \<open>
  A sealed stream leaves nothing behind: one that is tracked is tracked under the route's host
  before anything is sent and released on every way out, and at the end its browser socket has
  been closed by \<open>finish\<close> exactly once and the connection no longer knows the stream, whatever the other
  goroutines did meanwhile; one that is not tracked sends nothing.
\<close>

theorem sealed_stream_cleanup:
  assumes "list_all op_clean ops" and "mux_clean route" and "s = handler_run L ops (initial opts)"
    and "mux_acquire L (we_ops0 e) (we_dial e) route s = (s1, Inr c)" and "list_all op_clean (we_ops e)"
    and "serveSealedWSMux L e req route p s = (s', evs)"
    and "ptr = mc_next (conn_at c (handler_run L (we_ops1 e) s1))"
  shows "if WsTrack (SNI route) KindSealedWS \<in> set evs
    then (\<exists>body. evs = [WsAccepted, WsTrack (SNI route) KindSealedWS] @ body @ [WsRelease, WsCloseNow]
        \<and> WsRelease \<notin> set body \<and> WsCloseNow \<notin> set body)
      \<and> st_done (mc_heap (conn_at c s') ptr) \<and> length (st_closes (mc_heap (conn_at c s') ptr)) = 1
      \<and> (\<forall>k. dict_get (mc_streams (conn_at c s')) k \<noteq> Some ptr)
    else (\<forall>f. WsFrame f \<notin> set evs) \<and> WsRelease \<notin> set evs"
  using assms(4)
proof (cases rule: sealed_cases [where req = req and p = p])
  case refused
  with assms(6) show ?thesis by simp
next
  case (relayed m q d host)
  have "list_all op_clean (we_ops0 e)" using assms(5) by (simp add: we_ops_def)
  note live = acquired_live [OF assms(1-4) this]
  let ?s = "handler_run L (we_ops1 e) s1"
  let ?o = "with_conn c m ?s"
  obtain s2 body where b: "ws_body L e route p host d c q ?o = (s2, body)" by (metis surj_pair)
  let ?s3 = "handler_run L (we_ops3 e) s2"
  have q: "q = ptr" using open_stream_simps [OF relayed(3)] assms(7) by simp
  have "runs L s1 ?s" using assms(5) by (intro runs_run) (simp add: we_ops_def)
  moreover have "runs L ?s ?o" using runs_conn [of L ?s c "ActRegister (ws_key p)"] relayed(3) by simp
  moreover have "runs L ?o s2" using runs_body [OF assms(5), of L ?o route p host d c q] b by simp
  moreover have "runs L s2 ?s3" using assms(5) by (intro runs_run) (simp add: we_ops_def)
  ultimately have "runs L s1 ?s3" using runs_trans by blast
  note left = leave_stream [OF runs_conn_ok [OF this live(1,2)], of ptr]
  have s': "conn_at c s' = conn_step (ActLeave ptr) (conn_at c ?s3)"
    using assms(6) relayed(4) relay_simps [OF b] q by auto
  have "st_done (mc_heap (conn_at c s') ptr) \<and> length (st_closes (mc_heap (conn_at c s') ptr)) = 1
      \<and> (\<forall>k. dict_get (mc_streams (conn_at c s')) k \<noteq> Some ptr)"
    unfolding s' using left by blast
  moreover have "evs = [WsAccepted, WsTrack (SNI route) KindSealedWS] @ body @ [WsRelease, WsCloseNow]"
    using assms(6) relayed(4) relay_simps [OF b] by simp
  moreover have "WsRelease \<notin> set body \<and> WsCloseNow \<notin> set body"
    using body_events [of L e route p host d c q ?o] b by simp
  ultimately show ?thesis by auto
qed

theorem sealed_stream_cleanup_witness:
  "\<exists>s1 s' evs. mux_acquire sample_libs [] sample_dial sample_route (handler_run sample_libs [] (initial sample_options)) = (s1, Inr 0)
    \<and> serveSealedWSMux sample_libs sample_ws sample_req sample_route sample_params
        (handler_run sample_libs [] (initial sample_options)) = (s', evs)
    \<and> (if WsTrack ''a.x'' KindSealedWS \<in> set evs then st_done (mc_heap (conn_at 0 s') (mc_next (conn_at 0 s1))) else True)"
proof -
  let ?s = "handler_run sample_libs [] (initial sample_options)"
  obtain s1 where acq: "mux_acquire sample_libs (we_ops0 sample_ws) (we_dial sample_ws) sample_route ?s = (s1, Inr 0)"
    using sample_acquire by (auto simp: sample_ws_def)
  obtain s' evs where serve: "serveSealedWSMux sample_libs sample_ws sample_req sample_route sample_params ?s = (s', evs)"
    by (metis surj_pair)
  have ops: "we_ops sample_ws = []" "we_ops0 sample_ws = []" "we_ops1 sample_ws = []" "we_dial sample_ws = sample_dial" "SNI sample_route = ''a.x''"
    by (simp_all add: we_ops_def sample_ws_def sample_route_def plain_route_def)
  have "list_all op_clean (we_ops sample_ws)" by (simp add: ops)
  from sealed_stream_cleanup [OF _ sample_route_clean(2) refl acq this serve refl] acq serve show ?thesis
    by (simp add: ops split: if_splits)
qed

end
