(* ===== verification/Reverse_Proxy.thy ===== *)
theory Reverse_Proxy
  imports Handler_Caches Response_Writer
begin

text \<open>
  What \<^verbatim>\<open>rp.ServeHTTP\<close> in \<^verbatim>\<open>internal/terminate/terminate.go\<close> does with a request and the response
  writer: the standard library's \<^verbatim>\<open>httputil.ReverseProxy\<close> with the gateway's \<open>Director\<close>,
  \<open>ModifyResponse\<close> and \<open>ErrorHandler\<close>. The exchange with the enclave is an input. Trailers are left
  out; there is no \<open>X-Forwarded-For\<close>, since a request read off the connection has no remote address.
\<close>

section \<open>The answer for an unreachable enclave\<close>

definition unreachable_body :: string where
  "unreachable_body = ''502 Bad Gateway: upstream enclave unreachable'' @ [CHR 0x0A]"

definition ErrorHandler :: "connResponseWriter \<Rightarrow> connResponseWriter" where
  "ErrorHandler w =
     (let w = w\<lparr>rw_header := h_set (rw_header w) ''Content-Type'' ''text/plain; charset=utf-8''\<rparr>;
          w = WriteHeader 502 w
      in fst (Write unreachable_body w))"

section \<open>The request towards the enclave\<close>

text \<open>
  The standard library's \<^verbatim>\<open>ReverseProxy.ServeHTTP\<close> runs the \<open>Director\<close> first and removes the
  hop-by-hop headers afterwards: those of its fixed list and every header the request's own
  \<open>Connection\<close> header names.
\<close>

definition is_ascii_space :: "char \<Rightarrow> bool" where
  "is_ascii_space c = (c \<in> {CHR 0x20, CHR 0x09, CHR 0x0A, CHR 0x0D})"

definition TrimString :: "string \<Rightarrow> string" where
  "TrimString s = rev (dropWhile is_ascii_space (rev (dropWhile is_ascii_space s)))"

definition connection_tokens :: "Header \<Rightarrow> string list" where
  "connection_tokens h = filter (\<lambda>t. t \<noteq> [])
     (concat (map (\<lambda>f. map TrimString (Split f (CHR '',''))) (h_values h ''Connection'')))"

definition hopHeaders :: "string list" where
  "hopHeaders = [''Connection'', ''Proxy-Connection'', ''Keep-Alive'', ''Proxy-Authenticate'', ''Proxy-Authorization'',
     ''Te'', ''Trailer'', ''Transfer-Encoding'', ''Upgrade'']"

definition removeHopByHopHeaders :: "Header \<Rightarrow> Header" where
  "removeHopByHopHeaders h = fold (\<lambda>k h. h_del h k) (connection_tokens h @ hopHeaders) h"

text \<open>\<^verbatim>\<open>httpguts.HeaderValuesContainsToken\<close>, case-insensitive on ASCII letters, and the upgrade type.\<close>

definition trimOWS :: "string \<Rightarrow> string" where
  "trimOWS s = (let ows = (\<lambda>c. c = CHR 0x20 \<or> c = CHR 0x09) in rev (dropWhile ows (rev (dropWhile ows s))))"

definition tokenEqual :: "string \<Rightarrow> string \<Rightarrow> bool" where
  "tokenEqual t u = (length t = length u \<and> list_all (\<lambda>c. (of_char c :: nat) < 128) t \<and> map upper_char t = map upper_char u)"

definition contains_token :: "string list \<Rightarrow> string \<Rightarrow> bool" where
  "contains_token vs tok = list_ex (\<lambda>v. list_ex (\<lambda>t. tokenEqual (trimOWS t) tok) (Split v (CHR '',''))) vs"

definition upgradeType :: "Header \<Rightarrow> string" where
  "upgradeType h = (if contains_token (h_values h ''Connection'') ''Upgrade'' then h_get h ''Upgrade'' else [])"

definition IsPrint :: "string \<Rightarrow> bool" where
  "IsPrint s = list_all (\<lambda>c. 0x20 \<le> (of_char c :: nat) \<and> (of_char c :: nat) \<le> 0x7E) s"

text \<open>
  The request sent: after the \<open>Director\<close>, whose library part is \<open>lib\<close>, and the removal, the wish for
  trailers and the upgrade are put back and an absent user agent is suppressed.
\<close>

definition forwarded_request :: "(Request \<Rightarrow> Request) \<Rightarrow> ReverseProxy \<Rightarrow> Request \<Rightarrow> Request" where
  "forwarded_request lib rp req =
     (let out = Director (rp_name rp) (lib req);
          up = upgradeType (req_Header out);
          h = removeHopByHopHeaders (req_Header out);
          h = (if contains_token (h_values (req_Header req) ''Te'') ''trailers'' then h_set h ''Te'' ''trailers'' else h);
          h = (if up \<noteq> [] then h_set (h_set h ''Connection'' ''Upgrade'') ''Upgrade'' up else h);
          h = (if dict_get h ''User-Agent'' = None then h_set h ''User-Agent'' [] else h)
      in out\<lparr>req_Header := h\<rparr>)"

section \<open>The response towards the client\<close>

text \<open>
  What the enclave does with a request: informational responses with their headers, then a failed
  round trip, a response (status, header, body as it is read, and whether it is streamed), or an
  upgrade, after which the connection belongs to the proxied WebSocket.
\<close>

datatype round_trip = RoundTripError | Responded nat Header "string list" bool | Upgraded

record exchange =
  ex_interim :: "(nat \<times> Header) list"
  ex_result :: round_trip

definition serve_interim :: "nat \<times> Header \<Rightarrow> connResponseWriter \<Rightarrow> connResponseWriter" where
  "serve_interim r w = (WriteHeader (fst r) (w\<lparr>rw_header := copyHeader (rw_header w) (snd r)\<rparr>))\<lparr>rw_header := []\<rparr>"

text \<open>The body is copied until a write fails; a streamed one is flushed after each write.\<close>

fun copy_body :: "bool \<Rightarrow> string list \<Rightarrow> connResponseWriter \<Rightarrow> connResponseWriter" where
  "copy_body streamed [] w = w"
| "copy_body streamed (p # ps) w =
     (if p = [] then copy_body streamed ps w
      else case Write p w of (w, n, ok) \<Rightarrow>
        let w = (if streamed then Flush w else w) in
        if ok \<and> n = length p then copy_body streamed ps w else w)"

definition serve_exchange :: "exchange \<Rightarrow> connResponseWriter \<Rightarrow> connResponseWriter" where
  "serve_exchange ex w0 =
     (let w = fold serve_interim (ex_interim ex) w0 in
      case ex_result ex of
        RoundTripError \<Rightarrow> ErrorHandler w
      | Upgraded \<Rightarrow> fst (Hijack w)
      | Responded code h ps streamed \<Rightarrow>
          let h = ModifyResponse (removeHopByHopHeaders h);
              w = w\<lparr>rw_header := copyHeader (rw_header w) h\<rparr>
          in copy_body streamed ps (WriteHeader code w))"

text \<open>An upgrade to a protocol that is not printable never reaches the enclave.\<close>

definition the_exchange :: "(Request \<Rightarrow> Request) \<Rightarrow> ReverseProxy \<Rightarrow> (Request \<Rightarrow> exchange) \<Rightarrow> Request \<Rightarrow> exchange" where
  "the_exchange lib rp upstream req =
     (if IsPrint (upgradeType (req_Header (Director (rp_name rp) (lib req)))) then upstream (forwarded_request lib rp req)
      else \<lparr>ex_interim = [], ex_result = RoundTripError\<rparr>)"

definition proxy_serve :: "(Request \<Rightarrow> Request) \<Rightarrow> ReverseProxy \<Rightarrow> (Request \<Rightarrow> exchange) \<Rightarrow> Request \<Rightarrow> connResponseWriter \<Rightarrow> connResponseWriter" where
  "proxy_serve lib rp upstream req w = serve_exchange (the_exchange lib rp upstream req) w"

section \<open>Headers\<close>

lemma values_removeHop:
  "h_values (removeHopByHopHeaders h) j =
     (if CanonicalHeaderKey j \<in> CanonicalHeaderKey ` set (connection_tokens h @ hopHeaders) then [] else h_values h j)"
  by (simp only: removeHopByHopHeaders_def h_values_fold_del)

lemma hop_not_edge: "''X-Privasys-Edge'' \<notin> CanonicalHeaderKey ` set hopHeaders"
  "CanonicalHeaderKey ''Connection'' = ''Connection''"
proof -
  have "list_all (\<lambda>k. CanonicalHeaderKey k \<noteq> ''X-Privasys-Edge'') hopHeaders" by code_simp
  then show "''X-Privasys-Edge'' \<notin> CanonicalHeaderKey ` set hopHeaders" by (auto simp: list_all_iff)
  show "CanonicalHeaderKey ''Connection'' = ''Connection''" by code_simp
qed

lemma forwarded_values:
  assumes "CanonicalHeaderKey k = k" "k \<notin> {''Te'', ''Connection'', ''Upgrade'', ''User-Agent''}"
  shows "h_values (req_Header (forwarded_request lib rp req)) k = h_values (removeHopByHopHeaders (req_Header (Director (rp_name rp) (lib req)))) k"
proof -
  have "CanonicalHeaderKey ''Te'' = ''Te''" "CanonicalHeaderKey ''Connection'' = ''Connection''"
    "CanonicalHeaderKey ''Upgrade'' = ''Upgrade''" "CanonicalHeaderKey ''User-Agent'' = ''User-Agent''" by code_simp+
  with assms show ?thesis by (simp add: forwarded_request_def Let_def)
qed

lemma response_keys:
  "CanonicalHeaderKey ''Content-Type'' = ''Content-Type''" "CanonicalHeaderKey ''Content-Length'' = ''Content-Length''"
  "CanonicalHeaderKey ''Transfer-Encoding'' = ''Transfer-Encoding''"
  by code_simp+

lemma unreachable_nonempty: "unreachable_body \<noteq> []"
  by (simp add: unreachable_body_def)

lemma removeHop_canonical: "canonical_header h \<Longrightarrow> canonical_header (removeHopByHopHeaders h)"
proof -
  have "canonical_header h \<Longrightarrow> canonical_header (fold (\<lambda>k h. h_del h k) ks h)" for ks h
    by (induction ks arbitrary: h) (auto intro: canonical_header_ops)
  then show "canonical_header h \<Longrightarrow> ?thesis" by (simp add: removeHopByHopHeaders_def)
qed

lemma reconcile_other:
  "CanonicalHeaderKey j \<notin> {''Access-Control-Allow-Credentials'', ''Access-Control-Allow-Origin'', ''Vary'', ''Access-Control-Expose-Headers''}
     \<Longrightarrow> h_values (reconcilePublicCORS h) j = h_values h j"
  by (simp add: reconcilePublicCORS_def Let_def)

section \<open>What is written\<close>

lemma bw_Write_healthy:
  assumes "bw_room b = None" and "\<not> bw_err b"
  shows "snd (bw_Write b p) = (length p, True)"
proof -
  have conn: "snd (conn_Write b' q) = (length q, True)" if "bw_room b' = None" for b' q
    using that by (simp add: conn_Write_def Let_def)
  have direct: "snd (bw_direct b' q) = (length q, True)" if "bw_room b' = None" for b' q
    using conn [OF that] by (simp add: bw_direct_def case_prod_unfold)
  let ?b = "b\<lparr>bw_buf := bw_buf b @ take (bufSize - length (bw_buf b)) p\<rparr>"
  have "snd (bw_Flush ?b)" "bw_room (fst (bw_Flush ?b)) = None"
    using assms conn [of ?b "bw_buf ?b"] by (simp_all add: bw_Flush_def case_prod_unfold)
  with assms direct show ?thesis by (auto simp: bw_Write_def Let_def case_prod_unfold)
qed

text \<open>What the code means to send: status, header and body of the answer to a request.\<close>

definition answer_status :: "round_trip \<Rightarrow> nat" where
  "answer_status r = (case r of Responded code _ _ _ \<Rightarrow> code | _ \<Rightarrow> 502)"

definition answer_body :: "round_trip \<Rightarrow> string list" where
  "answer_body r = (case r of Responded _ _ ps _ \<Rightarrow> filter (\<lambda>p. p \<noteq> []) ps | _ \<Rightarrow> [unreachable_body])"

definition answer_header :: "Header \<Rightarrow> round_trip \<Rightarrow> Header" where
  "answer_header inh r = (case r of
     Responded _ h _ _ \<Rightarrow> copyHeader inh (ModifyResponse (removeHopByHopHeaders h))
   | _ \<Rightarrow> h_set inh ''Content-Type'' ''text/plain; charset=utf-8'')"

definition new_writer :: "nat option \<Rightarrow> Header \<Rightarrow> connResponseWriter" where
  "new_writer room inh = (newConnResponseWriter room)\<lparr>rw_header := inh\<rparr>"

text \<open>
  \<open>same_framing w v\<close>: the writers agree on everything but the connection and its buffer, on which
  nothing failed.
\<close>

definition same_framing :: "connResponseWriter \<Rightarrow> connResponseWriter \<Rightarrow> bool" where
  "same_framing w v \<longleftrightarrow> bw_room (rw_bw v) = None \<and> rw_wroteHeader v \<and> rw_chunked v = rw_chunked w
     \<and> rw_closeRequested v = rw_closeRequested w \<and> rw_hijacked v = rw_hijacked w"

lemma Write_ok:
  assumes "carries S (rw_bw w)" and "bw_room (rw_bw w) = None" and "rw_wroteHeader w"
  shows "snd (Write p w) = (length p, True)" "same_framing w (fst (Write p w))"
proof -
  let ?b = "put_text (FormatHex (length p) @ crlf) (rw_bw w)"
  have "bw_room ?b = None" "\<not> bw_err ?b" "\<not> bw_err (rw_bw w)"
    using assms(1,2) carries_put [OF assms(1), of "FormatHex (length p) @ crlf"] by (auto simp: carries_def)
  with assms bw_Write_healthy show "snd (Write p w) = (length p, True)"
    by (simp add: Write_def ensure_header_def case_prod_unfold)
  show "same_framing w (fst (Write p w))"
    using assms Write_carries [OF assms(1,3), of p] by (simp add: same_framing_def Write_eq)
qed

lemma Flush_carries:
  assumes "carries S (rw_bw w)" and "rw_wroteHeader w" and "bw_room (rw_bw w) = None"
  shows "carries S (rw_bw (Flush w)) \<and> same_framing w (Flush w)"
  using assms carries_Flush(1) [OF assms(1)] by (simp add: Flush_def same_framing_def)

lemma copy_body_carries:
  "carries S (rw_bw w) \<Longrightarrow> rw_wroteHeader w \<Longrightarrow> bw_room (rw_bw w) = None \<Longrightarrow>
   carries (S @ concat (map (body_text (rw_chunked w)) (filter (\<lambda>p. p \<noteq> []) ps))) (rw_bw (copy_body streamed ps w))
   \<and> same_framing w (copy_body streamed ps w)"
proof (induction ps arbitrary: S w)
  case Nil
  then show ?case by (simp add: same_framing_def)
next
  case (Cons p ps)
  show ?case
  proof (cases "p = []")
    case False
    obtain w1 n ok where w: "Write p w = (w1, n, ok)" by (metis surj_pair)
    note written = Write_carries [OF Cons.prems(1,2), of p] and ok = Write_ok [OF Cons.prems(1,3,2), of p]
    let ?w = "if streamed then Flush w1 else w1"
    have w1: "carries (S @ body_text (rw_chunked w) p) (rw_bw w1)" "same_framing w w1" "n = length p" "ok"
      using written ok by (simp_all add: w)
    then have w2: "carries (S @ body_text (rw_chunked w) p) (rw_bw ?w)" "same_framing w ?w"
      using Flush_carries [of "S @ body_text (rw_chunked w) p" w1] by (auto simp: same_framing_def)
    then have "rw_wroteHeader ?w" "bw_room (rw_bw ?w) = None" "rw_chunked ?w = rw_chunked w" by (simp_all add: same_framing_def)
    from Cons.IH [OF w2(1) this(1,2)] this(3) w2(2) False w w1(3,4) show ?thesis
      by (simp add: same_framing_def Let_def)
  qed (use Cons in simp)
qed

lemma flushClose_wire:
  assumes "carries S (rw_bw w)" and "rw_wroteHeader w" and "bw_room (rw_bw w) = None"
  shows "bw_wire (rw_bw (flushClose w)) = S @ (if rw_chunked w then ''0'' @ crlf @ crlf else [])"
  using bw_wire_flushed [OF carries_put [OF assms(1), of "''0'' @ crlf @ crlf"]] bw_wire_flushed [OF assms(1,3)] assms(2,3)
  by (simp add: flushClose_def ensure_header_def Let_def)

lemma copied_wire:
  assumes "w = WriteHeader code (new_writer None inh)"
  shows "bw_wire (rw_bw (flushClose (copy_body streamed ps w))) = bw_wire (rw_bw (respond None inh code (filter (\<lambda>p. p \<noteq> []) ps)))"
    "same_framing w (copy_body streamed ps w)"
proof -
  let ?new = "new_writer None inh"
  have new: "carries [] (rw_bw ?new)" "\<not> rw_wroteHeader ?new" "bw_room (rw_bw ?new) = None" "\<not> rw_chunked ?new" "rw_header ?new = inh"
    by (simp_all add: new_writer_def newConnResponseWriter_def carries_def)
  have w: "carries (head_text code (final_header code inh)) (rw_bw w)" "rw_wroteHeader w" "bw_room (rw_bw w) = None"
    "rw_chunked w = frames code (reconcilePublicCORS inh)"
    unfolding assms using WriteHeader_carries [OF new(1,2), of code] WriteHeader_facts [OF new(2), of code] new by simp_all
  note copied = copy_body_carries [OF w(1-3), of ps streamed]
  then show "same_framing w (copy_body streamed ps w)" by blast
  from copied have "rw_wroteHeader (copy_body streamed ps w)" "bw_room (rw_bw (copy_body streamed ps w)) = None"
    "rw_chunked (copy_body streamed ps w) = rw_chunked w" by (simp_all add: same_framing_def)
  from flushClose_wire [OF conjunct1 [OF copied] this(1,2)] this(3) w(4)
  show "bw_wire (rw_bw (flushClose (copy_body streamed ps w))) = bw_wire (rw_bw (respond None inh code (filter (\<lambda>p. p \<noteq> []) ps)))"
    by (simp add: respond_wire)
qed

text \<open>The answer has no \<open>Connection\<close> header, so the gateway keeps the connection whatever the enclave asks.\<close>

lemma answer_no_connection:
  assumes "h_values inh ''Connection'' = []" and "case r of Responded _ h _ _ \<Rightarrow> canonical_header h | _ \<Rightarrow> True"
  shows "h_get (reconcilePublicCORS (answer_header inh r)) ''Connection'' = []"
proof -
  have keys: "CanonicalHeaderKey ''Connection'' = ''Connection''" by code_simp
  then have "h_values (ModifyResponse (removeHopByHopHeaders h)) ''Connection'' = []" for h
    using ModifyResponse_values [of "removeHopByHopHeaders h" "''Connection''"] values_removeHop [of h "''Connection''"]
    by (auto simp: hopHeaders_def)
  then have "h_values (answer_header inh r) ''Connection'' = []"
    using assms h_values_copyHeader [OF canonical_ModifyResponse [OF removeHop_canonical]] keys
    by (cases r) (simp_all add: answer_header_def response_keys)
  then show ?thesis using reconcile_other [of "''Connection''" "answer_header inh r"] keys by (simp add: h_get_def)
qed

text \<open>
  What the library's transport hands on: header fields under canonical names and, where a response
  to this method has a body, one of the announced length.
\<close>

definition well_delivered :: "string \<Rightarrow> round_trip \<Rightarrow> bool" where
  "well_delivered method r = (case r of
     Responded code h ps _ \<Rightarrow> canonical_header h
       \<and> (no_body method code \<or> h_values h ''Content-Length'' \<in> {[], [Itoa (length (concat ps))]})
   | _ \<Rightarrow> True)"

lemma canonical_copyHeader: "canonical_header d \<Longrightarrow> canonical_header (copyHeader d h)"
proof (induction h arbitrary: d)
  case (Cons kv h)
  have "canonical_header d \<Longrightarrow> canonical_header (fold (\<lambda>v d. h_add d k v) vs d)" for k vs d
    by (induction vs arbitrary: d) (auto intro: canonical_header_ops)
  with Cons show ?case by (cases kv) (simp add: copyHeader_def)
qed (simp add: copyHeader_def)

lemma answer_framing:
  assumes "canonical_header inh" and "h_values inh ''Transfer-Encoding'' = []" and "h_values inh ''Content-Length'' = []"
    and "well_delivered method r"
  shows "canonical_header (answer_header inh r)" "h_values (answer_header inh r) ''Transfer-Encoding'' = []"
    "no_body method (answer_status r) \<or> h_values (answer_header inh r) ''Content-Length'' \<in> {[], [Itoa (length (concat (answer_body r)))]}"
proof -
  show "canonical_header (answer_header inh r)"
    using assms(1) by (simp add: answer_header_def canonical_header_ops canonical_copyHeader split: round_trip.split)
  have hop: "h_values (ModifyResponse (removeHopByHopHeaders h)) ''Transfer-Encoding'' = []"
    "h_values (ModifyResponse (removeHopByHopHeaders h)) ''Content-Length'' \<in> {[], h_values h ''Content-Length''}" for h
    using values_removeHop [of h "''Transfer-Encoding''"] values_removeHop [of h "''Content-Length''"]
    by (auto simp: ModifyResponse_values response_keys hopHeaders_def stripped_headers_def)
  have copied: "h_values (answer_header inh (Responded code h ps st)) j = h_values inh j @ h_values (ModifyResponse (removeHopByHopHeaders h)) j"
    if "canonical_header h" for code h ps st j
    using h_values_copyHeader [OF canonical_ModifyResponse [OF removeHop_canonical [OF that]]] by (simp add: answer_header_def)
  show "h_values (answer_header inh r) ''Transfer-Encoding'' = []"
    using assms(2,4) hop(1) copied by (cases r) (auto simp: well_delivered_def answer_header_def response_keys)
  have whole: "concat (filter (\<lambda>p. p \<noteq> []) ps) = concat ps" for ps :: "string list" by (induction ps) auto
  show "no_body method (answer_status r) \<or> h_values (answer_header inh r) ''Content-Length'' \<in> {[], [Itoa (length (concat (answer_body r)))]}"
  proof (cases r)
    case (Responded code h ps st)
    with assms(3,4) copied [of h code ps st "''Content-Length''"] hop(2) [of h] show ?thesis
      by (auto simp: well_delivered_def answer_status_def answer_body_def whole)
  qed (use assms(3) in \<open>simp_all add: answer_header_def response_keys\<close>)
qed

lemma served:
  assumes "ex_interim ex = []" and "ex_result ex \<noteq> Upgraded" and "h_values inh ''Connection'' = []"
    and "case ex_result ex of Responded _ h _ _ \<Rightarrow> canonical_header h | _ \<Rightarrow> True"
  shows "bw_wire (rw_bw (flushClose (serve_exchange ex (new_writer None inh)))) =
      bw_wire (rw_bw (respond None (answer_header inh (ex_result ex)) (answer_status (ex_result ex)) (answer_body (ex_result ex))))"
    and "\<not> rw_hijacked (serve_exchange ex (new_writer None inh))"
    and "\<not> rw_closeRequested (flushClose (serve_exchange ex (new_writer None inh)))"
proof -
  let ?r = "ex_result ex"
  let ?w = "WriteHeader (answer_status ?r) (new_writer None (answer_header inh ?r))"
  obtain streamed ps where eq: "serve_exchange ex (new_writer None inh) = copy_body streamed ps ?w" "filter (\<lambda>p. p \<noteq> []) ps = answer_body ?r"
  proof (cases ?r)
    case RoundTripError
    have "serve_exchange ex (new_writer None inh) = copy_body False [unreachable_body] ?w"
      by (simp add: serve_exchange_def assms(1) RoundTripError ErrorHandler_def answer_status_def answer_header_def new_writer_def
          unreachable_nonempty case_prod_unfold Let_def)
    then show ?thesis by (rule that) (simp add: RoundTripError answer_body_def unreachable_nonempty)
  next
    case (Responded code h ps streamed)
    then show ?thesis
      using that by (simp add: serve_exchange_def assms(1) answer_status_def answer_header_def answer_body_def new_writer_def Let_def)
  qed (use assms(2) in simp)
  note wire = copied_wire [OF refl, where code = "answer_status ?r" and inh = "answer_header inh ?r" and streamed = streamed and ps = ps]
  from wire(1) eq show "bw_wire (rw_bw (flushClose (serve_exchange ex (new_writer None inh)))) =
      bw_wire (rw_bw (respond None (answer_header inh ?r) (answer_status ?r) (answer_body ?r)))" by simp
  have "\<not> rw_closeRequested ?w"
    using answer_no_connection [OF assms(3,4)] response_keys
    by (simp add: WriteHeader_def new_writer_def newConnResponseWriter_def Let_def h_get_def) code_simp
  with wire(2) eq(1) show "\<not> rw_closeRequested (flushClose (serve_exchange ex (new_writer None inh)))"
    "\<not> rw_hijacked (serve_exchange ex (new_writer None inh))"
    by (auto simp: same_framing_def flushClose_def ensure_header_def WriteHeader_def new_writer_def newConnResponseWriter_def Let_def)
qed

section \<open>Properties\<close>

text \<open>
  C22. The terminate marker reaches the enclave exactly unless the client takes it away: the
  forwarded request carries the one value \<open>terminate\<close>, whatever value the client sent, except
  that a client who names \<open>X-Privasys-Edge\<close> in its \<open>Connection\<close> header has it removed after the
  gateway set it, and the enclave sees no marker.
\<close>

theorem edge_marker_forwarded:
  "h_values (req_Header (forwarded_request lib rp req)) ''X-Privasys-Edge'' =
     (if list_ex (\<lambda>t. CanonicalHeaderKey t = ''X-Privasys-Edge'') (connection_tokens (req_Header (lib req)))
      then [] else [''terminate''])"
proof -
  let ?h = "req_Header (Director (rp_name rp) (lib req))"
  have "h_values ?h ''Connection'' = h_values (req_Header (lib req)) ''Connection''"
    "h_values ?h ''X-Privasys-Edge'' = [''terminate'']"
    using Director_values [of "rp_name rp" "lib req"] by (simp_all add: hop_not_edge(2))
  moreover have "CanonicalHeaderKey ''X-Privasys-Edge'' = ''X-Privasys-Edge''" by code_simp
  note forwarded_values [OF this, of lib rp req]
  ultimately show ?thesis
    using hop_not_edge(1)
    by (simp add: values_removeHop connection_tokens_def list_ex_iff image_Un image_iff) (metis (no_types, lifting))
qed

end
