(* ===== verification/Terminate.thy ===== *)
theory Terminate
  imports Sealed_Wire Reverse_Proxy
begin

text \<open>
  \<^verbatim>\<open>internal/terminate/terminate.go\<close>: the handler of terminated connections. \<open>Handle\<close> and the
  request loop \<open>serveHTTP\<close> take the state all connections share (the caches and the mux
  connections) and what the TLS library, the request reader, the live route table, the upstream
  and the other goroutines do, and return the state afterwards and the list of their effects in
  order. What the reverse proxy does with a request is in \<open>Reverse_Proxy\<close>.
\<close>

section \<open>The request loop\<close>

datatype term_event =
    TermInc | TermError string | TermClose
  | TermWrite string
  | TermRefused "string \<times> string"
  | TermSealed "ws_event list"
  | TermTrack string string
  | TermRelease
  | TermProxied ReverseProxy Request
  | TermResponse string

text \<open>
  One request off the connection: what other goroutines did to the shared state before it, the
  request, the live table at each of the two checks, the environment of a sealed WebSocket, how
  many bytes the connection will accept for the response, and what the reverse proxy does with
  the response writer.
\<close>

record req_env =
  re_others :: "handler_op list"
  re_req :: Request
  re_live1 :: Table
  re_live2 :: Table
  re_ws :: ws_env
  re_room :: "nat option"
  re_serve :: "Request \<Rightarrow> connResponseWriter \<Rightarrow> connResponseWriter"

definition refuseQuarantined :: "Handler \<Rightarrow> Request \<Rightarrow> Route \<Rightarrow> term_event list" where
  "refuseQuarantined h req route =
     [TermRefused (Refused (SNI route) ModeTerminate), TermWrite (WriteHTTP (Some req) (refusal_cors (h_cors h) req))]"

definition prepared :: "Route \<Rightarrow> Request \<Rightarrow> Request" where
  "prepared route req =
     req\<lparr>req_URLHost := Upstream route, req_Scheme := ''https'',
         req_Host := (if req_Host req = [] then SNI route else req_Host req)\<rparr>"

definition request_writer :: "nat option \<Rightarrow> cors \<Rightarrow> Request \<Rightarrow> connResponseWriter" where
  "request_writer room c req =
     (newConnResponseWriter room)\<lparr>rw_header := inject_cors c (h_get (req_Header req) ''Origin'')\<rparr>"

fun serveHTTP :: "'cert libs \<Rightarrow> ReverseProxy option \<Rightarrow> Route \<Rightarrow> req_env list \<Rightarrow> hstate \<Rightarrow> hstate \<times> term_event list" where
  "serveHTTP L rp route [] s = (s, [])"
| "serveHTTP L rp route (e # es) s0 =
     (let s = handler_run L (re_others e) s0;
          h = fst s;
          req = re_req e
      in
      if req_Method req = ''OPTIONS'' \<and> isAllowedOrigin (h_cors h) (h_get (req_Header req) ''Origin'')
      then (case serveHTTP L rp route es s of (s, evs) \<Rightarrow> (s, TermWrite (writeCORSPreflight req) # evs))
      else if rp = None \<or> quarantined h (re_live1 e) route then (s, refuseQuarantined h req route)
      else case parseSealedWS req of
        Some p \<Rightarrow> (case serveSealedWSMux L (re_ws e) req route p s of (s, evs) \<Rightarrow> (s, [TermSealed evs]))
      | None \<Rightarrow>
          let kind = (if EqualFold (h_get (req_Header req) ''Upgrade'') ''websocket'' then KindWebSocket else KindHTTP) in
          if quarantined h (re_live2 e) route
          then (s, [TermTrack (SNI route) kind, TermRelease] @ refuseQuarantined h req route)
          else
            let req' = prepared route req;
                w = re_serve e req' (request_writer (re_room e) (h_cors h) req);
                sent = [TermTrack (SNI route) kind, TermProxied (the rp) req', TermRelease]
            in if rw_hijacked w then (s, sent)
               else
                 let w = flushClose w;
                     sent = sent @ [TermResponse (bw_wire (rw_bw w))]
                 in if EqualFold (h_get (req_Header req) ''Connection'') ''close'' \<or> rw_closeRequested w then (s, sent)
                    else case serveHTTP L rp route es s of (s, evs) \<Rightarrow> (s, sent @ evs))"

text \<open>\<open>Handle\<close>: the shared state afterwards and the effects, the deferred close last.\<close>

definition acmeALPNProto :: string where "acmeALPNProto = ''acme-tls/1''"

record handle_env =
  he_handshake :: bool
  he_protocol :: string
  he_requests :: "req_env list"

definition Handle :: "'cert libs \<Rightarrow> handle_env \<Rightarrow> Route \<Rightarrow> hstate \<Rightarrow> hstate \<times> term_event list" where
  "Handle L e route s =
     (if \<not> he_handshake e then (s, [TermInc, TermError ''tls_handshake'', TermClose])
      else if he_protocol e = acmeALPNProto then (s, [TermInc, TermClose])
      else if Quarantined route
      then (case serveHTTP L None route (he_requests e) s of (s, evs) \<Rightarrow> (s, [TermInc] @ evs @ [TermClose]))
      else case proxyFor L route (fst s) of
        (h, Inl err) \<Rightarrow>
          ((h, snd s),
           [TermInc, TermError ''upstream_setup'', TermWrite (terminate_writeStatus 502 ''upstream RA-TLS setup failed''), TermClose])
      | (h, Inr rp) \<Rightarrow>
          (case serveHTTP L (Some rp) route (he_requests e) (h, snd s) of (s, evs) \<Rightarrow> (s, [TermInc] @ evs @ [TermClose])))"

section \<open>The request loop\<close>

lemma refuse_events [simp]:
  "TermProxied rp req \<notin> set (refuseQuarantined h q route)" "TermSealed evs \<notin> set (refuseQuarantined h q route)"
  by (simp_all add: refuseQuarantined_def)

definition is_preflight :: "cors \<Rightarrow> Request \<Rightarrow> bool" where
  "is_preflight c req = (req_Method req = ''OPTIONS'' \<and> isAllowedOrigin c (h_get (req_Header req) ''Origin''))"

lemma run_config [simp]:
  "h_cors (fst (handler_run L ops s)) = h_cors (fst s)"
  "quarantined (fst (handler_run L ops s)) live route = quarantined (fst s) live route"
  using config_run [of L ops s] quarantined_config [of "fst (handler_run L ops s)" "fst s"] by (simp_all add: config_eq)

definition request_kind :: "Request \<Rightarrow> string" where
  "request_kind req = (if EqualFold (h_get (req_Header req) ''Upgrade'') ''websocket'' then KindWebSocket else KindHTTP)"

lemma serveHTTP_step:
  "serveHTTP L rp route (e # es) s0 =
     (let s = handler_run L (re_others e) s0;
          next = serveHTTP L rp route es s;
          track = TermTrack (SNI route) (request_kind (re_req e));
          w = re_serve e (prepared route (re_req e)) (request_writer (re_room e) (h_cors (fst s0)) (re_req e))
      in
      if is_preflight (h_cors (fst s0)) (re_req e) then (fst next, TermWrite (writeCORSPreflight (re_req e)) # snd next)
      else if rp = None \<or> quarantined (fst s0) (re_live1 e) route then (s, refuseQuarantined (fst s) (re_req e) route)
      else case parseSealedWS (re_req e) of
        Some p \<Rightarrow> (fst (serveSealedWSMux L (re_ws e) (re_req e) route p s),
          [TermSealed (snd (serveSealedWSMux L (re_ws e) (re_req e) route p s))])
      | None \<Rightarrow>
          if quarantined (fst s0) (re_live2 e) route
          then (s, [track, TermRelease] @ refuseQuarantined (fst s) (re_req e) route)
          else if rw_hijacked w then (s, [track, TermProxied (the rp) (prepared route (re_req e)), TermRelease])
          else if EqualFold (h_get (req_Header (re_req e)) ''Connection'') ''close'' \<or> rw_closeRequested (flushClose w)
          then (s, [track, TermProxied (the rp) (prepared route (re_req e)), TermRelease, TermResponse (bw_wire (rw_bw (flushClose w)))])
          else (fst next, [track, TermProxied (the rp) (prepared route (re_req e)), TermRelease,
            TermResponse (bw_wire (rw_bw (flushClose w)))] @ snd next))"
  by (simp add: is_preflight_def request_kind_def Let_def case_prod_unfold split: option.split)

declare serveHTTP.simps(2) [simp del]

lemma serveHTTP_proxied:
  "TermProxied rp' req \<in> set (snd (serveHTTP L rp route es s)) \<Longrightarrow>
   \<exists>e \<in> set es. rp = Some rp' \<and> req = prepared route (re_req e) \<and> \<not> is_preflight (h_cors (fst s)) (re_req e)
     \<and> parseSealedWS (re_req e) = None \<and> \<not> quarantined (fst s) (re_live1 e) route \<and> \<not> quarantined (fst s) (re_live2 e) route"
proof (induction es arbitrary: s)
  case (Cons e es)
  note IH = Cons.IH [of "handler_run L (re_others e) s", unfolded run_config]
  from Cons.prems show ?case
    using IH by (auto simp: serveHTTP_step Let_def split: if_splits option.splits)
qed simp

text \<open>Every proxied request lies inside its own tracked interval.\<close>

datatype track_state = Untracked | Tracked | Proxied

primrec tracked_ok :: "term_event list \<Rightarrow> track_state \<Rightarrow> bool" where
  "tracked_ok [] st = (st = Untracked)"
| "tracked_ok (e # evs) st =
     (case e of
        TermTrack _ _ \<Rightarrow> st = Untracked \<and> tracked_ok evs Tracked
      | TermProxied _ _ \<Rightarrow> st = Tracked \<and> tracked_ok evs Proxied
      | TermRelease \<Rightarrow> st \<noteq> Untracked \<and> tracked_ok evs Untracked
      | _ \<Rightarrow> st = Untracked \<and> tracked_ok evs st)"

lemma serveHTTP_tracked_ok: "tracked_ok (snd (serveHTTP L rp route es s)) Untracked"
proof (induction es arbitrary: s)
  case (Cons e es)
  have refuse: "tracked_ok (refuseQuarantined h q route) Untracked" for h q
    by (simp add: refuseQuarantined_def)
  show ?case
    by (simp add: serveHTTP_step Let_def Cons.IH refuse split: option.split)
qed simp

text \<open>What a connection does to the shared state is a sequence of operations on it.\<close>

definition env_clean :: "req_env \<Rightarrow> bool" where
  "env_clean e = (list_all op_clean (re_others e) \<and> list_all op_clean (we_ops (re_ws e)))"

lemma serveHTTP_runs:
  assumes "proxy_clean route" "mux_clean route"
  shows "list_all env_clean es \<Longrightarrow> runs L s (fst (serveHTTP L rp route es s))"
proof (induction es arbitrary: s)
  case (Cons e es)
  let ?s = "handler_run L (re_others e) s"
  have first: "runs L s ?s" using Cons.prems by (intro runs_run) (simp add: env_clean_def)
  moreover have "runs L s (fst (serveHTTP L rp route es ?s))"
    using Cons by (intro runs_trans [OF first]) simp
  moreover have "runs L s (fst (serveSealedWSMux L (re_ws e) (re_req e) route p ?s))" for p
    using Cons.prems assms by (intro runs_trans [OF first] runs_serve) (simp_all add: env_clean_def)
  ultimately show ?case by (simp add: serveHTTP_step Let_def split: option.split)
qed (simp add: runs_refl)

lemma Handle_runs:
  assumes "proxy_clean route" "mux_clean route" and "list_all env_clean (he_requests e)"
  shows "runs L s (fst (Handle L e route s))"
proof -
  have proxy: "runs L s (fst (proxyFor L route (fst s)), snd s)"
    using runs_step [of "OpProxy route" L s] assms by (simp add: op_clean_def)
  obtain h r where "proxyFor L route (fst s) = (h, r)" by (cases "proxyFor L route (fst s)")
  with proxy runs_trans [OF proxy serveHTTP_runs [OF assms]] serveHTTP_runs [OF assms, of L s] show ?thesis
    by (simp add: Handle_def runs_refl case_prod_unfold split: sum.split)
qed

text \<open>Connections one after the other, each interleaved with whatever else goes on, are a run as well.\<close>

lemma connections_run:
  assumes "list_all (\<lambda>(e, r). proxy_clean r \<and> mux_clean r \<and> list_all env_clean (he_requests e)) cs"
  shows "runs L s (fold (\<lambda>(e, r) s. fst (Handle L e r s)) cs s)"
  using assms
proof (induction cs arbitrary: s)
  case (Cons c cs)
  obtain e r where c: "c = (e, r)" by (cases c)
  with Cons.prems have "runs L s (fst (Handle L e r s))" by (intro Handle_runs) simp_all
  from runs_trans [OF this] Cons c show ?case by simp
qed (simp add: runs_refl)

section \<open>Properties\<close>

text \<open>
  An enclave that cannot be reached or does not attest shows as a readable error: whatever
  CORS headers were injected, the client reads a 502 with the gateway's header fields and a
  body that decodes to the message.
\<close>

theorem unreachable_enclave_502:
  assumes "h = h_set (inject_cors c (h_get (req_Header req) ''Origin'')) ''Content-Type'' ''text/plain; charset=utf-8''"
    and "list_all field_ok (header_fields (final_header 502 h))"
  shows "\<exists>rest. read_response (bw_wire (rw_bw (flushClose (ErrorHandler (request_writer None c req))))) =
      Some (''HTTP/1.1 502 Bad Gateway'', header_fields (final_header 502 h), rest)
    \<and> read_chunked rest = Some (unreachable_body, [])"
proof -
  have "h_values h k = h_values (inject_cors c (h_get (req_Header req) ''Origin'')) k"
    if "CanonicalHeaderKey k \<noteq> ''Content-Type''" for k
    using that unfolding assms(1) by (simp add: response_keys)
  then have "frames 502 (reconcilePublicCORS h)"
    by (simp add: frames_def reconcilePublicCORS_def isPublicResponse_def publicTransportHeader_def h_get_def
        response_keys inject_cors_def)
  moreover have "flushClose (ErrorHandler (request_writer None c req)) = respond None h 502 [unreachable_body]"
    by (simp add: ErrorHandler_def request_writer_def respond_def assms(1) newConnResponseWriter_def Let_def)
  moreover have "status_line 502 = ''HTTP/1.1 502 Bad Gateway''"
    by (simp add: status_line_def StatusText_def status_texts_def Itoa_def format_base.simps digit_char_def char_of_def bit_0)
  ultimately show ?thesis
    using response_reads [OF assms(2), of "[unreachable_body]"] by (simp add: unreachable_nonempty)
qed

theorem unreachable_enclave_502_witness:
  "\<exists>rest. read_response (bw_wire (rw_bw (flushClose (ErrorHandler (request_writer None (load_origins []) sample_req))))) =
      Some (''HTTP/1.1 502 Bad Gateway'',
        [(''Content-Type'', ''text/plain; charset=utf-8''), (''Transfer-Encoding'', ''chunked'')], rest)
    \<and> read_chunked rest = Some (unreachable_body, [])"
proof -
  let ?h = "h_set (inject_cors (load_origins []) (h_get (req_Header sample_req) ''Origin'')) ''Content-Type'' ''text/plain; charset=utf-8''"
  have "header_fields (final_header 502 ?h) =
      [(''Content-Type'', ''text/plain; charset=utf-8''), (''Transfer-Encoding'', ''chunked'')]"
    "list_all field_ok (header_fields (final_header 502 ?h))" by code_simp+
  with unreachable_enclave_502 [OF refl this(2)] show ?thesis by simp
qed

lemma Handle_proxied:
  assumes "TermProxied rp req \<in> set (snd (Handle L env route s))"
  shows "\<not> Quarantined route \<and> snd (proxyFor L route (fst s)) = Inr rp
    \<and> req_URLHost req = Upstream route \<and> req_Scheme req = ''https''
    \<and> (\<exists>e \<in> set (he_requests env). req = prepared route (re_req e) \<and> \<not> quarantined (fst s) (re_live1 e) route
        \<and> \<not> quarantined (fst s) (re_live2 e) route \<and> parseSealedWS (re_req e) = None \<and> \<not> is_preflight (h_cors (fst s)) (re_req e))"
proof -
  have nq: "\<not> Quarantined route"
    using assms serveHTTP_proxied [of rp req L None route "he_requests env" s]
    by (auto simp: Handle_def case_prod_unfold split: if_splits)
  obtain h r where pf: "proxyFor L route (fst s) = (h, r)" by (cases "proxyFor L route (fst s)")
  with assms nq obtain rp' where rp': "r = Inr rp'"
      "TermProxied rp req \<in> set (snd (serveHTTP L (Some rp') route (he_requests env) (h, snd s)))"
    by (auto simp: Handle_def case_prod_unfold split: if_splits sum.splits)
  have cfg: "h_cors h = h_cors (fst s)" "quarantined h live route = quarantined (fst s) live route" for live
    using config_proxyFor [of L route "fst s"] pf quarantined_config [of h "fst s"] by (simp_all add: config_eq)
  from serveHTTP_proxied [OF rp'(2)] nq rp'(1) pf show ?thesis by (auto simp: prepared_def cfg)
qed

text \<open>
  C3. A request is forwarded to the enclave only when the route is not quarantined: neither as
  it was when the connection was opened, nor in the live table before the request is tracked,
  nor in the live table after it. A request that is forwarded is a client's, with the upstream
  as its URL host and https as its scheme, through the proxy of this route, and neither a
  preflight the gateway answers nor a sealed WebSocket.
\<close>

theorem terminate_never_reaches_quarantined:
  assumes "TermProxied rp req \<in> set (snd (Handle L env route s))"
  shows "\<not> Quarantined route \<and> snd (proxyFor L route (fst s)) = Inr rp
    \<and> req_URLHost req = Upstream route \<and> req_Scheme req = ''https''
    \<and> (\<exists>e \<in> set (he_requests env). req = prepared route (re_req e) \<and> \<not> quarantined (fst s) (re_live1 e) route
        \<and> \<not> quarantined (fst s) (re_live2 e) route \<and> parseSealedWS (re_req e) = None \<and> \<not> is_preflight (h_cors (fst s)) (re_req e))"
  using assms by (rule Handle_proxied)

definition sample_req_env :: "req_env" where
  "sample_req_env = \<lparr>re_others = [], re_req = sample_req, re_live1 = New, re_live2 = New, re_ws = sample_ws, re_room = None,
     re_serve = (\<lambda>_ w. w)\<rparr>"

lemma sample_live: "\<not> quarantined h New sample_route"
  by (simp add: quarantined_def sample_route_def plain_route_def Quarantined_def StateQuarantined_def Lookup_def New_def)

lemma sample_proxied:
  "TermProxied sample_proxy (prepared sample_route sample_req) \<in> set (snd (Handle sample_libs
       \<lparr>he_handshake = True, he_protocol = [], he_requests = [sample_req_env]\<rparr> sample_route (initial sample_options)))"
proof -
  obtain h where "proxyFor sample_libs sample_route (fst (initial sample_options)) = (h, Inr sample_proxy)"
    using sample_proxyFor by (metis handler_run_simps(1) prod.collapse)
  moreover have "parseSealedWS sample_req = None" by (simp add: parseSealedWS_def sample_req_def protocol_tokens_def)
  moreover have "\<not> is_preflight c sample_req" for c by (simp add: is_preflight_def sample_req_def)
  moreover have "\<not> Quarantined sample_route" using sample_live by (auto simp: quarantined_def)
  ultimately show ?thesis
    by (simp add: Handle_def acmeALPNProto_def serveHTTP_step sample_req_env_def sample_live Let_def)
qed

theorem terminate_never_reaches_quarantined_witness:
  "TermProxied sample_proxy (prepared sample_route sample_req) \<in> set (snd (Handle sample_libs
       \<lparr>he_handshake = True, he_protocol = [], he_requests = [sample_req_env]\<rparr> sample_route (initial sample_options)))
     \<and> \<not> Quarantined sample_route"
  using terminate_never_reaches_quarantined [OF sample_proxied] sample_proxied by blast

text \<open>
  Every request the gateway forwards on a terminated connection is tracked while it runs:
  the effects of the request loop are such that a forwarded request follows its own tracking at
  once, its release follows directly, no response is written in between, and no tracking is
  left open when the loop ends.
\<close>

theorem serveHTTP_tracks_requests:
  "tracked_ok (snd (serveHTTP L rp route es s)) Untracked"
  by (rule serveHTTP_tracked_ok)

text \<open>
  A route whose policy does not parse reaches no enclave: the client gets a 502, the
  application's proxies under earlier policies are dropped, and nothing is cached for it.
\<close>

theorem policy_error_refused:
  assumes "parsePolicy (lib_Unmarshal L) (AttestationPolicy route) = None"
    and "dict_get (h_proxies (fst s)) (proxy_app route @ hashPolicy (AttestationPolicy route)) = None"
    and "he_handshake env" and "he_protocol env \<noteq> acmeALPNProto" and "\<not> Quarantined route"
  shows "snd (Handle L env route s) =
      [TermInc, TermError ''upstream_setup'', TermWrite (terminate_writeStatus 502 ''upstream RA-TLS setup failed''), TermClose]
    \<and> {k \<in> fst ` set (h_proxies (fst (fst (Handle L env route s)))). HasPrefix k (proxy_app route)} = {}"
proof -
  have p: "proxyFor L route (fst s) =
      ((fst s)\<lparr>h_proxies := dict_drop (\<lambda>k. HasPrefix k (proxy_app route)) (h_proxies (fst s))\<rparr>, Inl ParsePolicyError)"
    using assms(1,2) by (simp add: proxyFor_eq Let_def)
  show ?thesis
    using assms(3-5) by (simp add: Handle_def p) (auto simp: fst_dict_drop)
qed

theorem policy_error_refused_witness:
  "snd (Handle sample_libs \<lparr>he_handshake = True, he_protocol = [], he_requests = [sample_req_env]\<rparr>
      ((plain_route ''a.x'' ''u1'')\<lparr>AttestationPolicy := ''{''\<rparr>) (initial sample_options)) =
    [TermInc, TermError ''upstream_setup'', TermWrite (terminate_writeStatus 502 ''upstream RA-TLS setup failed''), TermClose]"
  using policy_error_refused [of sample_libs "(plain_route ''a.x'' ''u1'')\<lparr>AttestationPolicy := ''{''\<rparr>" "initial sample_options"
      "\<lparr>he_handshake = True, he_protocol = [], he_requests = [sample_req_env]\<rparr>"]
  by (simp add: parsePolicy_def sample_libs_def initial_def New_Handler_def acmeALPNProto_def plain_route_def Quarantined_def StateQuarantined_def)

lemma inject_framing:
  "canonical_header (inject_cors c origin)" "h_values (inject_cors c origin) ''Transfer-Encoding'' = []"
  "h_values (inject_cors c origin) ''Content-Length'' = []"
proof -
  show "canonical_header (inject_cors c origin)"
    by (auto simp: inject_cors_def intro!: canonical_header_ops) (simp_all add: canonical_header_def)
  show "h_values (inject_cors c origin) ''Transfer-Encoding'' = []" "h_values (inject_cors c origin) ''Content-Length'' = []"
    by (simp_all add: inject_values response_keys)
qed

lemma inject_no_connection: "h_values (inject_cors c origin) ''Connection'' = []"
proof -
  have "CanonicalHeaderKey ''Connection'' = ''Connection''" by code_simp
  then show ?thesis by (simp add: inject_cors_def)
qed

text \<open>
  C25. From the enclave to the client, when the enclave sends no informational response and does not
  upgrade: a request that is forwarded and answered, or whose enclave cannot be reached or does not
  attest, shows on the client's connection as one response, right after the request was released
  from tracking. A client that reads by RFC 9112 gets the enclave's status, its header without
  hop-by-hop and foreign CORS fields on top of the gateway's CORS fields, and exactly the enclave's
  bytes as the body, or the gateway's 502, and is left at the first byte after the response. The
  exception are responses that have no body for the client, to a HEAD request or with a status of
  1xx, 204 or 304: the client reads the head alone, and what the writer frames behind it, which is
  at least an empty chunk when the enclave announced no length, is left in front of the next
  response. The connection then goes on with the next request unless the client asked to close
  it, whatever the enclave asked.
\<close>

theorem proxied_response_reads:
  assumes "\<not> is_preflight (h_cors (fst s)) (re_req e)" and "parseSealedWS (re_req e) = None"
    and "\<not> quarantined (fst s) (re_live1 e) route" and "\<not> quarantined (fst s) (re_live2 e) route"
    and "re_room e = None" and "re_serve e = proxy_serve lib rp upstream"
    and "ex = the_exchange lib rp upstream (prepared route (re_req e))" and "ex_interim ex = []" and "ex_result ex \<noteq> Upgraded"
    and "well_delivered (req_Method (re_req e)) (ex_result ex)"
    and "code = answer_status (ex_result ex)"
    and "h = answer_header (inject_cors (h_cors (fst s)) (h_get (req_Header (re_req e)) ''Origin'')) (ex_result ex)"
    and "list_all field_ok (header_fields (final_header code h))"
  shows "\<exists>wire. snd (serveHTTP L (Some rp) route (e # es) s) =
      [TermTrack (SNI route) (request_kind (re_req e)), TermProxied rp (prepared route (re_req e)), TermRelease, TermResponse wire]
      @ (if EqualFold (h_get (req_Header (re_req e)) ''Connection'') ''close'' then []
         else snd (serveHTTP L (Some rp) route es (handler_run L (re_others e) s)))
    \<and> client_reads (req_Method (re_req e)) (wire @ follow) =
        Some (status_line code, header_fields (final_header code h),
          (if no_body (req_Method (re_req e)) code
           then ([], framed_body code h (answer_body (ex_result ex)) @ follow)
           else (concat (answer_body (ex_result ex)), follow)))"
proof -
  let ?own = "inject_cors (h_cors (fst s)) (h_get (req_Header (re_req e)) ''Origin'')"
  let ?w = "serve_exchange ex (new_writer None ?own)"
  have "case ex_result ex of Responded _ h _ _ \<Rightarrow> canonical_header h | _ \<Rightarrow> True"
    using assms(10) by (simp add: well_delivered_def split: round_trip.splits)
  note sv = served [OF assms(8,9) inject_no_connection this]
  have body: "list_all (\<lambda>p. p \<noteq> []) (answer_body (ex_result ex))"
    by (simp add: answer_body_def list_all_iff unreachable_nonempty split: round_trip.split)
  have w: "re_serve e (prepared route (re_req e)) (request_writer (re_room e) (h_cors (fst s)) (re_req e)) = ?w"
    by (simp add: assms(5,6,7) proxy_serve_def request_writer_def new_writer_def)
  have evs: "snd (serveHTTP L (Some rp) route (e # es) s) =
      [TermTrack (SNI route) (request_kind (re_req e)), TermProxied rp (prepared route (re_req e)), TermRelease,
       TermResponse (bw_wire (rw_bw (flushClose ?w)))]
      @ (if EqualFold (h_get (req_Header (re_req e)) ''Connection'') ''close'' then []
         else snd (serveHTTP L (Some rp) route es (handler_run L (re_others e) s)))"
    using assms(1-4) sv(2,3) by (simp add: serveHTTP_step Let_def w)
  have "bw_wire (rw_bw (flushClose ?w)) = bw_wire (rw_bw (respond None h code (answer_body (ex_result ex))))"
    unfolding assms(11,12) by (rule sv(1))
  with response_client [OF assms(13) body, of "req_Method (re_req e)" follow]
    answer_framing [OF inject_framing assms(10), folded assms(11,12)] assms(12)
  have "client_reads (req_Method (re_req e)) (bw_wire (rw_bw (flushClose ?w)) @ follow) =
      Some (status_line code, header_fields (final_header code h),
        (if no_body (req_Method (re_req e)) code
         then ([], framed_body code h (answer_body (ex_result ex)) @ follow)
         else (concat (answer_body (ex_result ex)), follow)))" by simp
  with evs show ?thesis by blast
qed

definition sample_exchange :: exchange where
  "sample_exchange = \<lparr>ex_interim = [], ex_result = Responded 200 [(''Connection'', [''close'']), (''X-A'', [''1''])] [''ab'', [], ''c''] True\<rparr>"

lemma sample_answer:
  assumes "h = answer_header (inject_cors (load_origins []) []) (ex_result sample_exchange)"
  shows "header_fields (final_header 200 h) = [(''X-A'', ''1''), (''Transfer-Encoding'', ''chunked'')]"
    "list_all field_ok (header_fields (final_header 200 h))" "\<not> no_body ''GET'' 200"
    "well_delivered ''GET'' (ex_result sample_exchange)"
    "concat (answer_body (ex_result sample_exchange)) = ''abc''" "answer_status (ex_result sample_exchange) = 200"
    "ex_result sample_exchange \<noteq> Upgraded" "ex_interim sample_exchange = []" "status_line 200 = ''HTTP/1.1 200 OK''"
proof -
  have h: "h = [(''X-A'', [''1''])]" unfolding assms sample_exchange_def by code_simp
  show "header_fields (final_header 200 h) = [(''X-A'', ''1''), (''Transfer-Encoding'', ''chunked'')]"
    "list_all field_ok (header_fields (final_header 200 h))" unfolding h by code_simp+
  show "\<not> no_body ''GET'' 200" "well_delivered ''GET'' (ex_result sample_exchange)"
    unfolding sample_exchange_def by code_simp+
  show "status_line 200 = ''HTTP/1.1 200 OK''"
    by (simp add: status_line_def StatusText_def status_texts_def Itoa_def format_base.simps digit_char_def char_of_def bit_0)
qed (simp_all add: sample_exchange_def answer_body_def answer_status_def)

lemma sample_the_exchange:
  "the_exchange (\<lambda>r. r) sample_proxy (\<lambda>_. sample_exchange) (prepared sample_route sample_req) = sample_exchange"
proof -
  have "upgradeType (req_Header (Director (rp_name sample_proxy) (prepared sample_route sample_req))) = []"
    using Director_values [of "rp_name sample_proxy" "prepared sample_route sample_req" "''Connection''"] hop_not_edge(2)
    by (simp add: upgradeType_def contains_token_def prepared_def sample_req_def h_values_def dict_get_def)
  then show ?thesis by (simp add: the_exchange_def IsPrint_def)
qed

definition sample_proxied_env :: req_env where
  "sample_proxied_env = sample_req_env\<lparr>re_serve := proxy_serve (\<lambda>r. r) sample_proxy (\<lambda>_. sample_exchange)\<rparr>"

lemma sample_proxied_env_simps:
  "re_req sample_proxied_env = sample_req" "re_live1 sample_proxied_env = New" "re_live2 sample_proxied_env = New"
  "re_room sample_proxied_env = None" "re_serve sample_proxied_env = proxy_serve (\<lambda>r. r) sample_proxy (\<lambda>_. sample_exchange)"
  by (simp_all add: sample_proxied_env_def sample_req_env_def)

theorem proxied_response_reads_witness:
  "\<exists>wire. TermResponse wire \<in> set (snd (serveHTTP sample_libs (Some sample_proxy) sample_route [sample_proxied_env] (initial sample_options)))
    \<and> client_reads ''GET'' (wire @ ''HTTP'') = Some (''HTTP/1.1 200 OK'', [(''X-A'', ''1''), (''Transfer-Encoding'', ''chunked'')], ''abc'', ''HTTP'')"
proof -
  let ?s = "initial sample_options" and ?r = "ex_result sample_exchange"
  let ?h = "answer_header (inject_cors (h_cors (fst ?s)) (h_get (req_Header (re_req sample_proxied_env)) ''Origin'')) ?r"
  note env = sample_proxied_env_simps
  have "?h = answer_header (inject_cors (load_origins []) []) ?r"
    unfolding env by (simp add: initial_def New_Handler_def sample_options_def sample_req_def h_get_def h_values_def dict_get_def)
  note ans = sample_answer [OF this]
  have "parseSealedWS sample_req = None" by (simp add: parseSealedWS_def sample_req_def protocol_tokens_def)
  moreover have "\<not> is_preflight c sample_req" for c by (simp add: is_preflight_def sample_req_def)
  ultimately have pre: "parseSealedWS (re_req sample_proxied_env) = None" "\<not> is_preflight c (re_req sample_proxied_env)"
    "\<not> quarantined h' (re_live1 sample_proxied_env) sample_route" "\<not> quarantined h' (re_live2 sample_proxied_env) sample_route" for c h'
    by (simp_all add: env sample_live)
  have ex: "sample_exchange = the_exchange (\<lambda>r. r) sample_proxy (\<lambda>_. sample_exchange) (prepared sample_route (re_req sample_proxied_env))"
    unfolding env by (rule sample_the_exchange [symmetric])
  have "req_Method (re_req sample_proxied_env) = ''GET''" unfolding env by (simp add: sample_req_def)
  note get = this
  from proxied_response_reads [OF pre(2,1,3,4) env(4,5) ex ans(8,7) _ ans(6) [symmetric] refl ans(2), of sample_libs "[]" "''HTTP''", unfolded get,
      OF ans(4)] ans(3)
  have "\<exists>wire. TermResponse wire \<in> set (snd (serveHTTP sample_libs (Some sample_proxy) sample_route [sample_proxied_env] ?s))
    \<and> client_reads ''GET'' (wire @ ''HTTP'') = Some (status_line 200, header_fields (final_header 200 ?h), concat (answer_body ?r), ''HTTP'')"
    by (elim exE conjE, intro exI conjI) simp_all
  then show ?thesis unfolding ans(1,5,9) .
qed

end
