(* ===== verification/Route_Sync.thy ===== *)
theory Route_Sync
  imports Route_Table Go_Http
begin

text \<open>
  \<^verbatim>\<open>internal/sync/sync.go\<close>: the polling of the management service. One poll is a function of the
  syncer's state and of what the HTTP client and the JSON decoder return; it yields the hook calls
  of the table's update and the state changes it logs. Times are seconds, \<^term>\<open>None\<close> the zero time.
\<close>

section \<open>The syncer\<close>

datatype sync_error = RequestError | FetchError | HTTPError nat string | SyncDecodeError

record Syncer =
  sy_table :: Table
  sy_url :: string
  sy_token :: string
  sy_interval :: int
  sy_lastSync :: "int option"
  sy_lastErr :: "sync_error option"
  sy_syncCount :: int
  sy_errorCount :: int

definition New_Syncer :: "Table \<Rightarrow> string \<Rightarrow> string \<Rightarrow> int \<Rightarrow> Syncer" where
  "New_Syncer table managementURL authToken interval =
     \<lparr>sy_table = table, sy_url = managementURL @ ''/api/v1/internal/routes'', sy_token = authToken,
      sy_interval = interval, sy_lastSync = None, sy_lastErr = None, sy_syncCount = 0, sy_errorCount = 0\<rparr>"

text \<open>What the health endpoints read.\<close>

definition LastSync :: "Syncer \<Rightarrow> int option" where "LastSync s = sy_lastSync s"
definition LastError :: "Syncer \<Rightarrow> sync_error option" where "LastError s = sy_lastErr s"
definition SyncCount :: "Syncer \<Rightarrow> int" where "SyncCount s = sy_syncCount s"
definition ErrorCount :: "Syncer \<Rightarrow> int" where "ErrorCount s = sy_errorCount s"

lemmas accessor_defs = LastSync_def LastError_def SyncCount_def ErrorCount_def

definition recordError :: "sync_error \<Rightarrow> Syncer \<Rightarrow> Syncer" where
  "recordError err s = s\<lparr>sy_errorCount := sy_errorCount s + 1, sy_lastErr := Some err\<rparr>"

datatype state_change = LogQuarantined string string | LogReleased string string

text \<open>The map \<open>was\<close>: the last entry for a lower-cased name decides; a missing name reads as false.\<close>

definition was_quarantined :: "Route list \<Rightarrow> (string, bool) dict" where
  "was_quarantined before = fold (\<lambda>r m. dict_set m (ToLower (SNI r)) (Quarantined r)) before []"

definition log_change :: "(string, bool) dict \<Rightarrow> Route \<Rightarrow> state_change list" where
  "log_change was r =
     (let known = dict_get was (ToLower (SNI r));
          prev = (case known of None \<Rightarrow> False | Some b \<Rightarrow> b)
      in if Quarantined r \<and> \<not> prev then [LogQuarantined (SNI r) (Upstream r)]
         else if \<not> Quarantined r \<and> prev \<and> known \<noteq> None then [LogReleased (SNI r) (Upstream r)]
         else [])"

definition logStateChanges :: "Route list \<Rightarrow> Route list \<Rightarrow> state_change list" where
  "logStateChanges before after = concat (map (log_change (was_quarantined before)) after)"

text \<open>The request of one poll.\<close>

definition routes_request :: "Syncer \<Rightarrow> client_request" where
  "routes_request s =
     (let h = (if sy_token s \<noteq> [] then h_set [] ''Authorization'' (''Bearer '' @ sy_token s) else []);
          v = Version (sy_table s);
          h = (if v \<noteq> [] then h_set h ''If-None-Match'' ([CHR 0x22] @ v @ [CHR 0x22]) else h)
      in \<lparr>cr_method = ''GET'', cr_url = sy_url s, cr_header = h, cr_body = []\<rparr>)"

text \<open>
  What a poll meets: whether the request object could be built, the client's answer, the JSON
  decoder, and the clock.
\<close>

record RoutesResponse =
  rr_Routes :: "Route list"
  rr_Version :: string

record sync_env =
  se_newRequest :: bool
  se_do :: "client_request \<Rightarrow> client_response option"
  se_decode :: "string \<Rightarrow> RoutesResponse option"
  se_now :: int

definition fetchOnce :: "sync_env \<Rightarrow> Syncer \<Rightarrow> Syncer \<times> hook_call list \<times> state_change list" where
  "fetchOnce e s0 =
     (let s = s0\<lparr>sy_syncCount := sy_syncCount s0 + 1\<rparr> in
      if \<not> se_newRequest e then (recordError RequestError s, [], [])
      else case se_do e (routes_request s) of
        None \<Rightarrow> (recordError FetchError s, [], [])
      | Some resp \<Rightarrow>
          if rs_status resp = 304 then (s\<lparr>sy_lastSync := Some (se_now e), sy_lastErr := None\<rparr>, [], [])
          else if rs_status resp \<noteq> 200
          then (recordError (HTTPError (rs_status resp) (take 1024 (rs_body resp))) s, [], [])
          else case se_decode e (rs_body resp) of
            None \<Rightarrow> (recordError SyncDecodeError s, [], [])
          | Some rr \<Rightarrow>
              let routes = rr_Routes rr;
                  version = (if rr_Version rr = [] then ComputeVersion routes else rr_Version rr);
                  previous = Snapshot (sy_table s)
              in case Update (sy_table s) routes version of (t, changed, calls) \<Rightarrow>
                (s\<lparr>sy_table := t, sy_lastSync := Some (se_now e), sy_lastErr := None\<rparr>, calls,
                 if changed then logStateChanges previous (Snapshot t) else []))"

text \<open>
  \<open>Run\<close>: the first poll, then a ticker, which panics for an interval that is not positive
  (\<^term>\<open>None\<close>); each tick is a poll, until the context is cancelled.
\<close>

definition Syncer_Run :: "sync_env \<Rightarrow> sync_env list \<Rightarrow> Syncer \<Rightarrow> Syncer option" where
  "Syncer_Run first ticks s =
     (let s1 = fst (fetchOnce first s) in
      if sy_interval s1 \<le> 0 then None else Some (fold (\<lambda>e s. fst (fetchOnce e s)) ticks s1))"

section \<open>Lemmas\<close>

text \<open>A poll either reports an error and keeps the table, or sets the time of the last success.\<close>

definition feed_of :: "sync_env \<Rightarrow> Syncer \<Rightarrow> (Route list \<times> string) option" where
  "feed_of e s =
     (if \<not> se_newRequest e then None
      else case se_do e (routes_request (s\<lparr>sy_syncCount := sy_syncCount s + 1\<rparr>)) of
        None \<Rightarrow> None
      | Some resp \<Rightarrow> if rs_status resp = 200
          then map_option (\<lambda>rr. (rr_Routes rr, if rr_Version rr = [] then ComputeVersion (rr_Routes rr) else rr_Version rr))
              (se_decode e (rs_body resp))
          else None)"

lemma fetchOnce_feed:
  "feed_of e s = Some (rs, v) \<Longrightarrow>
     sy_table (fst (fetchOnce e s)) = fst (Update (sy_table s) rs v)
     \<and> fst (snd (fetchOnce e s)) = snd (snd (Update (sy_table s) rs v))
     \<and> snd (snd (fetchOnce e s)) = (if fst (snd (Update (sy_table s) rs v))
         then logStateChanges (Snapshot (sy_table s)) (Snapshot (fst (Update (sy_table s) rs v))) else [])
     \<and> sy_lastSync (fst (fetchOnce e s)) = Some (se_now e) \<and> sy_lastErr (fst (fetchOnce e s)) = None
     \<and> sy_errorCount (fst (fetchOnce e s)) = sy_errorCount s"
  by (auto simp: feed_of_def fetchOnce_def Let_def split: if_splits option.splits prod.splits)

lemma fetchOnce_no_feed:
  assumes "feed_of e s = None"
  shows "sy_table (fst (fetchOnce e s)) = sy_table s \<and> fst (snd (fetchOnce e s)) = [] \<and> snd (snd (fetchOnce e s)) = []
    \<and> (sy_lastErr (fst (fetchOnce e s)) = None \<and> sy_lastSync (fst (fetchOnce e s)) = Some (se_now e)
         \<and> sy_errorCount (fst (fetchOnce e s)) = sy_errorCount s
       \<or> sy_lastErr (fst (fetchOnce e s)) \<noteq> None \<and> sy_lastSync (fst (fetchOnce e s)) = sy_lastSync s
         \<and> sy_errorCount (fst (fetchOnce e s)) = sy_errorCount s + 1)"
proof (cases "se_newRequest e")
  case False
  then show ?thesis by (simp add: fetchOnce_def recordError_def Let_def)
next
  case new: True
  let ?r = "se_do e (routes_request (s\<lparr>sy_syncCount := sy_syncCount s + 1\<rparr>))"
  show ?thesis
  proof (cases ?r)
    case None
    with new show ?thesis by (simp add: fetchOnce_def recordError_def Let_def)
  next
    case (Some resp)
    show ?thesis
    proof (cases "rs_status resp = 200")
      case True
      with new Some assms have "se_decode e (rs_body resp) = None" by (simp add: feed_of_def)
      with new Some True show ?thesis by (simp add: fetchOnce_def recordError_def Let_def)
    next
      case False
      with new Some show ?thesis by (simp add: fetchOnce_def recordError_def Let_def)
    qed
  qed
qed

lemma fetchOnce_count [simp]: "sy_syncCount (fst (fetchOnce e s)) = sy_syncCount s + 1"
  by (simp add: fetchOnce_def recordError_def Let_def split: option.split prod.split)

lemma fetchOnce_config [simp]:
  "sy_url (fst (fetchOnce e s)) = sy_url s" "sy_token (fst (fetchOnce e s)) = sy_token s"
  "sy_interval (fst (fetchOnce e s)) = sy_interval s"
  by (simp_all add: fetchOnce_def recordError_def Let_def split: option.split prod.split)

section \<open>What a poll reports\<close>

text \<open>The hooks are called for a host that turns quarantined, and for a route that is retired.\<close>

lemma poll_quarantine_call:
  assumes "table_ok (sy_table s)" and "t_onQuarantine (sy_table s) = Some True"
    and "Lookup (sy_table s) h = Some old" and "\<not> Quarantined old"
    and "Lookup (sy_table (fst (fetchOnce e s))) h = Some r" and "Quarantined r"
  shows "CallQuarantine (ToLower h) \<in> set (fst (snd (fetchOnce e s)))"
proof (cases "feed_of e s")
  case None
  with fetchOnce_no_feed [OF None] assms show ?thesis by auto
next
  case (Some fd)
  then obtain rs v where "feed_of e s = Some (rs, v)" by (cases fd) auto
  note poll = fetchOnce_feed [OF this]
  have lower: "Lookup t (ToLower h) = Lookup t h" for t by (simp add: Lookup_def)
  show ?thesis
    using quarantine_call_iff [OF assms(1,2), of "ToLower h" rs v] assms(3-6) poll by (simp add: lower)
qed

lemma poll_retired_call:
  assumes "table_ok (sy_table s)" and "t_onRetired (sy_table s) = Some True"
    and "Lookup (sy_table s) h = Some old" and "retires old (Lookup (sy_table (fst (fetchOnce e s))) h)"
  shows "CallRetired old \<in> set (fst (snd (fetchOnce e s)))"
proof (cases "feed_of e s")
  case None
  with fetchOnce_no_feed [OF None] assms show ?thesis by (simp add: retires_def)
next
  case (Some fd)
  then obtain rs v where "feed_of e s = Some (rs, v)" by (cases fd) auto
  note poll = fetchOnce_feed [OF this]
  let ?u = "Update (sy_table s) rs v"
  have "ToLower h = ToLower (SNI old)" using assms(3) table_key [OF assms(1)] by (simp add: Lookup_def)
  then have same: "Lookup t (SNI old) = Lookup t h" for t by (simp add: Lookup_def)
  have "fst (snd ?u)"
  proof (rule ccontr)
    assume "\<not> fst (snd ?u)"
    then have "fst ?u = sy_table s" by (auto simp: Update_def Let_def split: if_splits prod.splits)
    with assms(3,4) poll show False by (simp add: retires_def)
  qed
  with retired_call_iff [OF assms(1,2), of old rs v] assms(3,4) poll same show ?thesis by simp
qed

lemma polls_keep:
  assumes "table_ok (sy_table s)"
  shows "table_ok (sy_table (fold (\<lambda>e s. fst (fetchOnce e s)) es s))"
    "t_onQuarantine (sy_table (fold (\<lambda>e s. fst (fetchOnce e s)) es s)) = t_onQuarantine (sy_table s)"
    "t_onRetired (sy_table (fold (\<lambda>e s. fst (fetchOnce e s)) es s)) = t_onRetired (sy_table s)"
proof -
  have "table_ok (sy_table (fst (fetchOnce e s))) \<and> t_onQuarantine (sy_table (fst (fetchOnce e s))) = t_onQuarantine (sy_table s)
      \<and> t_onRetired (sy_table (fst (fetchOnce e s))) = t_onRetired (sy_table s)" if "table_ok (sy_table s)" for e s
    using that fetchOnce_feed [of e s] fetchOnce_no_feed [of e s] by (cases "feed_of e s") (auto simp: table_ok_Update)
  then have "table_ok (sy_table s) \<Longrightarrow> table_ok (sy_table (fold (\<lambda>e s. fst (fetchOnce e s)) es s))
      \<and> t_onQuarantine (sy_table (fold (\<lambda>e s. fst (fetchOnce e s)) es s)) = t_onQuarantine (sy_table s)
      \<and> t_onRetired (sy_table (fold (\<lambda>e s. fst (fetchOnce e s)) es s)) = t_onRetired (sy_table s)" for s
    by (induction es arbitrary: s) simp_all
  with assms show "table_ok (sy_table (fold (\<lambda>e s. fst (fetchOnce e s)) es s))"
    "t_onQuarantine (sy_table (fold (\<lambda>e s. fst (fetchOnce e s)) es s)) = t_onQuarantine (sy_table s)"
    "t_onRetired (sy_table (fold (\<lambda>e s. fst (fetchOnce e s)) es s)) = t_onRetired (sy_table s)" by blast+
qed

section \<open>The abstract view\<close>

text \<open>
  What the syncer promises: the table shows the feed last accepted. The abstract state is that
  feed with its version; a poll without a feed, or with the version already shown, keeps it.
\<close>

type_synonym feed = "Route list \<times> string"

definition spec_step :: "feed option \<Rightarrow> feed option \<Rightarrow> feed option" where
  "spec_step fed shown = (case fed of
     None \<Rightarrow> shown
   | Some (rs, v) \<Rightarrow> (case shown of Some (_, v') \<Rightarrow> if v = v' then shown else fed | None \<Rightarrow> fed))"

definition table_shows :: "Table \<Rightarrow> feed option \<Rightarrow> bool" where
  "table_shows t shown \<longleftrightarrow> (case shown of
     None \<Rightarrow> t_version t = [] \<and> (\<forall>k. Lookup t k = None)
   | Some (rs, v) \<Rightarrow> t_version t = v \<and> v \<noteq> []
       \<and> (\<forall>k. Lookup t k = find (\<lambda>r. ToLower (SNI r) = ToLower k) (rev rs)))"

lemma feed_version: "feed_of e s = Some (rs, v) \<Longrightarrow> v \<noteq> []"
  by (auto simp: feed_of_def ComputeVersion_def split: if_splits option.splits)

lemma Update_version: "t_version (fst (Update t rs v)) = v"
  by (simp add: Update_def Let_def split: prod.split)

lemma table_shows_step:
  assumes "table_shows (sy_table s) shown"
  shows "table_shows (sy_table (fst (fetchOnce e s))) (spec_step (feed_of e s) shown)"
proof (cases "feed_of e s")
  case None
  with assms fetchOnce_no_feed [OF None] show ?thesis by (simp add: spec_step_def)
next
  case (Some fd)
  obtain rs v where fd: "fd = (rs, v)" by (cases fd)
  have v: "v \<noteq> []" using feed_version Some fd by blast
  have t: "sy_table (fst (fetchOnce e s)) = fst (Update (sy_table s) rs v)"
    using fetchOnce_feed Some fd by blast
  show ?thesis
  proof (cases "t_version (sy_table s) = v")
    case True
    with assms v t Some fd show ?thesis
      by (auto simp: Update_stale spec_step_def table_shows_def split: option.splits)
  next
    case False
    then have "table_shows (fst (Update (sy_table s) rs v)) (Some (rs, v))"
      using v by (simp add: table_shows_def Update_version Lookup_Update last_route_def)
    moreover from False assms have "spec_step (Some (rs, v)) shown = Some (rs, v)"
      by (auto simp: spec_step_def table_shows_def split: option.splits)
    ultimately show ?thesis using t Some fd by simp
  qed
qed

primrec poll_run :: "sync_env list \<Rightarrow> Syncer \<Rightarrow> feed option \<Rightarrow> Syncer \<times> feed option" where
  "poll_run [] s shown = (s, shown)"
| "poll_run (e # es) s shown = poll_run es (fst (fetchOnce e s)) (spec_step (feed_of e s) shown)"

lemma poll_run_shows:
  "table_shows (sy_table s) shown \<Longrightarrow> case poll_run es s shown of (s', shown') \<Rightarrow> table_shows (sy_table s') shown'"
  by (induction es arbitrary: s shown) (simp_all add: table_shows_step)

lemma poll_run_counts:
  "0 \<le> sy_errorCount s \<Longrightarrow> sy_errorCount s \<le> sy_syncCount s \<Longrightarrow>
   (sy_lastSync s \<noteq> None \<longleftrightarrow> sy_errorCount s < sy_syncCount s) \<Longrightarrow>
   case poll_run es s shown of (s', _) \<Rightarrow>
     0 \<le> sy_errorCount s' \<and> sy_errorCount s' \<le> sy_syncCount s' \<and> sy_syncCount s' = sy_syncCount s + int (length es)
     \<and> (sy_lastSync s' \<noteq> None \<longleftrightarrow> sy_errorCount s' < sy_syncCount s')"
proof (induction es arbitrary: s shown)
  case (Cons e es)
  let ?s = "fst (fetchOnce e s)"
  have "0 \<le> sy_errorCount ?s \<and> sy_errorCount ?s \<le> sy_syncCount ?s
      \<and> (sy_lastSync ?s \<noteq> None \<longleftrightarrow> sy_errorCount ?s < sy_syncCount ?s)"
  proof (cases "feed_of e s")
    case None
    with fetchOnce_no_feed [OF None] Cons.prems show ?thesis by auto
  next
    case (Some fd)
    then show ?thesis using fetchOnce_feed [of e s "fst fd" "snd fd"] Cons.prems by simp
  qed
  with Cons.IH [of ?s "spec_step (feed_of e s) shown"] show ?case by (simp split: prod.splits)
qed simp

section \<open>Logged state changes\<close>

lemma was_quarantined_get:
  assumes "table_ok t"
  shows "dict_get (was_quarantined (Snapshot t)) k =
    (if ToLower k = k then map_option Quarantined (Lookup t k) else None)"
proof -
  have get: "dict_get (was_quarantined rs) k =
      (case find (\<lambda>r. ToLower (SNI r) = k) (rev rs) of None \<Rightarrow> None | Some r \<Rightarrow> Some (Quarantined r))" for rs
    using gomap.get_fold_put [of "\<lambda>r. ToLower (SNI r)" Quarantined rs "[]" k] by (simp add: was_quarantined_def split: option.split)
  show ?thesis
  proof (cases "find (\<lambda>r. ToLower (SNI r) = k) (rev (Snapshot t))")
    case None
    then have no: "r \<in> set (Snapshot t) \<Longrightarrow> ToLower (SNI r) \<noteq> k" for r by (auto simp: find_None_iff)
    have "Lookup t k = None" if "ToLower k = k"
    proof (rule ccontr)
      assume "Lookup t k \<noteq> None"
      then obtain r where r: "Lookup t k = Some r" by blast
      with table_key [OF assms, of k r] that have "k = ToLower (SNI r)" by (simp add: Lookup_def)
      moreover from this r have "Lookup t (SNI r) = Some r" by (simp add: Lookup_def)
      with set_Snapshot [OF assms] have "r \<in> set (Snapshot t)" by blast
      ultimately show False using no by blast
    qed
    with None show ?thesis by (simp add: get)
  next
    case (Some r)
    then have r: "r \<in> set (Snapshot t)" "ToLower (SNI r) = k"
      using find_SomeD [OF Some] by simp_all
    with set_Snapshot [OF assms, of r] have "Lookup t k = Some r" by (metis Lookup_ToLower)
    with Some r show ?thesis by (auto simp: get)
  qed
qed

lemma log_change_iff:
  assumes "table_ok t"
  shows "LogQuarantined h u \<in> set (log_change (was_quarantined (Snapshot t)) r) \<longleftrightarrow>
      h = SNI r \<and> u = Upstream r \<and> Quarantined r \<and> (\<forall>o'. Lookup t (SNI r) = Some o' \<longrightarrow> \<not> Quarantined o')"
    and "LogReleased h u \<in> set (log_change (was_quarantined (Snapshot t)) r) \<longleftrightarrow>
      h = SNI r \<and> u = Upstream r \<and> \<not> Quarantined r \<and> (\<exists>o'. Lookup t (SNI r) = Some o' \<and> Quarantined o')"
  by (auto simp: log_change_def Let_def was_quarantined_get [OF assms] split: option.splits if_splits)

section \<open>Properties\<close>

text \<open>
  C16. The syncer implements its abstract contract: after any sequence of polls, successful or
  not, the route table shows exactly the feed last accepted, resolving every name to that feed's
  last entry for it up to case, and shows no route before the first one.
\<close>

theorem syncer_refines_last_feed:
  "case poll_run es (New_Syncer (OnRetired (OnQuarantine New q) r) url token interval) None of
     (s, shown) \<Rightarrow> table_shows (sy_table s) shown"
  by (rule poll_run_shows)
    (simp add: New_Syncer_def table_shows_def New_def OnQuarantine_def OnRetired_def Lookup_def)

text \<open>
  A failed poll changes nothing that routes traffic: the table, the time of the last success
  and the configuration stay, no hook is called, nothing is logged as a state change, and the
  error is counted and kept; and every poll is counted.
\<close>

theorem failed_poll_keeps_routes:
  assumes "sy_lastErr (fst (fetchOnce e s)) \<noteq> None"
  shows "sy_table (fst (fetchOnce e s)) = sy_table s \<and> snd (fetchOnce e s) = ([], [])
    \<and> sy_lastSync (fst (fetchOnce e s)) = sy_lastSync s
    \<and> sy_errorCount (fst (fetchOnce e s)) = sy_errorCount s + 1
    \<and> sy_syncCount (fst (fetchOnce e s)) = sy_syncCount s + 1"
proof (cases "feed_of e s")
  case None
  from fetchOnce_no_feed [OF None] assms show ?thesis by (auto simp: prod_eq_iff)
next
  case (Some fd)
  then show ?thesis using fetchOnce_feed [of e s "fst fd" "snd fd"] assms by simp
qed

theorem failed_poll_keeps_routes_witness:
  "sy_table (fst (fetchOnce \<lparr>se_newRequest = True, se_do = (\<lambda>_. Some \<lparr>rs_status = 500, rs_body = ''x''\<rparr>),
     se_decode = (\<lambda>_. None), se_now = 7\<rparr> (New_Syncer sample_table ''https://m'' ''t'' 5))) = sample_table"
  using failed_poll_keeps_routes [of "\<lparr>se_newRequest = True, se_do = (\<lambda>_. Some \<lparr>rs_status = 500, rs_body = ''x''\<rparr>),
     se_decode = (\<lambda>_. None), se_now = 7\<rparr>" "New_Syncer sample_table ''https://m'' ''t'' 5"]
  by (simp add: fetchOnce_def recordError_def New_Syncer_def)

text \<open>
  The log tells the truth about quarantine: between two tables it names a host as newly
  quarantined exactly when the new table quarantines it and the old one did not, and as
  released exactly when the old one did and the new one serves it without.
\<close>

theorem logStateChanges_exact:
  assumes "table_ok t" and "table_ok t'"
  shows "(LogQuarantined h u \<in> set (logStateChanges (Snapshot t) (Snapshot t')) \<longleftrightarrow>
      (\<exists>r. Lookup t' h = Some r \<and> SNI r = h \<and> Upstream r = u \<and> Quarantined r
        \<and> (\<forall>old. Lookup t h = Some old \<longrightarrow> \<not> Quarantined old)))
    \<and> (LogReleased h u \<in> set (logStateChanges (Snapshot t) (Snapshot t')) \<longleftrightarrow>
      (\<exists>r old. Lookup t' h = Some r \<and> SNI r = h \<and> Upstream r = u \<and> \<not> Quarantined r
        \<and> Lookup t h = Some old \<and> Quarantined old))"
  using set_Snapshot [OF assms(2)] log_change_iff [OF assms(1)]
  by (auto simp: logStateChanges_def)

theorem logStateChanges_exact_witness:
  "LogQuarantined ''a.X'' ''u1'' \<in> set (logStateChanges (Snapshot sample_table) (Snapshot (fst (Update sample_table
     [(plain_route ''a.X'' ''u1'')\<lparr>State := ''quarantined''\<rparr>] ''v2''))))"
proof -
  let ?r = "(plain_route ''a.X'' ''u1'')\<lparr>State := ''quarantined''\<rparr>"
  let ?t = "fst (Update sample_table [?r] ''v2'')"
  have "t_version sample_table = ''v1''" by (simp add: sample_table_def Update_version)
  then have "Lookup ?t ''a.X'' = Some ?r" by (simp add: Lookup_Update last_route_def plain_route_def)
  moreover have "Lookup sample_table ''a.X'' = Some (plain_route ''A.x'' ''u1'')"
  proof -
    have "Lookup sample_table ''a.x'' = Some (plain_route ''A.x'' ''u1'')" "ToLower ''a.X'' = ToLower ''a.x''" by code_simp+
    then show ?thesis by (simp add: Lookup_def)
  qed
  moreover have "\<not> Quarantined (plain_route ''A.x'' ''u1'')" "Quarantined ?r"
    by (simp_all add: plain_route_def Quarantined_def StateQuarantined_def)
  ultimately show ?thesis
    using logStateChanges_exact [OF sample_table_ok table_ok_Update [OF sample_table_ok], of "''a.X''" "''u1''" "[?r]" "''v2''"]
    by (simp add: plain_route_def)
qed

end
