(* ===== verification/Health.thy ===== *)
theory Health
  imports Route_Sync
begin

text \<open>
  \<^verbatim>\<open>internal/health/health.go\<close>: the health and readiness endpoints over the state of the syncer and its
  table. The time format, the texts of errors and the metrics page are the libraries'.
\<close>

section \<open>The endpoints\<close>

definition formatTime :: "(int \<Rightarrow> string) \<Rightarrow> int option \<Rightarrow> string" where
  "formatTime rfc3339 t = (case t of None \<Rightarrow> ''never'' | Some x \<Rightarrow> rfc3339 x)"

definition formatError :: "(sync_error \<Rightarrow> string) \<Rightarrow> sync_error option \<Rightarrow> string" where
  "formatError msg err = (case err of None \<Rightarrow> [] | Some x \<Rightarrow> msg x)"

datatype json_value = JString string | JNumber int

definition handleHealth ::
  "(int \<Rightarrow> string) \<Rightarrow> (sync_error \<Rightarrow> string) \<Rightarrow> Syncer \<Rightarrow> nat \<times> (string \<times> json_value) list" where
  "handleHealth rfc3339 msg s =
     (200, [(''status'', JString ''ok''), (''routes'', JNumber (int (Count (sy_table s)))),
            (''quarantined'', JNumber (int (QuarantinedCount (sy_table s)))), (''version'', JString (Version (sy_table s))),
            (''last_sync'', JString (formatTime rfc3339 (LastSync s))),
            (''last_error'', JString (formatError msg (LastError s))),
            (''syncs'', JNumber (SyncCount s)), (''errors'', JNumber (ErrorCount s))])"

definition handleReady :: "Syncer \<Rightarrow> nat \<times> (string \<times> json_value) list" where
  "handleReady s =
     (if LastSync s = None
      then (503, [(''status'', JString ''not ready''), (''reason'', JString ''no successful sync yet'')])
      else (200, [(''status'', JString ''ready'')]))"

text \<open>
  The server: the patterns it registers with the request multiplexer, which matches them exactly
  on a clean path and answers anything else with a 404.
\<close>

datatype health_handler = HealthHandler | ReadyHandler | MetricsHandler

record Server =
  hs_syncer :: Syncer
  hs_mux :: "(string, health_handler) dict"

definition New_Server :: "Syncer \<Rightarrow> Server" where
  "New_Server s =
     \<lparr>hs_syncer = s,
      hs_mux = dict_set (dict_set (dict_set [] ''/healthz'' HealthHandler) ''/readyz'' ReadyHandler) ''/metrics'' MetricsHandler\<rparr>"

datatype health_answer = AnswerJSON nat "(string \<times> json_value) list" | AnswerMetrics | AnswerNotFound

definition Server_Handler :: "(int \<Rightarrow> string) \<Rightarrow> (sync_error \<Rightarrow> string) \<Rightarrow> Server \<Rightarrow> string \<Rightarrow> health_answer" where
  "Server_Handler rfc3339 msg srv path =
     (case dict_get (hs_mux srv) path of
        Some HealthHandler \<Rightarrow> (case handleHealth rfc3339 msg (hs_syncer srv) of (status, body) \<Rightarrow> AnswerJSON status body)
      | Some ReadyHandler \<Rightarrow> (case handleReady (hs_syncer srv) of (status, body) \<Rightarrow> AnswerJSON status body)
      | Some MetricsHandler \<Rightarrow> AnswerMetrics
      | None \<Rightarrow> AnswerNotFound)"

section \<open>Properties\<close>

lemma polls_counted:
  assumes "poll_run es (New_Syncer t url token interval) shown = (s, a)"
  shows "0 \<le> sy_errorCount s \<and> sy_errorCount s \<le> sy_syncCount s \<and> sy_syncCount s = int (length es)
    \<and> (sy_lastSync s \<noteq> None \<longleftrightarrow> sy_errorCount s < sy_syncCount s)"
proof -
  have "sy_errorCount (New_Syncer t url token interval) = 0" "sy_syncCount (New_Syncer t url token interval) = 0"
    "sy_lastSync (New_Syncer t url token interval) = None" by (simp_all add: New_Syncer_def)
  with poll_run_counts [of "New_Syncer t url token interval" es shown] show ?thesis by (simp add: assms)
qed

text \<open>
  Readiness follows the first success and is never lost: after any polls the gateway reports
  ready exactly when at least one of them did not fail, and alive always, with the number of polls
  and of failures; no other path is answered but the metrics.
\<close>

theorem ready_iff_synced:
  "case poll_run es (New_Syncer t url token interval) shown of (s, _) \<Rightarrow>
     sy_syncCount s = int (length es) \<and> 0 \<le> sy_errorCount s \<and> sy_errorCount s \<le> sy_syncCount s
     \<and> (\<exists>body. Server_Handler rfc3339 msg (New_Server s) ''/readyz'' =
           AnswerJSON (if sy_errorCount s < sy_syncCount s then 200 else 503) body)
     \<and> (\<exists>body. Server_Handler rfc3339 msg (New_Server s) ''/healthz'' = AnswerJSON 200 body
           \<and> dict_get body ''syncs'' = Some (JNumber (int (length es))) \<and> dict_get body ''errors'' = Some (JNumber (sy_errorCount s))
           \<and> dict_get body ''routes'' = Some (JNumber (int (Count (sy_table s)))))
     \<and> (\<forall>path. if path \<in> {''/readyz'', ''/healthz'', ''/metrics''} then True
           else Server_Handler rfc3339 msg (New_Server s) path = AnswerNotFound)"
proof -
  obtain s a where run: "poll_run es (New_Syncer t url token interval) shown = (s, a)"
    by (cases "poll_run es (New_Syncer t url token interval) shown")
  note counts = polls_counted [OF run]
  have ready: "\<exists>body. Server_Handler rfc3339 msg (New_Server s) ''/readyz'' =
      AnswerJSON (if sy_errorCount s < sy_syncCount s then 200 else 503) body"
    using counts by (auto simp: Server_Handler_def New_Server_def handleReady_def accessor_defs)
  have "Server_Handler rfc3339 msg (New_Server s) ''/healthz'' = AnswerJSON 200 (snd (handleHealth rfc3339 msg s))"
    by (simp add: Server_Handler_def New_Server_def handleHealth_def)
  moreover have "dict_get (snd (handleHealth rfc3339 msg s)) ''syncs'' = Some (JNumber (int (length es)))"
    "dict_get (snd (handleHealth rfc3339 msg s)) ''errors'' = Some (JNumber (sy_errorCount s))"
    "dict_get (snd (handleHealth rfc3339 msg s)) ''routes'' = Some (JNumber (int (Count (sy_table s))))"
    using counts by (simp_all add: handleHealth_def dict_get_def accessor_defs)
  moreover have "path \<notin> {''/readyz'', ''/healthz'', ''/metrics''} \<Longrightarrow> Server_Handler rfc3339 msg (New_Server s) path = AnswerNotFound" for path
    by (simp add: Server_Handler_def New_Server_def)
  ultimately show ?thesis using ready counts by (simp add: run)
qed

end
