(* ===== verification/Certificates.thy ===== *)
theory Certificates
  imports Tunnel
begin

text \<open>
  \<^verbatim>\<open>internal/certloader/certloader.go\<close> and \<^verbatim>\<open>internal/certmgr/certmgr.go\<close>: the wildcard certificate
  with its reloads, and the choice of a certificate for a ClientHello. Reading the key pair,
  parsing a certificate and checking a host name against it belong to the TLS library: a load
  is its outcome, the other two are arguments.
\<close>

section \<open>The loader\<close>

record 'c Loader =
  ld_certPath :: string
  ld_keyPath :: string
  ld_cert :: "'c option"

definition reload :: "'c option \<Rightarrow> 'c Loader \<Rightarrow> 'c Loader \<times> bool" where
  "reload loaded l = (case loaded of None \<Rightarrow> (l, False) | Some cert \<Rightarrow> (l\<lparr>ld_cert := Some cert\<rparr>, True))"

definition New_Loader :: "string \<Rightarrow> string \<Rightarrow> 'c option \<Rightarrow> 'c Loader option" where
  "New_Loader certPath keyPath loaded =
     (case reload loaded \<lparr>ld_certPath = certPath, ld_keyPath = keyPath, ld_cert = None\<rparr> of
        (l, ok) \<Rightarrow> if \<not> ok then None else Some l)"

text \<open>\<open>watchSIGHUP\<close>: each signal is a reload, and a failed one is only logged.\<close>

definition watchSIGHUP :: "'c option list \<Rightarrow> 'c Loader \<Rightarrow> 'c Loader" where
  "watchSIGHUP signals l = fold (\<lambda>loaded l. fst (reload loaded l)) signals l"

definition Loader_GetCertificate :: "'c Loader \<Rightarrow> 'c option" where
  "Loader_GetCertificate l = ld_cert l"

definition Loader_TLSConfig :: tls_config where
  "Loader_TLSConfig = \<lparr>tc_NextProtos = [''http/1.1''], tc_MinVersion = VersionTLS12\<rparr>"

section \<open>The resolver\<close>

record 'c Resolver =
  rv_wildcard :: "'c Loader option"

definition New_Resolver :: "'c Loader option \<Rightarrow> 'c Resolver" where
  "New_Resolver wildcard = \<lparr>rv_wildcard = wildcard\<rparr>"

definition wildcardFor ::
  "('c \<Rightarrow> 'leaf option) \<Rightarrow> ('c \<Rightarrow> 'leaf option) \<Rightarrow> ('leaf \<Rightarrow> string \<Rightarrow> bool) \<Rightarrow> 'c Resolver \<Rightarrow> string \<Rightarrow> 'c option" where
  "wildcardFor Leaf parse VerifyHostname r name =
     (case rv_wildcard r of
        None \<Rightarrow> None
      | Some l \<Rightarrow> (case Loader_GetCertificate l of
          None \<Rightarrow> None
        | Some cert \<Rightarrow>
            if name = [] then Some cert
            else (case (case Leaf cert of Some leaf \<Rightarrow> Some leaf | None \<Rightarrow> parse cert) of
                None \<Rightarrow> None
              | Some leaf \<Rightarrow> if \<not> VerifyHostname leaf (TrimSuffix name ''.'') then None else Some cert)))"

text \<open>\<^term>\<open>None\<close> is the error that ends the handshake.\<close>

definition Resolver_GetCertificate ::
  "('c \<Rightarrow> 'leaf option) \<Rightarrow> ('c \<Rightarrow> 'leaf option) \<Rightarrow> ('leaf \<Rightarrow> string \<Rightarrow> bool) \<Rightarrow> 'c Resolver \<Rightarrow> string \<Rightarrow> 'c option" where
  "Resolver_GetCertificate Leaf parse VerifyHostname r serverName =
     (case wildcardFor Leaf parse VerifyHostname r serverName of Some cert \<Rightarrow> Some cert | None \<Rightarrow> None)"

definition Resolver_TLSConfig :: tls_config where
  "Resolver_TLSConfig = \<lparr>tc_NextProtos = [''http/1.1''], tc_MinVersion = VersionTLS12\<rparr>"

section \<open>Properties\<close>

lemma watch_cert:
  "ld_cert l = Some c \<Longrightarrow> ld_cert (watchSIGHUP signals l) = Some (last (c # List.map_filter (\<lambda>x. x) signals))"
proof (induction signals arbitrary: l c)
  case Nil
  then show ?case by (simp add: watchSIGHUP_def)
next
  case (Cons s signals)
  show ?case
  proof (cases s)
    case None
    with Cons.IH [OF Cons.prems] show ?thesis by (simp add: watchSIGHUP_def reload_def)
  next
    case (Some d)
    with Cons.IH [of "l\<lparr>ld_cert := Some d\<rparr>" d] show ?thesis by (simp add: watchSIGHUP_def reload_def)
  qed
qed

text \<open>
  Once started the gateway always has a certificate to present, whatever happens to the files
  on disk: after any sequence of reload signals, failed or not, the loader serves the pair that
  was loaded successfully last; and it does not start without one.
\<close>

theorem loader_keeps_last_certificate:
  "case New_Loader certPath keyPath loaded of
     None \<Rightarrow> loaded = None
   | Some l \<Rightarrow> (\<exists>c. loaded = Some c \<and>
       Loader_GetCertificate (watchSIGHUP signals l) = Some (last (c # List.map_filter (\<lambda>x. x) signals)))"
  using watch_cert [of _ _ signals]
  by (auto simp: New_Loader_def reload_def Loader_GetCertificate_def split: option.split)

text \<open>
  The gateway terminates TLS only for names its certificate covers: for a named client it
  presents the loaded wildcard exactly when the certificate's leaf verifies the name without its
  trailing dot, and nothing otherwise; a client without a server name gets the wildcard.
\<close>

theorem resolver_serves_covered_names:
  "Resolver_GetCertificate Leaf parse VerifyHostname r name = Some cert \<longleftrightarrow>
     (\<exists>l. rv_wildcard r = Some l \<and> Loader_GetCertificate l = Some cert
        \<and> (name = [] \<or> (\<exists>leaf. (case Leaf cert of Some x \<Rightarrow> Some x | None \<Rightarrow> parse cert) = Some leaf
             \<and> VerifyHostname leaf (TrimSuffix name ''.''))))"
  by (auto simp: Resolver_GetCertificate_def wildcardFor_def split: option.splits if_splits)

end
