(* ===== verification/Gateway_Main.thy ===== *)
theory Gateway_Main
  imports Terminate Health Certificates Proxy
begin

text \<open>
  \<^verbatim>\<open>internal/config/config.go\<close> and \<^verbatim>\<open>cmd/gateway/main.go\<close>: the configuration from flags and
  environment, and the wiring of the components: what the hooks of the route table do, and which
  tracker, dialer and registry the terminate handler, the proxy and the tunnel acceptor are given.
  Trackers and registries are objects at pointers, and a hook is a function on them. The flag library delivers parsed
  values (\<^term>\<open>None\<close> for a flag that was not given); durations are 64-bit counts of nanoseconds, as
  in Go.
\<close>

section \<open>Configuration\<close>

type_synonym Duration = "64 word"

definition seconds :: "int \<Rightarrow> Duration" where
  "seconds n = word_of_int n * 1000000000"

record Config =
  ListenAddr :: string
  HealthAddr :: string
  ManagementURL :: string
  AuthToken :: string
  PollInterval :: Duration
  DialTimeout :: Duration
  IdleTimeout :: Duration
  BufferSize :: int
  TLSCertPath :: string
  TLSKeyPath :: string
  UpstreamCA :: string
  DirectProxyProtocol :: bool
  CORSOrigins :: string
  ACMECacheDir :: string
  ACMEEmail :: string
  ACMEDirectory :: string
  Tunnels :: bool

definition envOr :: "(string \<Rightarrow> string) \<Rightarrow> string \<Rightarrow> string \<Rightarrow> string" where
  "envOr env key fallback = (if env key \<noteq> [] then env key else fallback)"

text \<open>
  \<^verbatim>\<open>fmt.Sscanf(v, "%d", &n)\<close>: blanks but no newline, an optional sign, at least one digit, and a
  value of 64 bits; what follows the digits is ignored.
\<close>

definition decimal :: "string \<Rightarrow> nat" where
  "decimal ds = foldl (\<lambda>n c. n * 10 + (of_char c - 48)) 0 ds"

definition Sscanf_d :: "string \<Rightarrow> int option" where
  "Sscanf_d v =
     (let s = TrimLeftSpace v;
          blanks = take (length v - length s) v;
          neg = (s \<noteq> [] \<and> hd s = CHR ''-'');
          s = (if s \<noteq> [] \<and> (hd s = CHR ''-'' \<or> hd s = CHR ''+'') then tl s else s);
          ds = takeWhile is_digit s;
          n = (if neg then - int (decimal ds) else int (decimal ds))
      in if CHR 0x0A \<in> set blanks \<or> ds = [] then None
         else if - (2 ^ 63) \<le> n \<and> n < 2 ^ 63 then Some n else None)"

definition envOrInt :: "(string \<Rightarrow> string) \<Rightarrow> string \<Rightarrow> int \<Rightarrow> int" where
  "envOrInt env key fallback =
     (let v = env key in
      if v = [] then fallback
      else case Sscanf_d v of Some n \<Rightarrow> n | None \<Rightarrow> fallback)"

record Flags =
  fl_string :: "string \<Rightarrow> string option"
  fl_int :: "string \<Rightarrow> int option"
  fl_bool :: "string \<Rightarrow> bool option"

definition flag_or :: "'a option \<Rightarrow> 'a \<Rightarrow> 'a" where
  "flag_or f dflt = (case f of Some v \<Rightarrow> v | None \<Rightarrow> dflt)"

datatype config_error = ManagementURLRequired | TunnelsRequireTerminate | TLSPairIncomplete

definition parsed_config :: "Flags \<Rightarrow> (string \<Rightarrow> string) \<Rightarrow> Config" where
  "parsed_config f env =
     (let str = (\<lambda>flag key dflt. flag_or (fl_string f flag) (envOr env key dflt));
          num = (\<lambda>flag key dflt. flag_or (fl_int f flag) (envOrInt env key dflt));
          sw = (\<lambda>flag key. flag_or (fl_bool f flag) (envOr env key [] = ''true''))
      in \<lparr>ListenAddr = str ''listen'' ''GATEWAY_LISTEN'' '':443'',
          HealthAddr = str ''health'' ''GATEWAY_HEALTH'' '':9090'',
          ManagementURL = str ''management-url'' ''GATEWAY_MANAGEMENT_URL'' [],
          AuthToken = str ''auth-token'' ''GATEWAY_AUTH_TOKEN'' [],
          PollInterval = seconds (num ''poll-interval'' ''GATEWAY_POLL_INTERVAL'' 5),
          DialTimeout = seconds (num ''dial-timeout'' ''GATEWAY_DIAL_TIMEOUT'' 2),
          IdleTimeout = seconds (num ''idle-timeout'' ''GATEWAY_IDLE_TIMEOUT'' 300),
          BufferSize = num ''buffer-size'' ''GATEWAY_BUFFER_SIZE'' 32768,
          TLSCertPath = str ''tls-cert'' ''GATEWAY_TLS_CERT'' [],
          TLSKeyPath = str ''tls-key'' ''GATEWAY_TLS_KEY'' [],
          UpstreamCA = str ''upstream-ca'' ''GATEWAY_UPSTREAM_CA'' [],
          DirectProxyProtocol = sw ''direct-proxy-protocol'' ''GATEWAY_DIRECT_PROXY_PROTOCOL'',
          CORSOrigins = str ''cors-origins'' ''GATEWAY_CORS_ORIGINS'' [],
          ACMECacheDir = str ''acme-cache'' ''GATEWAY_ACME_CACHE'' [],
          ACMEEmail = str ''acme-email'' ''GATEWAY_ACME_EMAIL'' [],
          ACMEDirectory = str ''acme-directory'' ''GATEWAY_ACME_DIRECTORY'' [],
          Tunnels = sw ''tunnels'' ''GATEWAY_TUNNELS''\<rparr>)"

definition Load :: "Flags \<Rightarrow> (string \<Rightarrow> string) \<Rightarrow> config_error + Config" where
  "Load f env =
     (let cfg = parsed_config f env in
      if ManagementURL cfg = [] then Inl ManagementURLRequired
      else if Tunnels cfg \<and> TLSCertPath cfg = [] then Inl TunnelsRequireTerminate
      else if (TLSCertPath cfg = []) \<noteq> (TLSKeyPath cfg = []) then Inl TLSPairIncomplete
      else Inr cfg)"

section \<open>The entry point\<close>

definition splitAndTrim :: "string \<Rightarrow> string list" where
  "splitAndTrim s = (if s = [] then [] else filter (\<lambda>p. p \<noteq> []) (map TrimSpace (Split s (CHR '',''))))"

datatype fatal = FatalConfig config_error | FatalCertificate | FatalReadCA | FatalParseCA

text \<open>What the file system and the TLS library return while the process starts.\<close>

record main_env =
  me_loadCert :: bool
  me_readCA :: bool
  me_parseCA :: bool
  me_selfSigned :: bool

text \<open>
  The objects of the process: the trackers and the registries, allocated at pointers, and the
  terminate handler with its caches and mux connections.
\<close>

record 'c world =
  wd_trackers :: "nat \<Rightarrow> 'c Tracker"
  wd_trackerNext :: nat
  wd_registryNext :: nat
  wd_handler :: "hstate option"

definition new_world :: "'c world" where
  "new_world = \<lparr>wd_trackers = (\<lambda>_. NewTracker), wd_trackerNext = 0, wd_registryNext = 0, wd_handler = None\<rparr>"

definition new_tracker :: "'c world \<Rightarrow> nat \<times> 'c world" where
  "new_tracker W = (wd_trackerNext W,
     W\<lparr>wd_trackers := (wd_trackers W)(wd_trackerNext W := NewTracker), wd_trackerNext := wd_trackerNext W + 1\<rparr>)"

definition new_registry :: "'c world \<Rightarrow> nat \<times> 'c world" where
  "new_registry W = (wd_registryNext W, W\<lparr>wd_registryNext := wd_registryNext W + 1\<rparr>)"

text \<open>The two functions \<open>main\<close> registers with the route table.\<close>

definition cut_hook :: "nat \<Rightarrow> string \<Rightarrow> 'c world \<Rightarrow> 'c world" where
  "cut_hook tracker host W =
     (case CutHost (Some (wd_trackers W tracker)) host of
        (Some t, _) \<Rightarrow> W\<lparr>wd_trackers := (wd_trackers W)(tracker := t)\<rparr>
      | (None, _) \<Rightarrow> W)"

definition forget_hook :: "Route \<Rightarrow> 'c world \<Rightarrow> 'c world" where
  "forget_hook route W = W\<lparr>wd_handler := map_option (\<lambda>th. fst (Forget route th)) (wd_handler W)\<rparr>"

record 'c wiring =
  w_world :: "'c world"
  w_table :: Table
  w_onQuarantine :: "(string \<Rightarrow> 'c world \<Rightarrow> 'c world) option"
  w_onRetired :: "(Route \<Rightarrow> 'c world \<Rightarrow> 'c world) option"
  w_syncer :: Syncer
  w_health :: Server
  w_handler :: "Options option"
  w_acceptor :: "(tls_config \<times> nat) option"
  w_gateway :: Gateway

text \<open>
  The terminate part: the handler's options, and the acceptor's configuration with the registry it
  registers sessions in.
\<close>

definition wire_terminate :: "main_env \<Rightarrow> Config \<Rightarrow> nat \<Rightarrow> nat \<Rightarrow> fatal + (Options \<times> (tls_config \<times> nat) option)" where
  "wire_terminate e cfg tracker tunnels =
     (if \<not> me_loadCert e then Inl FatalCertificate
      else if UpstreamCA cfg \<noteq> [] \<and> \<not> me_readCA e then Inl FatalReadCA
      else if UpstreamCA cfg \<noteq> [] \<and> \<not> me_parseCA e then Inl FatalParseCA
      else
        let caPool = (UpstreamCA cfg \<noteq> []) in
        Inr (\<lparr>o_DialTimeout = sint (DialTimeout cfg), o_IdleTimeout = sint (IdleTimeout cfg), o_CACertPool = caPool, o_InsecureSkip = \<not> caPool,
              o_CORSOrigins = splitAndTrim (CORSOrigins cfg), o_Lookup = True, o_Tracker = Some tracker,
              o_Dial = Some (DialRegistry tunnels)\<rparr>,
             if Tunnels cfg then Some (NewAcceptor Resolver_TLSConfig, tunnels) else None))"

text \<open>\<open>main\<close> up to the start of the servers; the syncer, the health server and the gateway are built last.\<close>

definition wire_process :: "main_env \<Rightarrow> Config \<Rightarrow> 'c world \<Rightarrow> nat \<Rightarrow> nat \<Rightarrow> Table \<Rightarrow> (Route \<Rightarrow> 'c world \<Rightarrow> 'c world) option
     \<Rightarrow> Options option \<Rightarrow> (tls_config \<times> nat) option \<Rightarrow> 'c wiring" where
  "wire_process e cfg W tracker tunnels table onRetired terminator acceptor =
     (let syncer = New_Syncer table (ManagementURL cfg) (AuthToken cfg) (sint (PollInterval cfg));
          gw = New_Gateway (ListenAddr cfg) (sint (DialTimeout cfg)) (sint (IdleTimeout cfg)) (BufferSize cfg)
            (terminator \<noteq> None) (me_selfSigned e);
          gw = SetDialer (DialRegistry tunnels) (SetTracker tracker gw);
          gw = (if acceptor \<noteq> None then SetTunnelAcceptor gw else gw)
      in \<lparr>w_world = W\<lparr>wd_handler := map_option initial terminator\<rparr>, w_table = table, w_onQuarantine = Some (cut_hook tracker),
          w_onRetired = onRetired, w_syncer = syncer, w_health = New_Server syncer, w_handler = terminator, w_acceptor = acceptor,
          w_gateway = gw\<rparr>)"

definition main :: "main_env \<Rightarrow> Flags \<Rightarrow> (string \<Rightarrow> string) \<Rightarrow> fatal + 'c wiring" where
  "main e f env =
     (case Load f env of
        Inl err \<Rightarrow> Inl (FatalConfig err)
      | Inr cfg \<Rightarrow>
          (case new_tracker new_world of (tracker, W) \<Rightarrow> case new_registry W of (tunnels, W) \<Rightarrow>
           let table = OnQuarantine New True
           in if TLSCertPath cfg \<noteq> [] then
                (case wire_terminate e cfg tracker tunnels of
                   Inl err \<Rightarrow> Inl err
                 | Inr (opts, acceptor) \<Rightarrow>
                     Inr (wire_process e cfg W tracker tunnels (OnRetired table True) (Some forget_hook) (Some opts) acceptor))
              else Inr (wire_process e cfg W tracker tunnels table None None None)))"

text \<open>What a call of the route table does in the running process.\<close>

definition run_call :: "'c wiring \<Rightarrow> hook_call \<Rightarrow> 'c world \<Rightarrow> 'c world" where
  "run_call w hc W =
     (case hc of
        CallQuarantine host \<Rightarrow> (case w_onQuarantine w of None \<Rightarrow> W | Some fn \<Rightarrow> fn host W)
      | CallRetired route \<Rightarrow> (case w_onRetired w of None \<Rightarrow> W | Some fn \<Rightarrow> fn route W))"

section \<open>The hooks at work\<close>

lemma cut_hook_eq: "cut_hook tr host W = W\<lparr>wd_trackers := (wd_trackers W)(tr := cut_state (wd_trackers W tr) host)\<rparr>"
proof -
  obtain res where "CutHost (Some (wd_trackers W tr)) host = (Some (cut_state (wd_trackers W tr) host), res)"
    using CutHost_Some [of "wd_trackers W tr" host] by (metis prod.collapse)
  then show ?thesis by (simp add: cut_hook_def)
qed

lemma forget_hook_simps [simp]:
  "wd_trackers (forget_hook r W) = wd_trackers W" "wd_handler (forget_hook r W) = map_option (\<lambda>th. fst (Forget r th)) (wd_handler W)"
  by (simp_all add: forget_hook_def)

text \<open>What a call removed stays removed by the later ones.\<close>

lemma run_calls_cut:
  assumes "w_onQuarantine w = Some (cut_hook tr)" and "w_onRetired w \<in> {None, Some forget_hook}"
  shows "(\<exists>g. CallQuarantine g \<in> set calls \<and> ToLower g = h) \<or> entry (wd_trackers W tr) h i = None \<Longrightarrow>
    entry (wd_trackers (fold (run_call w) calls W) tr) h i = None"
proof (induction calls arbitrary: W)
  case (Cons hc calls)
  have "(\<exists>g. CallQuarantine g \<in> set calls \<and> ToLower g = h) \<or> entry (wd_trackers (run_call w hc W) tr) h i = None"
    using Cons.prems assms by (cases hc) (auto simp: run_call_def cut_hook_eq entry_cut)
  from Cons.IH [OF this] show ?case by simp
qed simp

definition forgotten :: "Route \<Rightarrow> hstate \<Rightarrow> bool" where
  "forgotten r th \<longleftrightarrow> (\<forall>k. (HasPrefix k (proxy_app r) \<longrightarrow> dict_get (h_proxies (fst th)) k = None)
     \<and> (HasPrefix k (mux_app r) \<longrightarrow> dict_get (h_muxPools (fst th)) k = None))"

lemma run_calls_forget:
  assumes "w_onQuarantine w = Some (cut_hook tr)" and "w_onRetired w = Some forget_hook"
  shows "wd_handler W = Some th \<Longrightarrow> CallRetired r \<in> set calls \<or> forgotten r th \<Longrightarrow>
    \<exists>th'. wd_handler (fold (run_call w) calls W) = Some th' \<and> forgotten r th'"
proof (induction calls arbitrary: W th)
  case (Cons hc calls)
  have "\<exists>th'. wd_handler (run_call w hc W) = Some th' \<and> (CallRetired r \<in> set calls \<or> forgotten r th')"
    using Cons.prems assms by (cases hc) (auto simp: run_call_def cut_hook_eq forgotten_def Forget_eq)
  then obtain th' where th': "wd_handler (run_call w hc W) = Some th'" "CallRetired r \<in> set calls \<or> forgotten r th'" by blast
  from Cons.IH [OF th'] show ?case by simp
qed simp

section \<open>Properties\<close>

lemma Load_cases:
  "Load f env = Inr cfg \<Longrightarrow> cfg = parsed_config f env \<and> ManagementURL cfg \<noteq> []
     \<and> (TLSCertPath cfg = [] \<longleftrightarrow> TLSKeyPath cfg = []) \<and> \<not> (Tunnels cfg \<and> TLSCertPath cfg = [])"
  by (auto simp: Load_def Let_def split: if_splits)

text \<open>
  A configuration that loads is usable: it names a management service, has both halves of the
  TLS pair or neither, and enables tunnels only with terminate mode; one that does not load
  violates the rule its error names. Flags win over the environment, and the environment over
  the defaults.
\<close>

theorem Load_exact:
  "(case Load f env of
      Inr cfg \<Rightarrow> cfg = parsed_config f env \<and> ManagementURL cfg \<noteq> []
        \<and> (TLSCertPath cfg = [] \<longleftrightarrow> TLSKeyPath cfg = []) \<and> \<not> (Tunnels cfg \<and> TLSCertPath cfg = [])
    | Inl ManagementURLRequired \<Rightarrow> ManagementURL (parsed_config f env) = []
    | Inl TunnelsRequireTerminate \<Rightarrow> Tunnels (parsed_config f env) \<and> TLSCertPath (parsed_config f env) = []
    | Inl TLSPairIncomplete \<Rightarrow> (TLSCertPath (parsed_config f env) = []) \<noteq> (TLSKeyPath (parsed_config f env) = []))
   \<and> TLSCertPath (parsed_config f env) =
       (case fl_string f ''tls-cert'' of Some v \<Rightarrow> v | None \<Rightarrow> env ''GATEWAY_TLS_CERT'')"
proof (rule conjI)
  show "TLSCertPath (parsed_config f env) =
      (case fl_string f ''tls-cert'' of Some v \<Rightarrow> v | None \<Rightarrow> env ''GATEWAY_TLS_CERT'')"
    by (simp add: parsed_config_def Let_def flag_or_def envOr_def split: option.split)
qed (auto simp: Load_def Let_def)

text \<open>What the process consists of once \<open>main\<close> has wired it.\<close>

lemma wire_process_simps [simp]:
  "w_table (wire_process e cfg W tr rg t ret th acc) = t" "w_onQuarantine (wire_process e cfg W tr rg t ret th acc) = Some (cut_hook tr)"
  "w_onRetired (wire_process e cfg W tr rg t ret th acc) = ret" "sy_table (w_syncer (wire_process e cfg W tr rg t ret th acc)) = t"
  "w_handler (wire_process e cfg W tr rg t ret th acc) = th" "w_acceptor (wire_process e cfg W tr rg t ret th acc) = acc"
  "wd_handler (w_world (wire_process e cfg W tr rg t ret th acc)) = map_option initial th"
  "g_tracker (w_gateway (wire_process e cfg W tr rg t ret th acc)) = Some tr"
  "g_dial (w_gateway (wire_process e cfg W tr rg t ret th acc)) = DialRegistry rg"
  "g_tunnels (w_gateway (wire_process e cfg W tr rg t ret th acc)) = (acc \<noteq> None)"
  "g_terminator (w_gateway (wire_process e cfg W tr rg t ret th acc)) = (th \<noteq> None)"
  by (simp_all add: wire_process_def Let_def New_Syncer_def New_Gateway_def SetDialer_def SetTracker_def SetTunnelAcceptor_def)

lemma wire_terminate_Inr:
  assumes "wire_terminate e cfg tr rg = Inr (opts, acc)"
  shows "h_tracker (New_Handler opts) = Some tr" "h_dial (New_Handler opts) = DialRegistry rg" "h_lookup (New_Handler opts)"
    "h_insecureSkip (New_Handler opts) = (UpstreamCA cfg = [])" "h_caCertPool (New_Handler opts) = (UpstreamCA cfg \<noteq> [])"
    "acc = (if Tunnels cfg then Some (NewAcceptor Resolver_TLSConfig, rg) else None)"
  using assms by (auto simp: wire_terminate_def New_Handler_def Let_def split: if_splits)

lemma main_cases:
  fixes w :: "'c wiring"
  assumes "main e f env = Inr w" and "Load f env = Inr cfg"
  obtains (spliced) W tr rg where "TLSCertPath cfg = []" "\<not> Tunnels cfg"
      "w = wire_process e cfg W tr rg (OnQuarantine New True) None None None"
  | (terminated) W tr rg opts acc where "TLSCertPath cfg \<noteq> []" "wire_terminate e cfg tr rg = Inr (opts, acc)"
      "w = wire_process e cfg W tr rg (OnRetired (OnQuarantine New True) True) (Some forget_hook) (Some opts) acc"
proof -
  obtain tr W rg W' where new: "new_tracker (new_world :: 'c world) = (tr, W)" "new_registry W = (rg, W')" by (metis surj_pair)
  show ?thesis
  proof (cases "TLSCertPath cfg = []")
    case True
    with assms Load_cases [OF assms(2)] show ?thesis by (intro spliced [of W' tr rg]) (auto simp: main_def new)
  next
    case False
    with assms show ?thesis by (auto simp: main_def new intro: terminated split: sum.splits)
  qed
qed

lemma hooks_set:
  "table_ok (OnQuarantine New True)" "table_ok (OnRetired (OnQuarantine New True) True)"
  "t_onQuarantine (OnQuarantine New True) = Some True" "t_onRetired (OnQuarantine New True) = None"
  "t_onQuarantine (OnRetired (OnQuarantine New True) True) = Some True" "t_onRetired (OnRetired (OnQuarantine New True) True) = Some True"
  by (simp_all add: table_ok_New) (simp_all add: OnRetired_def OnQuarantine_def New_def)

lemma poll_cuts:
  assumes "table_ok (w_table w)" and "t_onQuarantine (w_table w) = Some True" and "sy_table (w_syncer w) = w_table w"
    and "w_onQuarantine w = Some (cut_hook tr)" and "w_onRetired w \<in> {None, Some forget_hook}"
    and "s = fold (\<lambda>e s. fst (fetchOnce e s)) polls (w_syncer w)" and "Lookup (sy_table s) h = Some old" and "\<not> Quarantined old"
    and "Lookup (sy_table (fst (fetchOnce poll s))) h = Some r" and "Quarantined r"
  shows "entry (wd_trackers (fold (run_call w) (fst (snd (fetchOnce poll s))) W) tr) (ToLower h) i = None"
proof -
  have "table_ok (sy_table s)" "t_onQuarantine (sy_table s) = Some True"
    using polls_keep(1,2) [of "w_syncer w" polls] assms(1-3,6) by simp_all
  from poll_quarantine_call [OF this assms(7-10)] have "\<exists>g. CallQuarantine g \<in> set (fst (snd (fetchOnce poll s))) \<and> ToLower g = ToLower h"
    by (intro exI [of _ "ToLower h"]) simp
  with run_calls_cut [OF assms(4,5)] show ?thesis by blast
qed

lemma poll_forgets:
  assumes "table_ok (w_table w)" and "t_onRetired (w_table w) = Some True" and "sy_table (w_syncer w) = w_table w"
    and "w_onQuarantine w = Some (cut_hook tr)" and "w_onRetired w = Some forget_hook"
    and "s = fold (\<lambda>e s. fst (fetchOnce e s)) polls (w_syncer w)" and "wd_handler W = Some th"
    and "Lookup (sy_table s) h = Some old" and "retires old (Lookup (sy_table (fst (fetchOnce poll s))) h)"
  shows "\<exists>th'. wd_handler (fold (run_call w) (fst (snd (fetchOnce poll s))) W) = Some th' \<and> forgotten old th'"
proof -
  have "table_ok (sy_table s)" "t_onRetired (sy_table s) = Some True"
    using polls_keep(1,3) [of "w_syncer w" polls] assms(1-3,6) by simp_all
  from run_calls_forget [OF assms(4,5,7)] poll_retired_call [OF this assms(8,9)] show ?thesis by blast
qed

text \<open>
  C38. The parts are connected so that the guarantees of each hold of the running process, in every
  state it can be in and after any sequence of polls. A poll that turns a served host into a
  quarantined one leaves nothing open for it in the one tracker that both the splices and the
  terminated requests and streams are registered with; a poll that retires a route leaves the
  terminate handler, which exists exactly when a certificate is configured, without a cached proxy
  or mux pool of it; tunnels are accepted exactly when configured, over TLS 1.3 with the tunnel
  protocol only, into the one registry from which both the splices and the terminate handler dial;
  and an enclave's chain goes unverified exactly when no CA bundle is configured.
\<close>

theorem main_wiring:
  assumes "main e f env = Inr w" and "Load f env = Inr cfg" and "s = fold (\<lambda>e s. fst (fetchOnce e s)) polls (w_syncer w)"
    and "W' = fold (run_call w) (fst (snd (fetchOnce poll s))) W" and "t' = sy_table (fst (fetchOnce poll s))"
  shows "(\<exists>tr. g_tracker (w_gateway w) = Some tr
       \<and> (\<forall>opts. w_handler w = Some opts \<longrightarrow> h_tracker (New_Handler opts) = Some tr)
       \<and> (\<forall>h old r i. Lookup (sy_table s) h = Some old \<and> \<not> Quarantined old \<and> Lookup t' h = Some r \<and> Quarantined r
            \<longrightarrow> entry (wd_trackers W' tr) (ToLower h) i = None))
    \<and> (\<forall>h old th. TLSCertPath cfg \<noteq> [] \<and> wd_handler W = Some th \<and> Lookup (sy_table s) h = Some old \<and> retires old (Lookup t' h)
         \<longrightarrow> (\<exists>th'. wd_handler W' = Some th' \<and> (\<forall>k. (HasPrefix k (proxy_app old) \<longrightarrow> dict_get (h_proxies (fst th')) k = None)
              \<and> (HasPrefix k (mux_app old) \<longrightarrow> dict_get (h_muxPools (fst th')) k = None))))
    \<and> (case w_acceptor w of
         None \<Rightarrow> \<not> Tunnels cfg
       | Some (tls, rg) \<Rightarrow> Tunnels cfg \<and> tc_NextProtos tls = [ALPN] \<and> tc_MinVersion tls = VersionTLS13
           \<and> g_dial (w_gateway w) = DialRegistry rg
           \<and> (\<forall>opts. w_handler w = Some opts \<longrightarrow> h_dial (New_Handler opts) = DialRegistry rg))
    \<and> (\<forall>opts. w_handler w = Some opts \<longrightarrow> h_lookup (New_Handler opts)
         \<and> h_insecureSkip (New_Handler opts) = (UpstreamCA cfg = []) \<and> h_caCertPool (New_Handler opts) = (UpstreamCA cfg \<noteq> []))
    \<and> g_tunnels (w_gateway w) = Tunnels cfg \<and> g_terminator (w_gateway w) = (TLSCertPath cfg \<noteq> [])
    \<and> (wd_handler (w_world w) \<noteq> None) = (TLSCertPath cfg \<noteq> [])"
  using assms(1,2)
proof (cases rule: main_cases)
  case (spliced W0 tr rg)
  note w = spliced(3)
  have "entry (wd_trackers W' tr) (ToLower h) i = None"
    if "Lookup (sy_table s) h = Some old" "\<not> Quarantined old" "Lookup t' h = Some r" "Quarantined r" for h old r i
    unfolding assms(4) by (rule poll_cuts [OF _ _ _ _ _ assms(3) that(1,2)]) (use w hooks_set that assms(5) in simp_all)
  with w spliced(1,2) show ?thesis by auto
next
  case (terminated W0 tr rg opts acc)
  note w = terminated(3) and opts = wire_terminate_Inr [OF terminated(2)]
  have "entry (wd_trackers W' tr) (ToLower h) i = None"
    if "Lookup (sy_table s) h = Some old" "\<not> Quarantined old" "Lookup t' h = Some r" "Quarantined r" for h old r i
    unfolding assms(4) by (rule poll_cuts [OF _ _ _ _ _ assms(3) that(1,2)]) (use w hooks_set that assms(5) in simp_all)
  moreover have "\<exists>th'. wd_handler W' = Some th' \<and> forgotten old th'"
    if "wd_handler W = Some th" "Lookup (sy_table s) h = Some old" "retires old (Lookup t' h)" for h old th
    unfolding assms(4) by (rule poll_forgets [OF _ _ _ _ _ assms(3) that(1,2)]) (use w hooks_set that assms(5) in simp_all)
  ultimately show ?thesis
    using w terminated(1) opts by (cases "Tunnels cfg") (auto simp: forgotten_def NewAcceptor_def)
qed

definition sample_flags :: Flags where
  "sample_flags = \<lparr>fl_string = (\<lambda>k. if k = ''management-url'' then Some ''https://m'' else None), fl_int = (\<lambda>_. None),
     fl_bool = (\<lambda>_. None)\<rparr>"

definition sample_main_env :: main_env where
  "sample_main_env = \<lparr>me_loadCert = True, me_readCA = True, me_parseCA = True, me_selfSigned = True\<rparr>"

theorem main_wiring_witness:
  "\<exists>w tr. (main sample_main_env sample_flags (\<lambda>_. []) :: fatal + nat wiring) = Inr w \<and> g_tracker (w_gateway w) = Some tr"
proof -
  have load: "Load sample_flags (\<lambda>_. []) = Inr (parsed_config sample_flags (\<lambda>_. []))"
    and cert: "TLSCertPath (parsed_config sample_flags (\<lambda>_. [])) = []"
    by (simp_all add: Load_def parsed_config_def sample_flags_def flag_or_def envOr_def Let_def)
  then obtain w where "(main sample_main_env sample_flags (\<lambda>_. []) :: fatal + nat wiring) = Inr w"
    by (simp add: main_def case_prod_unfold)
  with main_wiring [OF this load refl refl refl] show ?thesis by blast
qed

text \<open>
  Poll intervals: every whole number of seconds from one up to the largest a duration can
  hold becomes that many nanoseconds, and the syncer runs; zero, which the configuration
  accepts, makes the syncer's ticker panic after the first poll, and so does a number of seconds
  that overflows the duration.
\<close>

theorem poll_interval_bounds:
  "(\<forall>n. 1 \<le> n \<and> n \<le> 9223372036 \<longrightarrow> sint (seconds n) = n * 1000000000
      \<and> Syncer_Run first ticks (New_Syncer t url token (sint (seconds n))) \<noteq> None)
   \<and> Syncer_Run first ticks (New_Syncer t url token (sint (seconds 0))) = None
   \<and> Syncer_Run first ticks (New_Syncer t url token (sint (seconds 9223372037))) = None"
proof -
  have ok: "sint (seconds n) = n * 1000000000" if "1 \<le> n" "n \<le> 9223372036" for n
  proof -
    have "seconds n = (word_of_int (n * 1000000000) :: 64 word)" by (simp add: seconds_def)
    then have "sint (seconds n) = signed_take_bit 63 (n * 1000000000)" by (simp add: sint_sbintrunc' del: of_int_mult)
    with that show ?thesis by (simp add: signed_take_bit_int_eq_self)
  qed
  moreover have "sint (seconds 9223372037) \<le> 0" "sint (seconds 0) \<le> 0" by (simp_all add: seconds_def)
  ultimately show ?thesis
    by (auto simp: Syncer_Run_def New_Syncer_def Let_def)
qed

theorem poll_interval_bounds_witness:
  "sint (seconds 5) = 5000000000"
  using poll_interval_bounds by fastforce

end
