(* ===== verification/Lifecycle.thy ===== *)
theory Lifecycle
  imports Gateway_Main
begin

text \<open>
  The life of the process once \<^verbatim>\<open>main\<close> has wired it: \<open>Gateway.Run\<close> accepts connections, each served by
  a goroutine of the wait group, while one goroutine waits for a signal, cancels the context, stops
  the health server and drains, and another, started by \<open>Run\<close>, closes the listener once the context
  is cancelled. Every interleaving of these goroutines is a path of the step relation.
\<close>

section \<open>State\<close>

datatype run_phase = RunStarting | RunAccepting | RunWaiting | RunReturned | RunFatal
datatype watch_phase = WatchIdle | WatchWaiting | WatchFlagged | WatchDone
datatype signal_phase = NoSignal | Cancelled | HealthStopped | Draining | Drained
datatype listener_state = NoListener | Listening | ListenerClosed
datatype health_phase = HealthServing | HealthClosed

text \<open>
  \<open>lc_closed\<close> is the flag of the gateway, \<open>lc_open\<close> the count of its wait group and \<open>lc_total\<close> the
  connections accepted so far.
\<close>

record lifecycle =
  lc_run :: run_phase
  lc_watch :: watch_phase
  lc_signal :: signal_phase
  lc_listener :: listener_state
  lc_health :: health_phase
  lc_closed :: bool
  lc_open :: nat
  lc_total :: nat

definition lc_start :: lifecycle where
  "lc_start = \<lparr>lc_run = RunStarting, lc_watch = WatchIdle, lc_signal = NoSignal, lc_listener = NoListener, lc_health = HealthServing,
     lc_closed = False, lc_open = 0, lc_total = 0\<rparr>"

section \<open>Steps\<close>

text \<open>
  \<open>Run\<close>, the goroutine it starts and the connection handlers. An accept fails when the listener is
  closed, and may fail for good while it listens; a temporary failure changes nothing unless the
  flag is set.
\<close>

inductive run_step :: "lifecycle \<Rightarrow> lifecycle \<Rightarrow> bool" where
  listen_error: "lc_run s = RunStarting \<Longrightarrow> run_step s (s\<lparr>lc_run := RunFatal\<rparr>)"
| listen_ok: "lc_run s = RunStarting \<Longrightarrow>
    run_step s (s\<lparr>lc_run := RunAccepting, lc_listener := Listening, lc_watch := WatchWaiting\<rparr>)"
| watch_flag: "lc_watch s = WatchWaiting \<Longrightarrow> lc_signal s \<noteq> NoSignal \<Longrightarrow>
    run_step s (s\<lparr>lc_closed := True, lc_watch := WatchFlagged\<rparr>)"
| watch_close: "lc_watch s = WatchFlagged \<Longrightarrow> run_step s (s\<lparr>lc_listener := ListenerClosed, lc_watch := WatchDone\<rparr>)"
| accept: "lc_run s = RunAccepting \<Longrightarrow> lc_listener s = Listening \<Longrightarrow>
    run_step s (s\<lparr>lc_open := lc_open s + 1, lc_total := lc_total s + 1\<rparr>)"
| accept_stopped: "lc_run s = RunAccepting \<Longrightarrow> lc_closed s \<Longrightarrow> run_step s (s\<lparr>lc_run := RunWaiting\<rparr>)"
| accept_error: "lc_run s = RunAccepting \<Longrightarrow> \<not> lc_closed s \<Longrightarrow> run_step s (s\<lparr>lc_run := RunFatal\<rparr>)"
| handler_done: "lc_open s > 0 \<Longrightarrow> run_step s (s\<lparr>lc_open := lc_open s - 1\<rparr>)"
| wait_done: "lc_run s = RunWaiting \<Longrightarrow> lc_open s = 0 \<Longrightarrow> run_step s (s\<lparr>lc_run := RunReturned\<rparr>)"

text \<open>The goroutine of \<open>main\<close> that waits for a signal; \<open>Drain\<close> closes the listener when there is one.\<close>

inductive stop_step :: "lifecycle \<Rightarrow> lifecycle \<Rightarrow> bool" where
  signal: "lc_signal s = NoSignal \<Longrightarrow> stop_step s (s\<lparr>lc_signal := Cancelled\<rparr>)"
| health_stopped: "lc_signal s = Cancelled \<Longrightarrow> stop_step s (s\<lparr>lc_signal := HealthStopped\<rparr>)"
| drain_close: "lc_signal s = HealthStopped \<Longrightarrow>
    stop_step s (s\<lparr>lc_signal := Draining, lc_listener := (if lc_listener s = NoListener then NoListener else ListenerClosed)\<rparr>)"
| drain_done: "lc_signal s = Draining \<Longrightarrow> lc_open s = 0 \<Longrightarrow> stop_step s (s\<lparr>lc_signal := Drained\<rparr>)"

text \<open>
  The goroutine of the health server: \<open>ListenAndServe\<close> returns \<^verbatim>\<open>ErrServerClosed\<close> once the server is being
  shut down, and any other error ends the process.
\<close>

inductive health_step :: "lifecycle \<Rightarrow> lifecycle \<Rightarrow> bool" where
  serve_error: "lc_health s = HealthServing \<Longrightarrow> health_step s (s\<lparr>lc_run := RunFatal\<rparr>)"
| serve_closed: "lc_health s = HealthServing \<Longrightarrow> lc_signal s \<noteq> NoSignal \<Longrightarrow> health_step s (s\<lparr>lc_health := HealthClosed\<rparr>)"

text \<open>The process ends when \<open>Run\<close> returns, or with \<^verbatim>\<open>log.Fatalf\<close> when it returns an error.\<close>

definition lc_step :: "lifecycle \<Rightarrow> lifecycle \<Rightarrow> bool" where
  "lc_step s t \<longleftrightarrow> lc_run s \<noteq> RunReturned \<and> lc_run s \<noteq> RunFatal \<and> (run_step s t \<or> stop_step s t \<or> health_step s t)"

inductive_cases run_stepE: "run_step s t"
inductive_cases stop_stepE: "stop_step s t"
inductive_cases health_stepE: "health_step s t"

section \<open>Invariant\<close>

definition lc_inv :: "lifecycle \<Rightarrow> bool" where
  "lc_inv s \<longleftrightarrow> (lc_closed s \<longrightarrow> lc_signal s \<noteq> NoSignal)
     \<and> (lc_watch s \<in> {WatchFlagged, WatchDone} \<longrightarrow> lc_closed s)
     \<and> (lc_listener s = ListenerClosed \<longrightarrow> lc_watch s = WatchDone \<or> lc_signal s \<in> {Draining, Drained})
     \<and> (lc_run s \<in> {RunWaiting, RunReturned} \<longrightarrow> lc_closed s)
     \<and> (lc_run s = RunReturned \<longrightarrow> lc_open s = 0)
     \<and> (lc_run s = RunStarting \<longrightarrow> lc_listener s = NoListener \<and> lc_watch s = WatchIdle \<and> lc_total s = 0)
     \<and> (lc_run s \<in> {RunAccepting, RunWaiting} \<longrightarrow> lc_watch s \<noteq> WatchIdle)
     \<and> lc_open s \<le> lc_total s"

interpretation life: safety "\<lambda>s. s = lc_start" lc_step lc_inv
proof
  show "lc_inv s" if "s = lc_start" for s
    using that by (simp add: lc_inv_def lc_start_def)
  show "lc_inv t" if inv: "lc_inv s" and step: "lc_step s t" for s t
  proof -
    from step have alive: "lc_run s \<noteq> RunReturned" "lc_run s \<noteq> RunFatal" and "run_step s t \<or> stop_step s t \<or> health_step s t"
      by (simp_all add: lc_step_def)
    from this(3) show ?thesis
    proof (elim disjE)
      assume "run_step s t"
      then show ?thesis by (rule run_stepE) (use inv alive in \<open>auto simp: lc_inv_def\<close>)
    next
      assume "stop_step s t"
      then show ?thesis by (rule stop_stepE) (use inv in \<open>auto simp: lc_inv_def\<close>)
    next
      assume "health_step s t"
      then show ?thesis by (rule health_stepE) (use inv in \<open>auto simp: lc_inv_def\<close>)
    qed
  qed
qed

section \<open>Draining\<close>

lemma steps_trans: "lc_step s t \<Longrightarrow> lc_step\<^sup>*\<^sup>* t u \<Longrightarrow> lc_step\<^sup>*\<^sup>* s u"
  by (rule converse_rtranclp_into_rtranclp)

text \<open>Once \<open>Run\<close> waits, the handlers may finish one by one, and then it returns.\<close>

lemma waiting_returns: "lc_run s = RunWaiting \<Longrightarrow> \<exists>t. lc_step\<^sup>*\<^sup>* s t \<and> lc_run t = RunReturned"
proof (induction "lc_open s" arbitrary: s)
  case 0
  then have "lc_step s (s\<lparr>lc_run := RunReturned\<rparr>)" by (auto simp: lc_step_def intro: wait_done)
  then show ?case by (intro exI [of _ "s\<lparr>lc_run := RunReturned\<rparr>"]) auto
next
  case (Suc n)
  let ?t = "s\<lparr>lc_open := lc_open s - 1\<rparr>"
  have "lc_step s ?t" unfolding lc_step_def by (intro conjI disjI1 handler_done) (use Suc(2,3) in simp_all)
  moreover have "n = lc_open ?t" "lc_run ?t = RunWaiting" using Suc(2) [symmetric] Suc(3) by simp_all
  then obtain t where "lc_step\<^sup>*\<^sup>* ?t t" "lc_run t = RunReturned" using Suc(1) by blast
  ultimately show ?case using steps_trans by blast
qed

lemma stopped_returns:
  assumes "lc_inv s" and "lc_signal s \<noteq> NoSignal" and "lc_run s \<in> {RunAccepting, RunWaiting}"
  shows "\<exists>t. lc_step\<^sup>*\<^sup>* s t \<and> lc_run t = RunReturned"
proof -
  have flagged: "\<exists>t. lc_step\<^sup>*\<^sup>* s t \<and> lc_run t = RunReturned" if "lc_closed s" "lc_run s \<in> {RunAccepting, RunWaiting}" for s
  proof (cases "lc_run s = RunWaiting")
    case False
    with that have "lc_step s (s\<lparr>lc_run := RunWaiting\<rparr>)" by (auto simp: lc_step_def intro: accept_stopped)
    moreover obtain t where "lc_step\<^sup>*\<^sup>* (s\<lparr>lc_run := RunWaiting\<rparr>) t" "lc_run t = RunReturned"
      using waiting_returns [of "s\<lparr>lc_run := RunWaiting\<rparr>"] by auto
    ultimately show ?thesis using steps_trans by blast
  qed (rule waiting_returns)
  show ?thesis
  proof (cases "lc_closed s")
    case False
    let ?t = "s\<lparr>lc_closed := True, lc_watch := WatchFlagged\<rparr>"
    have "lc_watch s = WatchWaiting" using assms False by (cases "lc_watch s") (auto simp: lc_inv_def)
    with assms have "lc_step s ?t" by (auto simp: lc_step_def intro: watch_flag)
    moreover obtain t where "lc_step\<^sup>*\<^sup>* ?t t" "lc_run t = RunReturned" using flagged [of ?t] assms(3) by auto
    ultimately show ?thesis using steps_trans by blast
  qed (use flagged assms(3) in blast)
qed

section \<open>Properties\<close>

text \<open>
  C40. A graceful stop abandons nobody: whenever \<open>Run\<close> has returned without an error, in whatever
  order the goroutines ran, a signal was received, no new connection is accepted any more and every
  connection ever accepted has been served to its end; and from every state after a signal in which
  the gateway accepts or waits, such a stop can still be reached.
\<close>

theorem shutdown_drains:
  assumes "reach (\<lambda>s. s = lc_start) lc_step s"
  shows "(lc_run s = RunReturned \<longrightarrow> lc_open s = 0 \<and> lc_closed s \<and> lc_signal s \<noteq> NoSignal \<and> (\<forall>t. \<not> lc_step s t))
    \<and> (lc_signal s \<noteq> NoSignal \<and> lc_run s \<in> {RunAccepting, RunWaiting} \<longrightarrow> (\<exists>t. lc_step\<^sup>*\<^sup>* s t \<and> lc_run t = RunReturned))"
proof -
  have inv: "lc_inv s" using assms by (rule life.reach_inv)
  then show ?thesis
    using stopped_returns [OF inv] by (auto simp: lc_inv_def lc_step_def)
qed

definition lc_run1 :: lifecycle where
  "lc_run1 = \<lparr>lc_run = RunAccepting, lc_watch = WatchWaiting, lc_signal = NoSignal, lc_listener = Listening, lc_health = HealthServing,
     lc_closed = False, lc_open = 1, lc_total = 1\<rparr>"

lemma serving: "reach (\<lambda>s. s = lc_start) lc_step lc_run1"
proof -
  let ?a = "lc_start\<lparr>lc_run := RunAccepting, lc_listener := Listening, lc_watch := WatchWaiting\<rparr>"
  have "lc_step lc_start ?a" by (auto simp: lc_step_def lc_start_def intro: listen_ok [of lc_start, unfolded lc_start_def, simplified])
  moreover have "lc_step ?a (?a\<lparr>lc_open := lc_open ?a + 1, lc_total := lc_total ?a + 1\<rparr>)"
    unfolding lc_step_def by (intro conjI disjI1 accept) simp_all
  moreover have "?a\<lparr>lc_open := lc_open ?a + 1, lc_total := lc_total ?a + 1\<rparr> = lc_run1" by (simp add: lc_run1_def lc_start_def)
  ultimately show ?thesis by (metis (mono_tags, lifting) reach_init reach_step)
qed

lemma signalled: "reach (\<lambda>s. s = lc_start) lc_step (lc_run1\<lparr>lc_signal := Cancelled\<rparr>)"
  by (rule reach_step [OF serving]) (auto simp: lc_step_def lc_run1_def intro: signal [of lc_run1, unfolded lc_run1_def, simplified])

theorem shutdown_drains_witness:
  "\<exists>t. lc_step\<^sup>*\<^sup>* (lc_run1\<lparr>lc_signal := Cancelled\<rparr>) t \<and> lc_run t = RunReturned"
  using shutdown_drains [OF signalled] by (simp add: lc_run1_def)

text \<open>
  A stop need not be graceful: between the cancellation and the flag that \<open>Run\<close>'s own goroutine sets,
  \<open>Drain\<close> may close the listener first, and then the failed accept is taken for an error and the
  process exits with connections open.
\<close>

theorem shutdown_may_abort:
  "\<exists>s. reach (\<lambda>s. s = lc_start) lc_step s \<and> lc_run s = RunFatal \<and> lc_open s = 1 \<and> lc_signal s = Draining"
proof -
  let ?s = "lc_run1\<lparr>lc_signal := Cancelled\<rparr>"
  let ?h = "?s\<lparr>lc_signal := HealthStopped\<rparr>"
  let ?d = "?h\<lparr>lc_signal := Draining, lc_listener := ListenerClosed\<rparr>"
  have "lc_step ?s ?h" by (auto simp: lc_step_def lc_run1_def intro: health_stopped [of ?s, unfolded lc_run1_def, simplified])
  then have "reach (\<lambda>s. s = lc_start) lc_step ?h" by (rule reach_step [OF signalled])
  moreover have "lc_step ?h ?d" using drain_close [of ?h] by (auto simp: lc_step_def lc_run1_def)
  ultimately have "reach (\<lambda>s. s = lc_start) lc_step ?d" by (rule reach_step)
  moreover have "lc_step ?d (?d\<lparr>lc_run := RunFatal\<rparr>)"
    unfolding lc_step_def by (intro conjI disjI1 accept_error) (simp_all add: lc_run1_def)
  ultimately have "reach (\<lambda>s. s = lc_start) lc_step (?d\<lparr>lc_run := RunFatal\<rparr>)" by (rule reach_step)
  then show ?thesis by (intro exI [of _ "?d\<lparr>lc_run := RunFatal\<rparr>"]) (simp add: lc_run1_def)
qed

end
