(* ===== verification/Ws_Queue.thy ===== *)
theory Ws_Queue
  imports Ws_Mux
begin

text \<open>
  The queue of one stream of \<^verbatim>\<open>internal/terminate/wsmux.go\<close> at the granularity of its atomic
  operations: the channel and its byte counter are used by the read loop and by the browser pump
  without a lock, and the counter is updated after the channel. The coarse steps of \<open>Ws_Mux\<close>
  are runs of this machine.
\<close>

section \<open>The concurrent queue of one stream\<close>

text \<open>
  The read loop and the browser pump share a stream's channel and its byte counter. The atomic
  steps are the source's: the read loop loads the counter and compares, sends on the channel
  without blocking, and only then adds to the counter; the pump receives and only then
  subtracts. \<open>q_sent\<close> and \<open>q_got\<close> record the payloads that went in and came out.
\<close>

datatype reader_pc = RIdle | RChecked bytes | RSent bytes
datatype pump_pc = PIdle | PGot bytes

record qstate =
  q_chan :: "bytes list"
  q_queued :: int
  q_reader :: reader_pc
  q_pump :: pump_pc
  q_sent :: "bytes list"
  q_got :: "bytes list"

definition q_init :: "qstate \<Rightarrow> bool" where
  "q_init s \<longleftrightarrow> s = \<lparr>q_chan = [], q_queued = 0, q_reader = RIdle, q_pump = PIdle, q_sent = [], q_got = []\<rparr>"

inductive q_step :: "qstate \<Rightarrow> qstate \<Rightarrow> bool" where
  q_check: "q_reader s = RIdle \<Longrightarrow> length p \<le> muxMaxFrame \<Longrightarrow>
    \<not> q_queued s + int (length p) > gwMuxStreamQueueBytes \<Longrightarrow> q_step s (s\<lparr>q_reader := RChecked p\<rparr>)"
| q_send: "q_reader s = RChecked p \<Longrightarrow> length (q_chan s) < gwMuxStreamQueue \<Longrightarrow>
    q_step s (s\<lparr>q_chan := q_chan s @ [p], q_reader := RSent p, q_sent := q_sent s @ [p]\<rparr>)"
| q_full: "q_reader s = RChecked p \<Longrightarrow> \<not> length (q_chan s) < gwMuxStreamQueue \<Longrightarrow> q_step s (s\<lparr>q_reader := RIdle\<rparr>)"
| q_add: "q_reader s = RSent p \<Longrightarrow> q_step s (s\<lparr>q_queued := q_queued s + int (length p), q_reader := RIdle\<rparr>)"
| q_recv: "q_pump s = PIdle \<Longrightarrow> q_chan s = p # ps \<Longrightarrow>
    q_step s (s\<lparr>q_chan := ps, q_pump := PGot p, q_got := q_got s @ [p]\<rparr>)"
| q_sub: "q_pump s = PGot p \<Longrightarrow> q_step s (s\<lparr>q_queued := q_queued s - int (length p), q_pump := PIdle\<rparr>)"

inductive_cases q_stepE: "q_step s t"

definition q_inv :: "qstate \<Rightarrow> bool" where
  "q_inv s \<longleftrightarrow>
     q_queued s = int (length (concat (q_chan s)))
        + (case q_pump s of PIdle \<Rightarrow> 0 | PGot p \<Rightarrow> int (length p))
        - (case q_reader s of RSent p \<Rightarrow> int (length p) | _ \<Rightarrow> 0)
     \<and> int (length (concat (q_chan s))) \<le> gwMuxStreamQueueBytes
     \<and> (case q_reader s of RChecked p \<Rightarrow> int (length (concat (q_chan s))) + int (length p) \<le> gwMuxStreamQueueBytes
         | _ \<Rightarrow> True)
     \<and> (case q_reader s of RSent p \<Rightarrow> length p \<le> muxMaxFrame | RChecked p \<Rightarrow> length p \<le> muxMaxFrame | RIdle \<Rightarrow> True)
     \<and> (case q_pump s of PIdle \<Rightarrow> True | PGot p \<Rightarrow> length p \<le> muxMaxFrame)
     \<and> list_all (\<lambda>p. length p \<le> muxMaxFrame) (q_chan s)
     \<and> length (q_chan s) \<le> gwMuxStreamQueue
     \<and> q_sent s = q_got s @ q_chan s"

interpretation stream_queue: safety q_init q_step q_inv
proof
  show "q_init s \<Longrightarrow> q_inv s" for s
    by (simp add: q_init_def q_inv_def gwMuxStreamQueueBytes_def)
next
  fix s t
  assume inv: "q_inv s" and "q_step s t"
  from \<open>q_step s t\<close> show "q_inv t"
  proof (cases rule: q_step.cases)
    case (q_check p)
    moreover have "(case q_pump s of PIdle \<Rightarrow> 0 | PGot p \<Rightarrow> int (length p)) \<ge> 0" by (simp split: pump_pc.split)
    ultimately show ?thesis using inv by (auto simp: q_inv_def)
  next
    case (q_send p)
    with inv show ?thesis by (auto simp: q_inv_def)
  qed (use inv in \<open>auto simp: q_inv_def split: reader_pc.splits pump_pc.splits\<close>)
qed

section \<open>The coarse steps\<close>

text \<open>
  \<open>enqueue\<close> and \<open>pump_take\<close> are what the machine does when the other side is not between
  two of its operations.
\<close>

definition shows_stream :: "qstate \<Rightarrow> gwStream \<Rightarrow> bool" where
  "shows_stream s st \<longleftrightarrow> q_reader s = RIdle \<and> q_pump s = PIdle \<and> q_chan s = st_outbound st \<and> q_queued s = st_queued st"

lemma enqueue_simulated:
  assumes "shows_stream s st" and "length p \<le> muxMaxFrame" and "enqueue p st = Some st'"
  shows "\<exists>t. q_step\<^sup>*\<^sup>* s t \<and> shows_stream t st' \<and> q_sent t = q_sent s @ [p]"
proof -
  let ?s1 = "s\<lparr>q_reader := RChecked p\<rparr>"
  let ?s2 = "?s1\<lparr>q_chan := q_chan s @ [p], q_reader := RSent p, q_sent := q_sent s @ [p]\<rparr>"
  let ?s3 = "?s2\<lparr>q_queued := q_queued s + int (length p), q_reader := RIdle\<rparr>"
  from assms(1,3) have room: "\<not> q_queued s + int (length p) > gwMuxStreamQueueBytes" "length (q_chan s) < gwMuxStreamQueue"
    by (auto simp: shows_stream_def enqueue_def split: if_splits)
  have "q_step s ?s1" using assms(1,2) room by (intro q_check) (simp_all add: shows_stream_def)
  moreover have "q_step ?s1 ?s2" using q_send [of ?s1 p] room by simp
  moreover have "q_step ?s2 ?s3" using q_add [of ?s2 p] by simp
  ultimately have "q_step\<^sup>*\<^sup>* s ?s3" by (meson converse_rtranclp_into_rtranclp rtranclp.rtrancl_refl)
  moreover have "shows_stream ?s3 st'" using assms(1) enqueue_Some [OF assms(3)] by (simp add: shows_stream_def)
  ultimately show ?thesis by (intro exI [of _ ?s3]) simp
qed

lemma pump_simulated:
  assumes "shows_stream s st" and "st_pump st = PumpReady" and "st_outbound st = p # ps"
  shows "\<exists>t. q_step\<^sup>*\<^sup>* s t \<and> shows_stream t (pump_take st) \<and> q_got t = q_got s @ [p]"
proof -
  let ?s1 = "s\<lparr>q_chan := ps, q_pump := PGot p, q_got := q_got s @ [p]\<rparr>"
  let ?s2 = "?s1\<lparr>q_queued := q_queued s - int (length p), q_pump := PIdle\<rparr>"
  have "q_step s ?s1" using assms by (intro q_recv) (simp_all add: shows_stream_def)
  moreover have "q_step ?s1 ?s2" using q_sub [of ?s1 p] by simp
  ultimately have "q_step\<^sup>*\<^sup>* s ?s2" by (meson converse_rtranclp_into_rtranclp rtranclp.rtrancl_refl)
  moreover have "shows_stream ?s2 (pump_take st)" using assms by (simp add: shows_stream_def pump_take_def)
  ultimately show ?thesis by (intro exI [of _ ?s2]) simp
qed

section \<open>Properties\<close>

text \<open>
  C30. The memory a stalled browser can hold is bounded under every interleaving of the read loop
  and the pump, although the byte counter is updated after the channel operations: at most 8 MiB
  and 4096 frames are ever queued for a stream, the counter stays within one frame of that
  bound and above minus one frame (so it cannot wrap), and what the pump takes out is what the
  read loop put in, in order.
\<close>

theorem stream_queue_bounded:
  assumes "reach q_init q_step s"
  shows "int (length (concat (q_chan s))) \<le> 8388608 \<and> length (q_chan s) \<le> 4096
    \<and> - int muxMaxFrame \<le> q_queued s \<and> q_queued s \<le> 8388608 + int muxMaxFrame
    \<and> q_sent s = q_got s @ q_chan s"
proof -
  from stream_queue.reach_inv [OF assms] show ?thesis
    by (auto simp: q_inv_def gwMuxStreamQueueBytes_def gwMuxStreamQueue_def split: reader_pc.splits pump_pc.splits)
qed

theorem stream_queue_bounded_witness:
  "length (concat (q_chan \<lparr>q_chan = [[1, 2]], q_queued = 0, q_reader = RSent [1, 2], q_pump = PIdle,
     q_sent = [[1, 2]], q_got = []\<rparr>)) \<le> 8388608"
proof -
  let ?s0 = "\<lparr>q_chan = [], q_queued = 0, q_reader = RIdle, q_pump = PIdle, q_sent = [], q_got = []\<rparr> :: qstate"
  let ?s1 = "?s0\<lparr>q_reader := RChecked [1, 2]\<rparr>"
  let ?s2 = "?s1\<lparr>q_chan := [[1, 2]], q_reader := RSent [1, 2], q_sent := [[1, 2]]\<rparr>"
  have "q_step ?s0 ?s1"
    by (rule q_check) (simp_all add: muxMaxFrame_def gwMuxStreamQueueBytes_def)
  moreover have "q_step ?s1 ?s2"
    using q_send [of ?s1 "[1, 2]"] by (simp add: gwMuxStreamQueue_def)
  moreover have "q_init ?s0" by (simp add: q_init_def)
  ultimately have "reach q_init q_step ?s2" by (meson reach_init reach_step)
  from stream_queue_bounded [OF this] show ?thesis by simp
qed

end
