(* ===== verification/Sealed_Cut.thy ===== *)
theory Sealed_Cut
  imports Sealed_Wire "HOL-Library.Sublist"
begin

text \<open>
  A quarantine that cuts sealed WebSockets: \<open>CutHost\<close> of \<^verbatim>\<open>internal/quarantine/tracker.go\<close> starts the
  close functions \<open>serveSealedWSMux\<close> gave it, each on a goroutine of its own, and these run
  interleaved with the handlers of the streams, the read loops, the pumps and everything else
  that uses the shared connections.
\<close>

section \<open>The close function of a sealed stream\<close>

text \<open>
  What the closure \<open>closeQuarantined\<close> captures: the mux connection, the stream's parameters and
  the stream; and its two calls, each atomic under its own lock.
\<close>

type_synonym sealed_ref = "nat \<times> sealedWSParams \<times> nat"

definition cut_frame :: "sealedWSParams \<Rightarrow> frame" where
  "cut_frame p = ws_frame muxTypeClose p (encodeMuxClose StatusTryAgainLater [])"

definition cut_ops :: "sealed_ref \<Rightarrow> handler_op list" where
  "cut_ops r = (case r of (c, p, ptr) \<Rightarrow>
     [OpConn c (ActWrite (cut_frame p)), OpConn c (ActFinish ptr StatusTryAgainLater ''enclave quarantined'')])"

lemma cut_ops_run:
  "handler_run L (cut_ops (c, p, ptr)) s = with_conn c (closeQuarantined p ptr (conn_at c s)) s"
  by (simp add: cut_ops_def closeQuarantined_def cut_frame_def ws_frame_def conn_op_def with_conn_def conn_at_def Let_def)

section \<open>What operations keep\<close>

lemma step_wrote: "\<exists>gs. wrote m gs (conn_step a m)"
proof -
  have "\<exists>k. foreign k a"
  proof (cases a)
    case (ActWrite f)
    have "\<not> own (CHR ''x'' # fr_sid f, 0) f" by (simp add: own_def)
    with ActWrite show ?thesis by (auto simp: foreign_def)
  qed (simp_all add: foreign_def)
  then obtain k where "foreign k a" ..
  from quiet_step [OF this, of m] show ?thesis by (auto simp: quiet_def)
qed

text \<open>A stream that exists stays, and one that is done stays done.\<close>

definition persists :: "nat \<Rightarrow> gwMuxConn \<Rightarrow> gwMuxConn \<Rightarrow> bool" where
  "persists ptr m m' \<longleftrightarrow> (ptr < mc_next m \<longrightarrow> ptr < mc_next m' \<and> (st_done (mc_heap m ptr) \<longrightarrow> st_done (mc_heap m' ptr)))"

lemma persists_kill: "persists ptr m m1 \<Longrightarrow> persists ptr m (kill m1)"
  by (cases "mc_dead m1") (auto simp: persists_def kill_dead kill_heap)

lemma persists_same: "mc_next m' = mc_next m \<Longrightarrow> mc_heap m' = mc_heap m \<Longrightarrow> persists ptr m m'"
  by (simp add: persists_def)

lemma persists_trans: "persists ptr m m1 \<Longrightarrow> persists ptr m1 m2 \<Longrightarrow> persists ptr m m2"
  by (auto simp: persists_def)

lemma pump_keeps_done:
  "st_done (pump_start st) = st_done st" "st_done (pump_take st) = st_done st" "st_done st \<Longrightarrow> st_done (pump_write w st)"
  "st_done (pump_done st) = st_done st" "st_done (close_direct code r st) = st_done st"
  by (auto simp: pump_defs split: list.split pump.split)

lemma persists_step:
  assumes "conn_ok m"
  shows "persists ptr m (conn_step a m)"
proof (cases a)
  case (ActFrame f)
  have "persists ptr m (fst (on_frame f m))"
    using frame_effectD(5,8) [OF on_frame_effect [OF conn_okD [OF assms]]] by (simp add: persists_def)
  with ActFrame show ?thesis by (cases rule: read_turn_cases [of f m]) (simp_all add: persists_kill)
next
  case ActTick
  obtain m' sent where w: "writeFrame muxTypePing [] 0 [] m = (m', sent)" by (cases "writeFrame muxTypePing [] 0 [] m")
  with writeFrame_simps [of muxTypePing "[]" 0 "[]" m] have "persists ptr m m'" by (simp add: persists_same)
  with ActTick show ?thesis by (simp add: keepalive_tick_def w persists_kill persists_same)
next
  case (ActRegister k)
  then show ?thesis using open_stream_simps [of k m] by (cases "open_stream k m") (auto simp: persists_def)
next
  case ActEnd
  then show ?thesis using persists_kill [OF persists_same [OF refl refl]] by simp
qed (simp_all add: persists_def unregister_True pump_keeps_done)

text \<open>
  \<open>carries_on c ptr s gs s'\<close>: the connection \<open>c\<close> exists throughout, the frames \<open>gs\<close> were written to it,
  it stays broken if it was, and its stream \<open>ptr\<close> persists.
\<close>

definition carries_on :: "nat \<Rightarrow> nat \<Rightarrow> hstate \<Rightarrow> frame list \<Rightarrow> hstate \<Rightarrow> bool" where
  "carries_on c ptr s gs s' \<longleftrightarrow> c < ms_next (snd s') \<and> wrote (conn_at c s) gs (conn_at c s')
     \<and> (broken (conn_at c s) \<longrightarrow> broken (conn_at c s')) \<and> persists ptr (conn_at c s) (conn_at c s')"

lemma carries_on_trans: "carries_on c ptr s gs s1 \<Longrightarrow> carries_on c ptr s1 hs s2 \<Longrightarrow> carries_on c ptr s (gs @ hs) s2"
  unfolding carries_on_def using wrote_trans persists_trans by blast

lemma carries_on_step:
  assumes "c < ms_next (snd s)" and "conn_ok (conn_at c s)"
  shows "\<exists>gs. carries_on c ptr s gs (handler_step L op s)"
proof -
  note next_ok = less_le_trans [OF assms(1) step_conn(1) [OF assms(1), of L op]]
  consider "conn_at c (handler_step L op s) = conn_at c s" | "conn_at c (handler_step L op s) = kill (conn_at c s)"
    | a where "conn_at c (handler_step L op s) = conn_step a (conn_at c s)"
    using step_conn(2) [OF assms(1), of L op] by blast
  then show ?thesis
  proof cases
    case 1
    then show ?thesis using next_ok by (intro exI [of _ "[]"]) (simp add: carries_on_def wrote_same persists_same)
  next
    case 2
    then show ?thesis using next_ok by (intro exI [of _ "[]"]) (simp add: carries_on_def wrote_same persists_kill persists_same)
  next
    case (3 a)
    obtain gs where "wrote (conn_at c s) gs (conn_step a (conn_at c s))" using step_wrote by blast
    with 3 next_ok broken_step persists_step [OF assms(2)] show ?thesis by (auto simp: carries_on_def)
  qed
qed

lemma carries_on_run:
  assumes "pools_ok L s" and "list_all op_clean ops" and "c < ms_next (snd s)"
  shows "\<exists>gs. carries_on c ptr s gs (handler_run L ops s)"
  using assms
proof (induction ops arbitrary: s)
  case Nil
  then show ?case by (intro exI [of _ "[]"]) (simp add: carries_on_def wrote_same persists_same)
next
  case (Cons op ops)
  have "conn_ok (conn_at c s)"
    using store_okD(2) [OF pools_okD(2) [OF Cons.prems(1)] Cons.prems(3)] by (simp add: conn_at_def)
  from carries_on_step [OF Cons.prems(3) this] obtain gs where gs: "carries_on c ptr s gs (handler_step L op s)" by blast
  then have live: "c < ms_next (snd (handler_step L op s))" by (simp add: carries_on_def)
  have "pools_ok L (handler_step L op s)" using Cons.prems by (intro pools_ok_step) simp_all
  from Cons.IH [OF this _ live] Cons.prems(2)
  obtain hs where "carries_on c ptr (handler_step L op s) hs (handler_run L ops (handler_step L op s))" by auto
  from carries_on_trans [OF gs this] show ?case by auto
qed

section \<open>The cut\<close>

lemma subseq_pair: "subseq [x, y] zs \<Longrightarrow> \<exists>as bs cs. zs = as @ x # bs @ y # cs"
  by (auto elim!: list_emb_ConsD [THEN exE])

lemma cut_ends_stream:
  assumes "pools_ok L s" and "c < ms_next (snd s)" and "ptr < mc_next (conn_at c s)"
    and "list_all op_clean later" and "subseq (cut_ops (c, p, ptr)) later" and "s' = handler_run L later s"
  shows "st_done (mc_heap (conn_at c s') ptr) \<and> length (st_closes (mc_heap (conn_at c s') ptr)) = 1
    \<and> (\<exists>gs. wrote (conn_at c s) gs (conn_at c s') \<and> (broken (conn_at c s') \<or> cut_frame p \<in> set gs))"
proof -
  let ?w = "OpConn c (ActWrite (cut_frame p))" and ?f = "OpConn c (ActFinish ptr StatusTryAgainLater ''enclave quarantined'')"
  from assms(5) obtain as bs cs where later: "later = as @ ?w # bs @ ?f # cs"
    using subseq_pair [of ?w ?f later] by (auto simp: cut_ops_def)
  let ?s1 = "handler_run L as s"
  let ?s2 = "handler_step L ?w ?s1"
  let ?s3 = "handler_run L bs ?s2"
  let ?s4 = "handler_step L ?f ?s3"
  have s': "s' = handler_run L cs ?s4" using assms(6) by (simp add: later handler_run_append del: handler_step.simps)
  have clean: "list_all op_clean as" "list_all op_clean bs" "list_all op_clean cs" "op_clean ?w" "op_clean ?f"
    using assms(4) by (simp_all add: later)
  have ok1: "pools_ok L ?s1" using clean by (intro pools_ok_run assms(1))
  have ok2: "pools_ok L ?s2" by (rule pools_ok_step [OF ok1 clean(4)])
  have ok3: "pools_ok L ?s3" by (rule pools_ok_run [OF clean(2) ok2])
  have ok4: "pools_ok L ?s4" by (rule pools_ok_step [OF ok3 clean(5)])
  obtain g1 where g1: "carries_on c ptr s g1 ?s1" using carries_on_run [OF assms(1) clean(1) assms(2)] by blast
  then have c1: "c < ms_next (snd ?s1)" by (simp add: carries_on_def)
  let ?m = "conn_at c ?s1" and ?g2 = "if mc_dead (conn_at c ?s1) then [] else [cut_frame p]"
  have at2: "conn_at c ?s2 = conn_step (ActWrite (cut_frame p)) ?m" by (simp add: conn_at_def conn_op_def)
  have "wrote ?m ?g2 (conn_at c ?s2)"
    using writeFrame_wrote [of ?m muxTypeClose "sw_sessionID p" "sw_streamID p" "encodeMuxClose StatusTryAgainLater []"]
    unfolding at2 by (auto simp: cut_frame_def ws_frame_def split: if_splits)
  then have g2: "carries_on c ptr ?s1 ?g2 ?s2"
    using c1 broken_step [of ?m "ActWrite (cut_frame p)"] persists_step [of ?m ptr "ActWrite (cut_frame p)"]
      store_okD(2) [OF pools_okD(2) [OF ok1] c1] unfolding carries_on_def at2 by (simp add: conn_op_def conn_at_def)
  then have c2: "c < ms_next (snd ?s2)" by (simp add: carries_on_def)
  obtain g3 where g3: "carries_on c ptr ?s2 g3 ?s3" using carries_on_run [OF ok2 clean(2) c2] by blast
  then have c3: "c < ms_next (snd ?s3)" by (simp add: carries_on_def)
  have "conn_ok (conn_at c ?s3)" using store_okD(2) [OF pools_okD(2) [OF ok3] c3] by (simp add: conn_at_def)
  from carries_on_step [OF c3 this] obtain g4 where g4: "carries_on c ptr ?s3 g4 ?s4" by blast
  then have c4: "c < ms_next (snd ?s4)" by (simp add: carries_on_def)
  obtain g5 where g5: "carries_on c ptr ?s4 g5 s'" using carries_on_run [OF ok4 clean(3) c4] s' by blast
  have fin: "st_done (mc_heap (conn_at c ?s4) ptr)" by (simp add: conn_at_def conn_op_def)
  note to4 = carries_on_trans [OF g1 carries_on_trans [OF g2 carries_on_trans [OF g3 g4]]]
  then have "ptr < mc_next (conn_at c ?s4)" using assms(3) by (simp add: carries_on_def persists_def)
  with g5 fin have done_: "st_done (mc_heap (conn_at c s') ptr)" by (simp add: carries_on_def persists_def)
  have "pools_ok L s'" unfolding s' by (rule pools_ok_run [OF clean(3) ok4])
  moreover have "c < ms_next (snd s')" using g5 by (simp add: carries_on_def)
  ultimately have "conn_ok (conn_at c s')" using store_okD(2) [OF pools_okD(2)] by (simp add: conn_at_def)
  then have "length (st_closes (mc_heap (conn_at c s') ptr)) = 1"
    using mux_okD(3) [OF conn_okD, of "conn_at c s'" ptr] done_ by (simp add: once_ok_def)
  moreover have "broken (conn_at c s') \<or> cut_frame p \<in> set ?g2"
    using carries_on_trans [OF g2 carries_on_trans [OF g3 carries_on_trans [OF g4 g5]]] by (auto simp: carries_on_def broken_def)
  ultimately show ?thesis
    using done_ carries_on_trans [OF to4 g5] by (auto simp: carries_on_def)
qed

section \<open>Properties\<close>

lemma entry_cut_closed:
  assumes "entry tr (ToLower host) i = Some e" and "CutHost (Some tr) host = (tr', res)"
  shows "tk_close e \<in> set (cut_closed res)"
  using dict_get_in [OF assms(1) [unfolded entry_def]] assms(2) by (force simp: CutHost_def Let_def)

text \<open>
  A quarantine ends the sealed WebSockets of its host: after any interleaving of connections,
  sealed streams, mux traffic and retirements, cut a host in the tracker and let the close
  functions it starts run, interleaved with whatever else goes on. Then every sealed stream that
  was tracked for the host is done, its browser socket has been closed by \<open>finish\<close> exactly once, and the
  enclave has been sent the close frame of the stream unless the connection to it broke; and
  nothing is tracked for the host any more.
\<close>

theorem cut_ends_sealed_streams:
  fixes tr :: "sealed_ref Tracker"
  assumes "list_all op_clean ops" and "s = handler_run L ops (initial opts)"
    and "entry tr (ToLower host) i = Some e" and "tk_close e = (c, p, ptr)"
    and "c < ms_next (snd s)" and "ptr < mc_next (conn_at c s)"
    and "CutHost (Some tr) host = (Some tr', res)"
    and "list_all op_clean later" and "list_all (\<lambda>r. subseq (cut_ops r) later) (cut_closed res)"
    and "s' = handler_run L later s"
  shows "st_done (mc_heap (conn_at c s') ptr) \<and> length (st_closes (mc_heap (conn_at c s') ptr)) = 1
    \<and> (\<exists>gs. wrote (conn_at c s) gs (conn_at c s') \<and> (broken (conn_at c s') \<or> cut_frame p \<in> set gs))
    \<and> (\<forall>j. entry tr' (ToLower host) j = None)"
proof -
  have ok: "pools_ok L s" unfolding assms(2) by (rule pools_ok_run [OF assms(1) pools_ok_initial])
  have "subseq (cut_ops (c, p, ptr)) later"
    using entry_cut_closed [OF assms(3,7)] assms(4,9) by (simp add: list_all_iff)
  from cut_ends_stream [OF ok assms(5,6,8) this assms(10)] entry_cut [of tr host] assms(7) show ?thesis
    by (simp add: cut_state_def)
qed

text \<open>A run that opens a connection and registers a stream on it.\<close>

definition sample_ops :: "handler_op list" where
  "sample_ops = [OpPool sample_route, OpGet sample_dial 0, OpConn 0 (ActRegister (ws_key sample_params))]"

lemma sample_ops_clean: "list_all op_clean sample_ops"
  using sample_route_clean by (simp add: sample_ops_def op_clean_def)

lemma sample_stream_live:
  assumes "s = handler_run sample_libs sample_ops (initial sample_options)"
  shows "0 < ms_next (snd s)" "0 < mc_next (conn_at 0 s)"
proof -
  let ?s0 = "handler_run sample_libs [OpPool sample_route] (initial sample_options)"
  let ?s1 = "handler_run sample_libs [OpPool sample_route, OpGet sample_dial 0] (initial sample_options)"
  obtain s' where s': "mux_acquire sample_libs [] sample_dial sample_route (handler_run sample_libs [] (initial sample_options)) = (s', Inr 0)"
    using sample_acquire by blast
  have "snd (muxPoolFor sample_libs sample_route (initial sample_options)) = 0"
    by (simp add: muxPoolFor_eq initial_def New_Handler_def close_pools_simps(3) Let_def)
  with mux_acquire_run [of sample_libs "[]" sample_dial sample_route "initial sample_options"] s' have "?s1 = s'" by simp
  with acquired_live(2) [OF _ sample_route_clean(2) refl s'] have "0 < ms_next (snd ?s1)" by simp
  moreover have s: "s = with_conn 0 (conn_step (ActRegister (ws_key sample_params)) (conn_at 0 ?s1)) ?s1"
    unfolding assms sample_ops_def with_conn_step [where L = sample_libs] by simp
  ultimately show "0 < ms_next (snd s)" by simp
  show "0 < mc_next (conn_at 0 s)"
    unfolding s using open_stream_simps [of "ws_key sample_params" "conn_at 0 ?s1"]
    by (cases "open_stream (ws_key sample_params) (conn_at 0 ?s1)") (auto simp del: handler_run_simps)
qed

definition sample_tracker :: "sealed_ref Tracker" where
  "sample_tracker = tracked_state NewTracker ''a.x'' KindSealedWS (0, sample_params, 0)"

lemma sample_entry: "entry sample_tracker (ToLower ''a.x'') 1 = Some \<lparr>tk_kind = KindSealedWS, tk_close = (0, sample_params, 0)\<rparr>"
  by (simp add: sample_tracker_def entry_Track NewTracker_def)

lemma sample_cut:
  "CutHost (Some sample_tracker) ''a.x'' = (Some (cut_state sample_tracker ''a.x''), snd (CutHost (Some sample_tracker) ''a.x''))"
  "cut_closed (snd (CutHost (Some sample_tracker) ''a.x'')) = [(0, sample_params, 0)]"
proof -
  show "CutHost (Some sample_tracker) ''a.x'' = (Some (cut_state sample_tracker ''a.x''), snd (CutHost (Some sample_tracker) ''a.x''))"
    using CutHost_Some [of sample_tracker "''a.x''"] by (simp add: prod_eq_iff)
  show "cut_closed (snd (CutHost (Some sample_tracker) ''a.x'')) = [(0, sample_params, 0)]"
    by (simp add: CutHost_def Let_def sample_tracker_def host_map_Track) (simp add: host_map_def NewTracker_def dict_set_def)
qed

lemma cut_ops_clean: "list_all op_clean (cut_ops r)"
  by (cases r) (simp add: cut_ops_def op_clean_def)

theorem cut_ends_sealed_streams_witness:
  "\<exists>s'. s' = handler_run sample_libs (cut_ops (0, sample_params, 0)) (handler_run sample_libs sample_ops (initial sample_options))
    \<and> st_done (mc_heap (conn_at 0 s') 0)"
proof -
  let ?s = "handler_run sample_libs sample_ops (initial sample_options)"
  have "list_all (\<lambda>r. subseq (cut_ops r) (cut_ops (0, sample_params, 0))) (cut_closed (snd (CutHost (Some sample_tracker) ''a.x'')))"
    by (simp add: sample_cut(2))
  from cut_ends_sealed_streams [OF sample_ops_clean refl sample_entry _ sample_stream_live [OF refl] sample_cut(1) cut_ops_clean this refl]
  show ?thesis by simp
qed

end
