(* ===== verification/Tunnel_System.thy ===== *)
theory Tunnel_System
  imports Tunnel
begin

text \<open>
  Tunnel connections interleaved: acceptors (\<^verbatim>\<open>internal/tunnel/accept.go\<close>) that authenticate at the
  management service (\<^verbatim>\<open>authz.go\<close>), register their sessions and remove them when they end, in any
  order, and the connections that dial through the registry meanwhile (\<^verbatim>\<open>tunnel.go\<close>).
\<close>

section \<open>The authorizer of an acceptor\<close>

text \<open>The acceptor's \<open>Authorizer\<close> is the management authorizer.\<close>

record mgmt =
  mg_marshal :: "AuthRequest \<Rightarrow> string option"
  mg_new_ok :: "string \<Rightarrow> bool"
  mg_decode :: "string \<Rightarrow> string option"
  mg_authorizer :: MgmtAuthorizer

definition mgmt_authorize :: "mgmt \<Rightarrow> (client_request \<Rightarrow> client_response option) \<Rightarrow> AuthRequest \<Rightarrow> string option" where
  "mgmt_authorize M transport ar =
     (case Authorize (mg_marshal M) (mg_new_ok M) transport (mg_decode M) (mg_authorizer M) ar of
        Inl _ \<Rightarrow> None | Inr i \<Rightarrow> Some i)"

text \<open>
  A tunnel connection: what its acceptor meets, and the answers of the management service to the
  requests the acceptor's authorizer sends.
\<close>

record 's tunnel_conn =
  tu_accept :: "'s accept_env"
  tu_service :: "client_request \<Rightarrow> client_response option"

definition acceptor_env :: "mgmt \<Rightarrow> 's tunnel_conn \<Rightarrow> 's accept_env" where
  "acceptor_env M c = (tu_accept c)\<lparr>ae_authorize := mgmt_authorize M (tu_service c)\<rparr>"

text \<open>
  What stands behind a session of the enclave \<open>e\<close>: a handshake with the tunnel protocol, a POST
  with the upgrade, and a 200 that this management service gave to the request with the
  authentication headers and the body of the POST, and that names \<open>e\<close>.
\<close>

definition vouched :: "mgmt \<Rightarrow> 's tunnel_conn \<Rightarrow> string \<Rightarrow> bool" where
  "vouched M c e \<longleftrightarrow> ae_handshake (tu_accept c) \<and> ae_protocol (tu_accept c) = ALPN \<and> e \<noteq> []
     \<and> (\<exists>req ar body (resp :: client_response). ae_request (tu_accept c) = Some req \<and> ar_Headers ar = authHeaders (req_Header req)
          \<and> ar_Body ar = ae_body (tu_accept c) \<and> ar_Method ar = ''POST'' \<and> ar_Path ar = tunnel_Path
          \<and> mg_marshal M ar = Some body \<and> tu_service c (authorize_request (mg_authorizer M) body) = Some resp
          \<and> rs_status resp = 200 \<and> mg_decode M (take 65536 (rs_body resp)) = Some e)"

lemma mgmt_vouches:
  assumes "mgmt_authorize M transport ar = Some e"
  shows "\<exists>body (resp :: client_response). mg_marshal M ar = Some body \<and> transport (authorize_request (mg_authorizer M) body) = Some resp
    \<and> rs_status resp = 200 \<and> mg_decode M (take 65536 (rs_body resp)) = Some e"
  using assms by (auto simp: mgmt_authorize_def Authorize_def Let_def split: option.splits if_splits sum.splits)

section \<open>Steps\<close>

text \<open>\<open>tn_live\<close>: the acceptors that wait for their session to end, with the entry and the enclave of each.\<close>

record 's tunnels =
  tn_registry :: "'s Registry"
  tn_live :: "(nat \<times> string \<times> 's tunnel_conn) list"

definition tunnel_init :: "'s tunnels \<Rightarrow> bool" where
  "tunnel_init t \<longleftrightarrow> t = \<lparr>tn_registry = NewRegistry, tn_live = []\<rparr>"

inductive tunnel_step :: "mgmt \<Rightarrow> 's tunnels \<Rightarrow> 's tunnels \<Rightarrow> bool" for M :: mgmt where
  accepted: "Acceptor_Handle (tn_registry t) (acceptor_env M c) = (evs, live, final) \<Longrightarrow> Registered e s \<in> set evs \<Longrightarrow>
     tunnel_step M t (t\<lparr>tn_registry := live, tn_live := tn_live t @ [(rg_alloc (tn_registry t), e, c)]\<rparr>)"
| refused: "Acceptor_Handle (tn_registry t) (acceptor_env M c) = (evs, live, final) \<Longrightarrow> (\<And>e s. Registered e s \<notin> set evs) \<Longrightarrow>
     tunnel_step M t (t\<lparr>tn_registry := live\<rparr>)"
| ended: "(p, e, c) \<in> set (tn_live t) \<Longrightarrow>
     tunnel_step M t (t\<lparr>tn_registry := unregister (tn_registry t) e p, tn_live := filter (\<lambda>x. fst x \<noteq> p) (tn_live t)\<rparr>)"

inductive_cases tunnel_stepE: "tunnel_step M t t'"

section \<open>The invariant\<close>

definition entry_of :: "nat \<times> string \<times> 's tunnel_conn \<Rightarrow> 's entry" where
  "entry_of x = \<lparr>en_ptr = fst x, en_sess = the (ae_session (tu_accept (snd (snd x)))), en_at = ae_now (tu_accept (snd (snd x)))\<rparr>"

definition live_for :: "'s tunnels \<Rightarrow> string \<Rightarrow> (nat \<times> string \<times> 's tunnel_conn) list" where
  "live_for t k = filter (\<lambda>x. fst (snd x) = k) (tn_live t)"

text \<open>The registry holds exactly the live sessions, in order, each vouched for; the gauge is their number.\<close>

definition tunnel_inv :: "mgmt \<Rightarrow> 's tunnels \<Rightarrow> bool" where
  "tunnel_inv M t \<longleftrightarrow> registry_ok (tn_registry t) \<and> (\<forall>k. sessions_of (tn_registry t) k = map entry_of (live_for t k))
     \<and> distinct (map fst (tn_live t)) \<and> (\<forall>x \<in> set (tn_live t). fst x < rg_alloc (tn_registry t))
     \<and> (\<forall>(p, e, c) \<in> set (tn_live t). vouched M c e \<and> ae_session (tu_accept c) \<noteq> None)
     \<and> rg_active (tn_registry t) = int (length (tn_live t))"

lemma tunnel_invD:
  assumes "tunnel_inv M t"
  shows "registry_ok (tn_registry t)" "sessions_of (tn_registry t) k = map entry_of (live_for t k)"
    "distinct (map fst (tn_live t))" "x \<in> set (tn_live t) \<Longrightarrow> fst x < rg_alloc (tn_registry t)"
    "(p, e, c) \<in> set (tn_live t) \<Longrightarrow> vouched M c e \<and> ae_session (tu_accept c) \<noteq> None"
    "rg_active (tn_registry t) = int (length (tn_live t))"
  using assms unfolding tunnel_inv_def by blast+

text \<open>What an acceptor does: it registers a session that is vouched for, or nothing.\<close>

lemma Acceptor_registers:
  assumes "Acceptor_Handle r (acceptor_env M c) = (evs, live, final)" and "Registered e s \<in> set evs"
  shows "vouched M c e \<and> ae_session (tu_accept c) = Some s \<and> live = fst (Register r e s (ae_now (tu_accept c)))"
proof -
  let ?env = "acceptor_env M c"
  obtain req ar where a: "ae_handshake ?env" "ae_protocol ?env = ALPN" "ae_request ?env = Some req" "ae_authorize ?env ar = Some e" "e \<noteq> []"
    "ar_Method ar = ''POST''" "ar_Path ar = tunnel_Path" "ar_Body ar = ae_body ?env" "ar_Headers ar = authHeaders (req_Header req)"
    "ae_session ?env = Some s" "live = fst (Register r e s (ae_now ?env))"
    using assms(1,2) unfolding Acceptor_Handle_def
    by (auto simp del: append_assoc simp: Let_def split: if_splits option.splits prod.splits)
  have same: "ae_handshake ?env = ae_handshake (tu_accept c)" "ae_protocol ?env = ae_protocol (tu_accept c)" "ae_request ?env = ae_request (tu_accept c)"
    "ae_body ?env = ae_body (tu_accept c)" "ae_session ?env = ae_session (tu_accept c)" "ae_now ?env = ae_now (tu_accept c)"
    "ae_authorize ?env = mgmt_authorize M (tu_service c)"
    by (simp_all add: acceptor_env_def)
  from a(4) same have "mgmt_authorize M (tu_service c) ar = Some e" by simp
  from mgmt_vouches [OF this] a same show ?thesis unfolding vouched_def by metis
qed

lemma Acceptor_nothing:
  assumes "Acceptor_Handle r env = (evs, live, final)" and "\<And>e s. Registered e s \<notin> set evs"
  shows "live = r"
proof -
  have "\<forall>e s. Registered e s \<notin> set evs" using assms(2) by blast
  with assms(1) show ?thesis
    unfolding Acceptor_Handle_def by (auto simp: Let_def split: if_splits option.splits prod.splits)
qed

lemma length_without:
  "x \<in> set l \<Longrightarrow> distinct (map fst l) \<Longrightarrow> length (filter (\<lambda>y. fst y \<noteq> fst x) l) + 1 = length l"
proof (induction l)
  case (Cons y l)
  show ?case
  proof (cases "fst y = fst x")
    case True
    with Cons.prems(2) have "filter (\<lambda>y. fst y \<noteq> fst x) l = l" by (intro filter_True) (metis distinct.simps(2) imageI list.simps(9) list.set_map)
    with True show ?thesis by simp
  qed (use Cons in auto)
qed simp

lemma inv_accepted:
  assumes "tunnel_inv M t" and "vouched M c e" and "ae_session (tu_accept c) = Some s"
    and "r = fst (Register (tn_registry t) e s (ae_now (tu_accept c)))"
  shows "tunnel_inv M (t\<lparr>tn_registry := r, tn_live := tn_live t @ [(rg_alloc (tn_registry t), e, c)]\<rparr>)"
proof -
  note inv = tunnel_invD [OF assms(1)]
  let ?t = "t\<lparr>tn_registry := r, tn_live := tn_live t @ [(rg_alloc (tn_registry t), e, c)]\<rparr>"
  have "sessions_of r k = map entry_of (live_for ?t k)" for k
    using inv(2) by (auto simp: assms(3,4) sessions_of_Register live_for_def entry_of_def)
  moreover have "rg_alloc r = rg_alloc (tn_registry t) + 1" "rg_active r = rg_active (tn_registry t) + 1"
    by (simp_all add: assms(4) Register_def Let_def)
  moreover have "rg_alloc (tn_registry t) \<notin> fst ` set (tn_live t)" using inv(4) by force
  ultimately show ?thesis
    using inv assms(2,3) registry_ok_Register [OF inv(1)] unfolding tunnel_inv_def
    by (auto simp: assms(4) less_Suc_eq)
qed

lemma inv_ended:
  assumes "tunnel_inv M t" and "(p, e, c) \<in> set (tn_live t)"
  shows "tunnel_inv M (t\<lparr>tn_registry := unregister (tn_registry t) e p, tn_live := filter (\<lambda>x. fst x \<noteq> p) (tn_live t)\<rparr>)"
proof -
  note inv = tunnel_invD [OF assms(1)]
  let ?l = "filter (\<lambda>x. fst x \<noteq> p) (tn_live t)"
  have only: "x = (p, e, c)" if "x \<in> set (tn_live t)" "fst x = p" for x
    using that assms(2) inv(3) by (metis distinct_map fst_conv inj_on_eq_iff)
  have keep: "filter (\<lambda>x. fst (snd x) = k) ?l = filter (\<lambda>x. fst (snd x) = k) (tn_live t)" if "k \<noteq> e" for k
    using only that by (force intro: filter_cong simp: filter_filter)
  have "sessions_of (unregister (tn_registry t) e p) k = map entry_of (filter (\<lambda>x. fst (snd x) = k) ?l)" for k
  proof (cases "k = e")
    case True
    have "sessions_of (unregister (tn_registry t) e p) e = filter (\<lambda>x. en_ptr x \<noteq> p) (map entry_of (live_for t e))"
      using sessions_of_unregister_ok [OF inv(1), of e p] inv(2) [of e] by simp
    also have "\<dots> = map entry_of (filter (\<lambda>x. fst x \<noteq> p) (live_for t e))"
      by (simp add: filter_map comp_def entry_of_def)
    finally show ?thesis by (simp add: True live_for_def conj_commute)
  next
    case False
    with sessions_of_unregister [of "tn_registry t" e p k] inv(2) [of k] keep show ?thesis by (simp add: live_for_def)
  qed
  moreover have "length ?l + 1 = length (tn_live t)" using length_without [OF assms(2) inv(3)] by simp
  moreover have "rg_active (unregister (tn_registry t) e p) = rg_active (tn_registry t) - 1"
    "rg_alloc (unregister (tn_registry t) e p) = rg_alloc (tn_registry t)" by (simp_all add: unregister_def Let_def)
  ultimately show ?thesis
    using inv(3-6) registry_ok_unregister [OF inv(1), of e p] unfolding tunnel_inv_def
    by (auto simp: live_for_def distinct_map_filter)
qed

lemma tunnel_inv_init: "tunnel_init t \<Longrightarrow> tunnel_inv M t"
  by (simp add: tunnel_init_def tunnel_inv_def registry_ok_New live_for_def) (simp add: NewRegistry_def sessions_of_def)

lemma tunnel_inv_step: "tunnel_inv M t \<Longrightarrow> tunnel_step M t t' \<Longrightarrow> tunnel_inv M t'"
proof (erule tunnel_stepE, goal_cases)
  case (1 c evs live final e s)
  from Acceptor_registers [OF 1(3,4)] inv_accepted [OF 1(1)] 1(2) show ?case by blast
next
  case (2 c evs live final)
  with Acceptor_nothing [OF 2(3,4)] show ?case by simp
next
  case (3 p e c)
  with inv_ended show ?case by blast
qed

interpretation tunnel: safety tunnel_init "tunnel_step M" "tunnel_inv M" for M :: mgmt
  by unfold_locales (rule tunnel_inv_init, assumption, rule tunnel_inv_step)

section \<open>Properties\<close>

lemma dialed_session:
  assumes "i \<noteq> []" and "DialUpstream closed (Some r) (''tunnel:'' @ i) addr opened write_ok tcp_ok = Inr d"
  shows "\<exists>x \<in> set (sessions_of r i). d = TunnelStream (en_sess x) (preamble addr) \<and> \<not> closed (en_sess x)"
proof -
  have "EnclaveID (''tunnel:'' @ i) = (i, True)"
    using assms(1) by (simp add: EnclaveID_def UpstreamPrefix_def HasPrefix_def TrimPrefix_def)
  moreover have "\<exists>x \<in> set (sessions_of r i). s = en_sess x \<and> \<not> closed s" if "pick closed r i = Some s" for s
    using that pick_fold(2) [of closed "sessions_of r i"] by (auto simp: pick_def)
  ultimately show ?thesis
    using assms(2) unfolding DialUpstream_def Registry_Open_def
    by (auto split: option.splits stream_open.splits if_splits sum.splits)
qed

lemma dialed_vouched:
  assumes "reach tunnel_init (tunnel_step M) t" and "i \<noteq> []"
    and "DialUpstream closed (Some (tn_registry t)) (''tunnel:'' @ i) addr opened write_ok tcp_ok = Inr d"
  shows "\<exists>p c s. (p, i, c) \<in> set (tn_live t) \<and> d = TunnelStream s (preamble addr) \<and> ae_session (tu_accept c) = Some s
      \<and> \<not> closed s \<and> vouched M c i"
proof -
  note inv = tunnel_invD [OF tunnel.reach_inv [OF assms(1)]]
  from dialed_session [OF assms(2,3)] inv(2) [of i] obtain p c where
    x: "(p, i, c) \<in> set (tn_live t)" "d = TunnelStream (the (ae_session (tu_accept c))) (preamble addr)" "\<not> closed (the (ae_session (tu_accept c)))"
    by (auto simp: live_for_def entry_of_def)
  with inv(5) [OF x(1)] show ?thesis by auto
qed

text \<open>
  C34. Traffic for an enclave behind a tunnel reaches only a session the management service vouched for:
  in every interleaving of tunnel connections that come, are refused and end, a connection that is
  dialled for \<^verbatim>\<open>tunnel:<id>\<close> is a stream, with the preamble first, of a session that is live, open and
  registered by an acceptor whose peer negotiated the tunnel protocol, and to whose authorizer, which
  sent it the peer's authentication headers and body, the management service answered with a 200
  that names this id; and the gauge counts exactly the live sessions.
\<close>

theorem tunnel_leg_vouched:
  assumes "reach tunnel_init (tunnel_step M) t" and "i \<noteq> []"
    and "DialUpstream closed (Some (tn_registry t)) (''tunnel:'' @ i) addr opened write_ok tcp_ok = Inr d"
  shows "(\<exists>p c s. (p, i, c) \<in> set (tn_live t) \<and> d = TunnelStream s (preamble addr) \<and> ae_session (tu_accept c) = Some s
      \<and> \<not> closed s \<and> vouched M c i)
    \<and> rg_active (tn_registry t) = int (length (tn_live t))"
  using dialed_vouched [OF assms] tunnel_invD(6) [OF tunnel.reach_inv [OF assms(1)]] by blast

definition sample_mgmt :: mgmt where
  "sample_mgmt = \<lparr>mg_marshal = (\<lambda>_. Some ''b''), mg_new_ok = (\<lambda>_. True), mg_decode = (\<lambda>_. Some ''e1''),
     mg_authorizer = NewMgmtAuthorizer ''https://m'' ''t''\<rparr>"

definition sample_transport :: "client_request \<Rightarrow> client_response option" where
  "sample_transport = (\<lambda>_. Some \<lparr>rs_status = 200, rs_body = ''x''\<rparr>)"

definition sample_tunnel :: "nat tunnel_conn" where
  "sample_tunnel = \<lparr>tu_accept = sample_accept, tu_service = sample_transport\<rparr>"

lemma sample_authorize: "mgmt_authorize sample_mgmt sample_transport ar = Some ''e1''"
  by (simp add: mgmt_authorize_def Authorize_def sample_mgmt_def sample_transport_def Let_def)

lemma sample_registered: "Registered ''e1'' 5 \<in> set (fst (Acceptor_Handle NewRegistry (acceptor_env sample_mgmt sample_tunnel)))"
proof -
  have "EqualFold ''Privasys-Tunnel/1'' UpgradeProtocol" "CanonicalHeaderKey ''Upgrade'' = ''Upgrade''" by code_simp+
  then show ?thesis
    by (simp add: Acceptor_Handle_def acceptor_env_def sample_tunnel_def sample_accept_def sample_authorize Let_def h_get_def h_values_def dict_get_def
        maxRequestBody_def Register_def)
qed

definition sample_tunnels :: "nat tunnels" where
  "sample_tunnels = \<lparr>tn_registry = fst (Register NewRegistry ''e1'' 5 0), tn_live = [(0, ''e1'', sample_tunnel)]\<rparr>"

lemma sample_tunnels_reach: "reach tunnel_init (tunnel_step sample_mgmt) sample_tunnels"
proof -
  let ?t = "\<lparr>tn_registry = NewRegistry, tn_live = []\<rparr> :: nat tunnels"
  obtain evs live final where h: "Acceptor_Handle (tn_registry ?t) (acceptor_env sample_mgmt sample_tunnel) = (evs, live, final)" by (metis prod.exhaust)
  then have r: "Registered ''e1'' 5 \<in> set evs" using sample_registered by simp
  from Acceptor_registers [OF h r] have "live = fst (Register NewRegistry ''e1'' 5 0)" by (simp add: sample_tunnel_def sample_accept_def)
  then have "?t\<lparr>tn_registry := live, tn_live := tn_live ?t @ [(rg_alloc (tn_registry ?t), ''e1'', sample_tunnel)]\<rparr> = sample_tunnels"
    by (simp add: sample_tunnels_def NewRegistry_def)
  with tunnel_step.accepted [OF h r] have "tunnel_step sample_mgmt ?t sample_tunnels" by simp
  moreover have "reach tunnel_init (tunnel_step sample_mgmt) ?t" by (rule reach_init) (simp add: tunnel_init_def)
  ultimately show ?thesis by (rule reach_step [rotated])
qed

theorem tunnel_leg_vouched_witness: "vouched sample_mgmt sample_tunnel ''e1''"
proof -
  have "sessions_of (tn_registry sample_tunnels) ''e1'' = [\<lparr>en_ptr = 0, en_sess = 5, en_at = 0\<rparr>]"
    by (simp add: sample_tunnels_def sessions_of_Register) (simp add: NewRegistry_def sessions_of_def)
  moreover have "EnclaveID (''tunnel:'' @ ''e1'') = (''e1'', True)" by code_simp
  ultimately have "DialUpstream (\<lambda>_. False) (Some (tn_registry sample_tunnels)) (''tunnel:'' @ ''e1'') ''c'' StreamOpened True (\<lambda>_. False)
      = Inr (TunnelStream 5 (preamble ''c''))"
    by (simp add: DialUpstream_def Registry_Open_def pick_def pick_step_def)
  from tunnel_leg_vouched [OF sample_tunnels_reach _ this] show ?thesis by (auto simp: sample_tunnels_def)
qed

end
