(* ===== verification/Spec2Isabelle.thy ===== *)
theory Spec2Isabelle
  imports Gateway_System Lifecycle Ws_Queue Sealed_Cut Tunnel_System
begin

text \<open>
  A verification development for the platform gateway, the TLS front of a platform of enclaves
  (\<^verbatim>\<open>cmd/gateway\<close> and \<^verbatim>\<open>internal/\<close>).

  \<^bold>\<open>The program.\<close> The gateway listens on one port. For each connection it reads the ClientHello
  and chooses among four ways: an enclave's own outbound tunnel is accepted
  (\<^verbatim>\<open>internal/tunnel\<close>), a client that speaks RA-TLS or asks for a directly served name is spliced
  byte by byte to the enclave (\<^verbatim>\<open>internal/proxy\<close>), any other client has its TLS terminated and its
  requests forwarded over an attested connection (\<^verbatim>\<open>internal/terminate\<close>), and an unknown name is
  answered with a 404. The route table (\<^verbatim>\<open>internal/routetable\<close>) that decides is polled from a
  management service (\<^verbatim>\<open>internal/sync\<close>). A route may be quarantined: then it must not be reached
  any more, and traffic already open to it is cut through a tracker (\<^verbatim>\<open>internal/quarantine\<close>).

  \<^bold>\<open>How code is modelled.\<close> A Go function is an Isabelle function; a struct is a record; a mutable
  struct is passed and returned; a Go map is an association list with distinct keys; a byte is
  an 8-bit word and a Go string a list of characters; counters and durations that can wrap are
  words. An index or slice that may panic has an option type. A handler that talks to the
  network is a function from an environment record (what the libraries, the clock, the other
  components and the peer return, in order) to the list of its observable effects in program
  order, deferred calls included. State that connections share (the terminate handler's caches,
  the pools and the mux connections, which live in a store and are held by pointer) is passed and
  returned, and between the steps of one goroutine stands an arbitrary list of operations of the
  others: \<open>conn_act\<close> is what can happen to a mux connection, \<open>handler_op\<close> to the handler's state, and
  every handler is itself such a list of operations (\<open>Handle_runs\<close>, \<open>connections_run\<close>), so that what
  holds after every list holds for every interleaving. Where the order of several components
  matters the concurrency is a step relation: traffic, updates and cuts in \<open>Gateway_System\<close>, one
  stream's queue in \<open>Ws_Queue\<close>, the life of the process in \<open>Lifecycle\<close>. Loops are total functions,
  by structural recursion or a measure on the remaining input; no fuel is used except the bound
  of \<open>strip_front\<close>, which is shown to suffice.

  \<^bold>\<open>Theories.\<close>
    \<^item> \<open>Prelude\<close>: bytes, checked indexing, big-endian codecs (locale \<open>fixed_codec\<close>), Go maps
      (locale \<open>go_map\<close>), reachability and invariants (locale \<open>safety\<close>). \<open>Go_Unicode\<close>,
      \<open>Go_Strings\<close>, \<open>Go_Http\<close>, \<open>Go_Sha256\<close>: what the code uses of Go's library (case mapping,
      trimming and splitting, header maps and status texts, SHA-256), with a reader of responses
      through which the writers are specified.
    \<^item> \<open>Sni\<close> (\<^verbatim>\<open>sni.go\<close>): the ClientHello parser. It never panics, inverts an independent
      encoder, and does not misread a prefix.
    \<^item> \<open>Route_Table\<close> (\<^verbatim>\<open>table.go\<close>): routes, lookups, updates with the quarantine and retirement
      hooks, snapshots (locale \<open>key_sort\<close>), versions. \<open>Tracker\<close> and \<open>Quarantine\<close>
      (\<^verbatim>\<open>tracker.go\<close>, \<^verbatim>\<open>quarantine.go\<close>): what is open per host and how it is cut; the refusals.
    \<^item> \<open>Conn_Replay\<close>: the three replaying connections (\<^verbatim>\<open>prefixConn\<close>, locale \<open>byte_source\<close>);
      \<open>Proxy_Protocol\<close> (\<^verbatim>\<open>proxyproto.go\<close>); \<open>Proxy\<close> (\<^verbatim>\<open>proxy.go\<close>): the connection handler, the splice,
      the accept loop; \<open>Tunnel\<close> (\<^verbatim>\<open>tunnel.go\<close>, \<^verbatim>\<open>accept.go\<close>, \<^verbatim>\<open>authz.go\<close>): sessions, streams,
      the acceptor and the authorizer. \<open>Tunnel_System\<close>: acceptors, disconnects and dials interleaved,
      with the management service behind the authorizer.
    \<^item> \<open>Gateway_System\<close>: connections, table updates and cuts interleaved.
    \<^item> \<open>Cors\<close>, \<open>Ratls\<close> (\<^verbatim>\<open>terminate.go\<close>): origins and header rewrites, the attestation verifier.
      \<open>Response_Writer\<close> (\<^verbatim>\<open>io.go\<close>): HTTP framing over a buffered connection that may fail, and a client
      that reads responses by RFC 9112 (\<open>client_reads\<close>), through which the framing is specified.
    \<^item> \<open>Mux_Frame\<close>, \<open>Ws_Mux\<close>, \<open>Ws_Queue\<close>, \<open>Mux_Pool\<close> (\<^verbatim>\<open>wsmux.go\<close>): the frame codec; the mux connection
      with its streams, read loop, keepalive and browser pumps (start, take, write and end are steps of
      their own), and its runs; the bound of a stream's queue; the pool of connections of one application, in a store of pools and connections.
    \<^item> \<open>Handler_Caches\<close> (\<^verbatim>\<open>terminate.go\<close>, \<^verbatim>\<open>wsmux.go\<close>): the terminate handler with its caches of
      reverse proxies and mux pools (locale \<open>app_cache\<close>, interpreted for each) and the operations on
      them. \<open>Attested_Legs\<close>: what the caches hold after any run, and whom the gateway talks to.
    \<^item> \<open>Sealed_Ws\<close> (\<^verbatim>\<open>serveSealedWSMux\<close>): the handler of one sealed WebSocket on the shared state;
      \<open>Sealed_Wire\<close>: the frames it puts on the connection and what it leaves behind; \<open>Sealed_Cut\<close>: the
      close functions of a cut, interleaved with all other users of the connections. \<open>Reverse_Proxy\<close>
      (\<^verbatim>\<open>newProxy\<close>'s \<^verbatim>\<open>Director\<close>, \<^verbatim>\<open>ModifyResponse\<close> and \<^verbatim>\<open>ErrorHandler\<close> inside \<^verbatim>\<open>rp.ServeHTTP\<close>): what is
      sent to the enclave and what is written back, interim responses, upgrades and errors included.
      \<open>Terminate\<close> (\<^verbatim>\<open>Handle\<close>, \<^verbatim>\<open>serveHTTP\<close>): the connection handler and the request loop.
    \<^item> \<open>Route_Sync\<close> (\<^verbatim>\<open>sync.go\<close>): polls as a refinement of \<open>the table shows the feed last accepted\<close>;
      \<open>Health\<close> (\<^verbatim>\<open>health.go\<close>): the endpoints; \<open>Certificates\<close> (\<^verbatim>\<open>certloader.go\<close>, \<^verbatim>\<open>certmgr.go\<close>).
      \<open>Gateway_Main\<close> (\<^verbatim>\<open>config.go\<close>, \<^verbatim>\<open>main.go\<close>): configuration and wiring, with trackers and registries at
      pointers and the two hooks as functions on the state of the process; \<open>Lifecycle\<close> (\<^verbatim>\<open>main.go\<close>,
      \<^verbatim>\<open>Run\<close>, \<^verbatim>\<open>Drain\<close>): the goroutines of the process up to its end.
    \<^item> This theory: properties that need several of these components.

  \<^bold>\<open>What is shown.\<close> Quarantine: no quarantined route is dialled, spliced or proxied, and a route
  turning quarantined cuts what is open to it, for every interleaving of connections and
  updates as long as its host stays in the table (\<open>quarantine_cuts_open_traffic\<close>, \<open>quarantined_never_reached\<close>,
  \<open>terminate_never_reaches_quarantined\<close>, \<open>poll_cuts_quarantined_host\<close>), sealed WebSockets
  included (\<open>poll_ends_sealed_streams\<close>). Transparency: what a client
  sent is what the enclave reads, in splice mode, through the tunnel preamble, through the mux: a
  sealed stream's frames reach the shared connection in order and its browser gets the enclave's
  payloads in order, under every interleaving (\<open>sealed_stream_wire\<close>, \<open>stream_delivery\<close>); what a client
  reads through the reverse proxy is the enclave's response (\<open>proxied_response_reads\<close>).
  Attestation: a request or a sealed stream leaves only for a peer that carries the values of the
  route's policy (\<open>proxied_requests_attested\<close>, \<open>enclave_leg_attested\<close>, \<open>mux_leg_attested\<close>), a leg
  through a tunnel runs on a session that the management service vouched for under the dialled id
  (\<open>tunnel_leg_vouched\<close>, \<open>terminated_tunnel_leg\<close>), and
  retiring a route ends the streams on the pools held for its application and no others
  (\<open>forget_ends_own_streams\<close>). The process that \<^verbatim>\<open>main\<close> builds connects the hooks, the tracker and the
  registry so that these guarantees hold of its polls (\<open>main_wiring\<close>). A graceful stop waits for every connection (\<open>shutdown_drains\<close>). Exactness of the decisions: transports, origins, attestation, certificates, hooks, caches,
  pool members. Robustness: total parsers, bounded queues, truncation but never corruption when
  a connection fails. A few theorems state behaviour that the code's comments do not intend:
  a host that is quarantined on its return to the table is not cut, a session id longer than 255 bytes breaks the
  mux framing, a client can have the terminate marker removed, an informational response ends
  the framing, a version computed without a route's mode misses its change, a stop may end in an
  error with connections open (\<open>shutdown_may_abort\<close>), a pool retired before \<open>get\<close> keeps its connection, an
  enclave's \<^verbatim>\<open>Connection: close\<close> does not end the client's connection, a response without a body
  leaves framing bytes behind its head (\<open>proxied_response_reads\<close>), on a public response with a
  specific origin the gateway's echo stays beside it (\<open>client_cors_headers\<close>), and a negative buffer
  size panics on the first connection (\<open>negative_buffer_panics\<close>).

  \<^bold>\<open>Not modelled.\<close> TLS, X.509, JSON, URL parsing, yamux, the WebSocket library, Prometheus and the
  sockets themselves are arguments or inputs; the requests \<^verbatim>\<open>http.ReadRequest\<close> delivers are inputs,
  so request smuggling inside a connection is out of scope, as are deadlines and the wording of
  log lines. \<^verbatim>\<open>selfSignedTLSConfig\<close> and \<^verbatim>\<open>yamuxConfig\<close> only fill library structures. Metrics are
  modelled where a component counts through them (tracker, registry, read loop, handshakes). The
  reverse proxy's own connection pool is the standard library's, and its exchange with the enclave is
  an input, without trailers. The lines of the source that no definition translates are imports,
  comments, library values and interface declarations. A critical section is one step,
  also where it dials (\<open>get\<close>) or closes several connections (\<open>closeAll\<close>), and so is the handling of one
  frame by the read loop, whose use of a stream's queue \<open>Ws_Queue\<close> refines; a pool that is replaced
  before \<open>get\<close> locks it is covered (\<open>mux_acquire\<close>, \<open>retired_pool_keeps_connection\<close>). In \<open>handleConn\<close> the
  terminator, the tunnel acceptor and the splice are events, and the deferred calls that follow them
  happen when they return. A handler's own \<^verbatim>\<open>browser.Close\<close> is recorded apart from the one of \<open>finish\<close>, so
  statements on closing speak of \<open>finish\<close>. The tracker is
  not part of the handler's state: \<open>Track\<close> and its release are effects of the handlers, and
  \<open>Sealed_Cut\<close> composes the cut with the connections.
\<close>

section \<open>Across components\<close>

text \<open>
  C4. From the feed to the wire: when a poll of the management service turns a host that was
  served into a quarantined one, the quarantine hook is called for it, and the cut of the
  tracker that \<^verbatim>\<open>main\<close> registers as that hook leaves nothing tracked for the host, whatever was
  open, and nothing else changed.
\<close>

theorem poll_cuts_quarantined_host:
  fixes tr :: "'c Tracker"
  assumes "table_ok (sy_table s)" and "t_onQuarantine (sy_table s) = Some True"
    and "Lookup (sy_table s) h = Some old" and "\<not> Quarantined old"
    and "Lookup (sy_table (fst (fetchOnce e s))) h = Some r" and "Quarantined r"
  shows "CallQuarantine (ToLower h) \<in> set (fst (snd (fetchOnce e s)))
    \<and> (\<exists>tr' res. CutHost (Some tr) (ToLower h) = (Some tr', res)
        \<and> (\<forall>i. entry tr' (ToLower h) i = None)
        \<and> (\<forall>h' i. h' \<noteq> ToLower h \<longrightarrow> entry tr' h' i = entry tr h' i))"
proof -
  have "CutHost (Some tr) (ToLower h) = (Some (cut_state tr (ToLower h)), snd (CutHost (Some tr) (ToLower h)))"
    using CutHost_Some [of tr "ToLower h"] by (simp add: prod_eq_iff)
  moreover have "entry (cut_state tr (ToLower h)) h' i = (if h' = ToLower h then None else entry tr h' i)" for h' i
    using entry_cut [of tr "ToLower h" h' i] by simp
  ultimately show ?thesis using poll_quarantine_call [OF assms] by (metis (full_types))
qed

definition sample_feed :: "string \<Rightarrow> RoutesResponse option" where
  "sample_feed = (\<lambda>_. Some \<lparr>rr_Routes = [(plain_route ''a.X'' ''u1'')\<lparr>State := ''quarantined''\<rparr>], rr_Version = ''v2''\<rparr>)"

definition sample_sync_env :: sync_env where
  "sample_sync_env = \<lparr>se_newRequest = True, se_do = (\<lambda>_. Some \<lparr>rs_status = 200, rs_body = ''x''\<rparr>), se_decode = sample_feed, se_now = 7\<rparr>"

definition sample_syncer :: Syncer where
  "sample_syncer = New_Syncer sample_table ''https://m'' ''t'' 5"

lemma sample_poll:
  "table_ok (sy_table sample_syncer)" "t_onQuarantine (sy_table sample_syncer) = Some True"
  "Lookup (sy_table sample_syncer) ''a.x'' = Some (plain_route ''A.x'' ''u1'')" "\<not> Quarantined (plain_route ''A.x'' ''u1'')"
  "Lookup (sy_table (fst (fetchOnce sample_sync_env sample_syncer))) ''a.x'' = Some ((plain_route ''a.X'' ''u1'')\<lparr>State := ''quarantined''\<rparr>)"
  "Quarantined ((plain_route ''a.X'' ''u1'')\<lparr>State := ''quarantined''\<rparr>)" "ToLower ''a.x'' = ''a.x''"
proof -
  let ?q = "(plain_route ''a.X'' ''u1'')\<lparr>State := ''quarantined''\<rparr>"
  have t: "sy_table sample_syncer = sample_table" by (simp add: sample_syncer_def New_Syncer_def)
  show "table_ok (sy_table sample_syncer)" "t_onQuarantine (sy_table sample_syncer) = Some True"
    by (simp_all add: t sample_table_ok) (simp add: sample_table_def OnRetired_def OnQuarantine_def)
  have "feed_of sample_sync_env sample_syncer = Some ([?q], ''v2'')" by (simp add: feed_of_def sample_sync_env_def sample_feed_def)
  from fetchOnce_feed [OF this] have f: "sy_table (fst (fetchOnce sample_sync_env sample_syncer)) = fst (Update sample_table [?q] ''v2'')"
    by (simp add: t)
  have l: "Lookup sample_table ''a.x'' = Some (plain_route ''A.x'' ''u1'')" "Lookup (fst (Update sample_table [?q] ''v2'')) ''a.x'' = Some ?q"
    by code_simp+
  from l f t show "Lookup (sy_table sample_syncer) ''a.x'' = Some (plain_route ''A.x'' ''u1'')"
    "Lookup (sy_table (fst (fetchOnce sample_sync_env sample_syncer))) ''a.x'' = Some ?q" by simp_all
  show "\<not> Quarantined (plain_route ''A.x'' ''u1'')" "Quarantined ?q" "ToLower ''a.x'' = ''a.x''" by code_simp+
qed

theorem poll_cuts_quarantined_host_witness:
  "CallQuarantine ''a.x'' \<in> set (fst (snd (fetchOnce sample_sync_env sample_syncer)))"
  using poll_cuts_quarantined_host [OF sample_poll(1-6), of "NewTracker :: nat Tracker"] by (simp add: sample_poll(7))

text \<open>
  C5. From the feed to the browsers: when a poll turns a host that was served into a quarantined one,
  the hook that cuts it is called, the cut leaves nothing tracked for it, and once the close
  functions it started have run, interleaved with whatever else uses the shared state, every sealed
  WebSocket that was tracked for the host is done, its browser socket closed by \<open>finish\<close> exactly
  once and the enclave told, unless the connection to the enclave broke.
\<close>

theorem poll_ends_sealed_streams:
  fixes tr :: "sealed_ref Tracker"
  assumes "table_ok (sy_table s)" and "t_onQuarantine (sy_table s) = Some True"
    and "Lookup (sy_table s) h = Some old" and "\<not> Quarantined old"
    and "Lookup (sy_table (fst (fetchOnce e s))) h = Some r" and "Quarantined r"
    and "list_all op_clean ops" and "hs = handler_run L ops (initial opts)"
    and "entry tr (ToLower h) i = Some t" and "tk_close t = (c, p, ptr)"
    and "c < ms_next (snd hs)" and "ptr < mc_next (conn_at c hs)"
    and "list_all op_clean later" and "list_all (\<lambda>f. subseq (cut_ops f) later) (cut_closed (snd (CutHost (Some tr) (ToLower h))))"
    and "hs' = handler_run L later hs"
  shows "CallQuarantine (ToLower h) \<in> set (fst (snd (fetchOnce e s)))
    \<and> fst (CutHost (Some tr) (ToLower h)) = Some (cut_state tr (ToLower h))
    \<and> (\<forall>j. entry (cut_state tr (ToLower h)) (ToLower h) j = None)
    \<and> st_done (mc_heap (conn_at c hs') ptr) \<and> length (st_closes (mc_heap (conn_at c hs') ptr)) = 1
    \<and> (\<exists>gs. wrote (conn_at c hs) gs (conn_at c hs') \<and> (broken (conn_at c hs') \<or> cut_frame p \<in> set gs))"
proof -
  have cut: "CutHost (Some tr) (ToLower h) = (Some (cut_state tr (ToLower h)), snd (CutHost (Some tr) (ToLower h)))"
    using CutHost_Some [of tr "ToLower h"] by (simp add: prod_eq_iff)
  have ok: "pools_ok L hs" unfolding assms(8) by (rule pools_ok_run [OF assms(7) pools_ok_initial])
  have "subseq (cut_ops (c, p, ptr)) later"
    using entry_cut_closed [of tr "ToLower h" i t, OF _ cut] assms(9,10,14) by (simp add: list_all_iff)
  from cut_ends_stream [OF ok assms(11-13) this assms(15)] poll_quarantine_call [OF assms(1-6)] entry_cut [of tr "ToLower h"]
  show ?thesis using CutHost_Some [of tr "ToLower h"] by simp
qed

theorem poll_ends_sealed_streams_witness:
  "\<exists>hs'. hs' = handler_run sample_libs (cut_ops (0, sample_params, 0)) (handler_run sample_libs sample_ops (initial sample_options))
    \<and> CallQuarantine ''a.x'' \<in> set (fst (snd (fetchOnce sample_sync_env sample_syncer))) \<and> st_done (mc_heap (conn_at 0 hs') 0)"
proof -
  have "list_all (\<lambda>f. subseq (cut_ops f) (cut_ops (0, sample_params, 0))) (cut_closed (snd (CutHost (Some sample_tracker) (ToLower ''a.x''))))"
    by (simp add: sample_poll(7) sample_cut(2))
  from poll_ends_sealed_streams [OF sample_poll(1-6) sample_ops_clean refl sample_entry _ sample_stream_live [OF refl] cut_ops_clean this refl]
  show ?thesis by (simp add: sample_poll(7))
qed

text \<open>
  The terminate handler only ever sees routes of the platform's own names: an adopter's
  hostname is never handed to it, whatever the client offers, so that a route has one and the
  same application key in the proxy cache and in the mux pools although the two are built from
  different names.
\<close>

theorem terminated_routes_are_own:
  assumes "TerminatorHandle hello rest route \<in> set (handleConn g e)"
  shows "\<not> IsAlias route \<and> UpstreamName route = SNI route \<and> proxy_app route = mux_app route
    \<and> \<not> IsDirect route \<and> g_terminator g"
proof -
  have "\<not> IsAlias route \<and> \<not> IsDirect route \<and> g_terminator g"
  proof (cases g e rule: handleConn_cases)
    case (hello hostname alpns hello' rest')
    with assms show ?thesis
      by (auto simp: conn_body_def serve_route_def send404_def Let_def serve_splice_handover
          split: if_splits option.splits)
  qed (use assms in auto)
  then show ?thesis by (simp add: UpstreamName_def proxy_app_def mux_app_def)
qed

theorem terminated_routes_are_own_witness:
  "proxy_app (plain_route ''A.b'' ''u'') = mux_app (plain_route ''A.b'' ''u'')"
  using terminated_routes_are_own [OF sample_terminates] by blast

text \<open>
  C14. From the client to the enclave: after any sequence of terminated connections, each interleaved
  with whatever else uses the shared state, a request is proxied only on a route that is not
  quarantined, towards that route's upstream, and the TLS session that carries it is only completed
  with a peer whose leaf parses, whose chain verifies when a CA bundle is configured, and which
  carries every value of a policy with the hash of the route's own.
\<close>

theorem proxied_requests_attested:
  assumes "list_all (\<lambda>(e, r). proxy_clean r \<and> mux_clean r \<and> list_all env_clean (he_requests e)) cs"
    and "proxy_clean route" and "s = fold (\<lambda>(e, r) s. fst (Terminate.Handle L e r s)) cs (initial opts)"
    and "TermProxied rp req \<in> set (snd (Terminate.Handle L env route s))" and "rp_verify rp certs = None"
  shows "\<not> Quarantined route \<and> rp_dial rp = Upstream route \<and> req_URLHost req = Upstream route
    \<and> (\<exists>raw rest leaf doc policy. certs = raw # rest \<and> lib_ParseCertificate L raw = Some leaf
        \<and> (o_CACertPool opts \<and> \<not> o_InsecureSkip opts \<longrightarrow> lib_Verify L leaf (List.map_filter (lib_ParseCertificate L) rest))
        \<and> hashPolicy doc = hashPolicy (AttestationPolicy route) \<and> parsePolicy (lib_Unmarshal L) doc = Some policy
        \<and> (\<forall>(oid, hex) \<in> set (ExpectedOIDs policy).
             \<exists>v. carried (lib_Extensions L leaf) oid = Some v \<and> hex_decode (TrimPrefix hex ''0x'') = Some v))"
proof -
  from connections_run [OF assms(1), of L "initial opts"] obtain ops where
    ops: "list_all op_clean ops" "s = handler_run L ops (initial opts)" unfolding assms(3) runs_def by blast
  then have ok: "proxies_ok L (fst s)" using proxies_ok_run [OF ops(1) proxies_ok_initial] by simp
  note handled = Handle_proxied [OF assms(4)]
  then have "snd (proxyFor L route (fst s)) = Inr rp" by blast
  from proxy_attested [OF ok assms(2) this assms(5)] proxyFor_ok(2) [OF ok assms(2) this] handled config_initial [OF ops(2)]
  show ?thesis by (simp add: built_for_def)
qed

theorem proxied_requests_attested_witness:
  "\<not> Quarantined sample_route \<and> rp_dial sample_proxy = Upstream sample_route"
proof -
  let ?env = "\<lparr>he_handshake = True, he_protocol = [], he_requests = [sample_req_env]\<rparr>"
  have s: "initial sample_options = fold (\<lambda>(e, r) s. fst (Terminate.Handle sample_libs e r s)) [] (initial sample_options)" by simp
  show ?thesis
    using proxied_requests_attested [OF _ sample_route_clean(1) s sample_proxied sample_attests] by simp
qed

text \<open>
  A terminated request for an enclave behind a tunnel travels on a vouched session: the proxy the
  handler forwards it through dials the route's \<^verbatim>\<open>tunnel:<id>\<close>, and what the handler's dialer returns
  is a stream of a live session that the management service vouched for under that id, with a
  preamble that names no client.
\<close>

theorem terminated_tunnel_leg:
  assumes "list_all op_clean ops" and "proxy_clean route" and "s = handler_run L ops (initial opts)"
    and "TermProxied rp req \<in> set (snd (Terminate.Handle L env route s))"
    and "Upstream route = ''tunnel:'' @ i" and "i \<noteq> []" and "reach tunnel_init (tunnel_step M) t"
    and "dialUpstream (\<lambda>up addr. DialUpstream closed (Some (tn_registry t)) up addr opened write_ok tcp_ok) (rp_dial rp) = Inr d"
  shows "\<exists>p c sess. (p, i, c) \<in> set (tn_live t) \<and> d = TunnelStream sess (preamble []) \<and> ae_session (tu_accept c) = Some sess
    \<and> \<not> closed sess \<and> vouched M c i"
proof -
  have ok: "proxies_ok L (fst s)" unfolding assms(3) by (rule proxies_ok_run [OF assms(1) proxies_ok_initial])
  have "snd (proxyFor L route (fst s)) = Inr rp" using Handle_proxied [OF assms(4)] by blast
  from proxyFor_ok(2) [OF ok assms(2) this] have "rp_dial rp = ''tunnel:'' @ i" by (simp add: built_for_def assms(5))
  with assms(8) dialed_vouched [OF assms(7,6)] show ?thesis by (simp add: dialUpstream_def)
qed

end
